(* ===== verification/MN_Prelude.thy ===== *)
theory MN_Prelude
  imports Complex_Main "HOL-Library.Word" "HOL-Library.Multiset"
begin

text \<open>
  Shared vocabulary of the development: C++ results as values, the pieces of the C++
  standard library that the masternode uses on strings and vectors, and the generic facts
  about them that the component theories share.

  \<^item> A C++ call either returns, throws an exception, has undefined behaviour (a null
    dereference, an index before the start of an array), does not return, or aborts the
    process (a failed \<open>CHECK\<close>, \<open>LOG(FATAL)\<close>). \<open>'a result\<close>
    makes the outcomes values; \<open>bindE\<close> sequences calls the way an exception propagates.
  \<^item> \<open>std::string\<close> is a list of bytes (\<open>string\<close>).
  \<^item> \<open>std::vector\<close> is a list; \<open>at\<close> throws out of range.
\<close>

subsection \<open>Collections of rules\<close>

named_theorems outcome_simps \<open>evaluation rules for results and their sequencing\<close>
named_theorems handler_defs \<open>definitions of event handlers, to be unfolded together\<close>

subsection \<open>Results\<close>

datatype cpp_exception =
    Out_of_range
  | Invalid_argument
  | System_error
  | Type_error
  | Bad_alloc
  | Length_error
  | Runtime_error string
  | Other_exception string

text \<open>\<open>Other_exception\<close> stands for the types that do not derive from \<open>std::exception\<close>.\<close>

definition std_exception :: "cpp_exception \<Rightarrow> bool" where
  "std_exception e = (case e of Other_exception _ \<Rightarrow> False | _ \<Rightarrow> True)"

datatype fault = Throws cpp_exception | Undefined | Diverges | Aborts string

type_synonym 'a result = "fault + 'a"

definition bindE :: "'a result \<Rightarrow> ('a \<Rightarrow> 'b result) \<Rightarrow> 'b result" where
  "bindE m f = (case m of Inl e \<Rightarrow> Inl e | Inr a \<Rightarrow> f a)"

lemma bindE_simps [simp, outcome_simps]:
  "bindE (Inr a) f = f a"
  "bindE (Inl e) f = Inl e"
  by (simp_all add: bindE_def)

lemma bindE_eq_Inr: "bindE m f = Inr b \<longleftrightarrow> (\<exists>a. m = Inr a \<and> f a = Inr b)"
  by (cases m) auto

lemma bindE_eq_Inl: "bindE m f = Inl e \<longleftrightarrow> m = Inl e \<or> (\<exists>a. m = Inr a \<and> f a = Inl e)"
  by (cases m) auto

lemma bindE_split_Inl: "m = Inl e \<Longrightarrow> bindE m f = Inl e"
  by simp

lemma bindE_assoc: "bindE (bindE m f) g = bindE m (\<lambda>a. bindE (f a) g)"
  by (cases m) auto

text \<open>A call into a library either returns or throws.\<close>

definition liftE :: "cpp_exception + 'a \<Rightarrow> 'a result" where
  "liftE m = (case m of Inl e \<Rightarrow> Inl (Throws e) | Inr a \<Rightarrow> Inr a)"

lemma liftE_simps [simp, outcome_simps]:
  "liftE (Inr a) = Inr a"
  "liftE (Inl e) = Inl (Throws e)"
  by (simp_all add: liftE_def)

lemma liftE_eq_Inr [simp]: "liftE m = Inr a \<longleftrightarrow> m = Inr a"
  by (cases m) auto

lemma liftE_eq_Inl: "liftE m = Inl f \<longleftrightarrow> (\<exists>e. m = Inl e \<and> f = Throws e)"
  by (cases m) auto

text \<open>\<open>catch (const std::exception&)\<close> around a block: a handler for what it catches.\<close>

definition catch_std :: "'a result \<Rightarrow> 'a \<Rightarrow> 'a result" where
  "catch_std m a = (case m of
       Inl (Throws e) \<Rightarrow> if std_exception e then Inr a else m
     | _ \<Rightarrow> m)"

lemma catch_std_simps [simp, outcome_simps]:
  "catch_std (Inr x) a = Inr x"
  "std_exception e \<Longrightarrow> catch_std (Inl (Throws e)) a = Inr a"
  "\<not> std_exception e \<Longrightarrow> catch_std (Inl (Throws e)) a = Inl (Throws e)"
  "catch_std (Inl Undefined) a = Inl Undefined"
  "catch_std (Inl Diverges) a = Inl Diverges"
  "catch_std (Inl (Aborts msg)) a = Inl (Aborts msg)"
  by (simp_all add: catch_std_def)

lemma catch_std_Inr: "catch_std m a = Inr x \<longleftrightarrow>
    m = Inr x \<or> (\<exists>e. m = Inl (Throws e) \<and> std_exception e \<and> x = a)"
  by (cases m) (auto simp: catch_std_def split: fault.splits)

text \<open>An exception that leaves a \<open>noexcept\<close> function terminates the process.\<close>

definition noexcept :: "'a result \<Rightarrow> 'a result" where
  "noexcept m = (case m of Inl (Throws _) \<Rightarrow> Inl (Aborts ''terminate'') | _ \<Rightarrow> m)"

lemma noexcept_simps [simp, outcome_simps]:
  "noexcept (Inr a) = Inr a"
  "noexcept (Inl (Throws e)) = Inl (Aborts ''terminate'')"
  "noexcept (Inl Undefined) = Inl Undefined"
  "noexcept (Inl Diverges) = Inl Diverges"
  "noexcept (Inl (Aborts msg)) = Inl (Aborts msg)"
  by (simp_all add: noexcept_def)

lemma noexcept_eq_Inr [simp]: "noexcept m = Inr a \<longleftrightarrow> m = Inr a"
  by (auto simp: noexcept_def split: sum.splits fault.splits)

lemma noexcept_not_throws [simp]: "noexcept m \<noteq> Inl (Throws e)"
  by (auto simp: noexcept_def split: sum.splits fault.splits)

text \<open>Following a pointer that may be null is undefined behaviour.\<close>

definition deref :: "'a option \<Rightarrow> 'a result" where
  "deref p = (case p of None \<Rightarrow> Inl Undefined | Some a \<Rightarrow> Inr a)"

lemma deref_simps [simp, outcome_simps]:
  "deref (Some a) = Inr a"
  "deref None = Inl Undefined"
  by (simp_all add: deref_def)

text \<open>\<open>std::vector::at\<close>.\<close>

definition vec_at :: "'a list \<Rightarrow> nat \<Rightarrow> 'a result" where
  "vec_at xs i = (if i < length xs then Inr (xs ! i) else Inl (Throws Out_of_range))"

lemma vec_at_in [simp, outcome_simps]: "i < length xs \<Longrightarrow> vec_at xs i = Inr (xs ! i)"
  by (simp add: vec_at_def)

lemma vec_at_out [simp, outcome_simps]:
  "length xs \<le> i \<Longrightarrow> vec_at xs i = Inl (Throws Out_of_range)"
  by (simp add: vec_at_def)

text \<open>A loop that calls a fallible function on each element and pushes the result.\<close>

fun mapE :: "('a \<Rightarrow> 'b result) \<Rightarrow> 'a list \<Rightarrow> 'b list result" where
  "mapE f [] = Inr []"
| "mapE f (x # xs) = bindE (f x) (\<lambda>y. bindE (mapE f xs) (\<lambda>ys. Inr (y # ys)))"

lemma mapE_Inr: "(\<And>x. x \<in> set xs \<Longrightarrow> f x = Inr (g x)) \<Longrightarrow> mapE f xs = Inr (map g xs)"
  by (induction xs) auto

lemma mapE_vec_at: "\<forall>i \<in> set is. i < length xs \<Longrightarrow> mapE (vec_at xs) is = Inr (map ((!) xs) is)"
  by (rule mapE_Inr) auto

lemma mapE_length: "mapE f xs = Inr ys \<Longrightarrow> length ys = length xs"
  by (induction xs arbitrary: ys) (auto simp: bindE_eq_Inr)

lemma mapE_Inl: "mapE f xs = Inl e \<Longrightarrow> \<exists>x \<in> set xs. f x = Inl e"
  by (induction xs) (auto simp: bindE_eq_Inl)

lemma mapE_throws: "x \<in> set xs \<Longrightarrow> f x = Inl e \<Longrightarrow> \<exists>e'. mapE f xs = Inl e'"
proof (induction xs)
  case (Cons y ys)
  then show ?case by (cases "f y"; cases "mapE f ys") auto
qed simp

subsection \<open>Strings\<close>

definition tolower :: "char \<Rightarrow> char" where
  "tolower c = (if 65 \<le> (of_char c :: nat) \<and> (of_char c :: nat) \<le> 90
                then char_of ((of_char c :: nat) + 32) else c)"

lemma tolower_idem [simp]: "tolower (tolower c) = tolower c"
  by (auto simp: tolower_def)

definition digit_char :: "nat \<Rightarrow> char" where
  "digit_char d = char_of (48 + d)"

text \<open>\<open>std::to_string\<close> on an unsigned value: decimal digits, no leading zero.\<close>

fun to_string :: "nat \<Rightarrow> string" where
  "to_string n = (if n < 10 then [digit_char n]
                  else to_string (n div 10) @ [digit_char (n mod 10)])"

declare to_string.simps [simp del]

definition decimal_value :: "string \<Rightarrow> nat" where
  "decimal_value s = foldl (\<lambda>v c. 10 * v + ((of_char c :: nat) - 48)) 0 s"

lemma digit_char_value: "d < 10 \<Longrightarrow> (of_char (digit_char d) :: nat) = 48 + d"
  by (simp add: digit_char_def)

lemma decimal_value_snoc:
  "decimal_value (s @ [c]) = 10 * decimal_value s + ((of_char c :: nat) - 48)"
  by (simp add: decimal_value_def)

lemma decimal_value_to_string [simp]: "decimal_value (to_string n) = n"
proof (induction n rule: to_string.induct)
  case (1 n)
  show ?case
  proof (cases "n < 10")
    case True
    then show ?thesis
      by (simp add: to_string.simps [of n] decimal_value_def digit_char_value)
  next
    case False
    with 1 show ?thesis
      by (simp add: to_string.simps [of n] decimal_value_snoc digit_char_value)
  qed
qed

lemma to_string_inject [simp]: "to_string m = to_string n \<longleftrightarrow> m = n"
  by (metis decimal_value_to_string)

lemma to_string_digits: "c \<in> set (to_string n) \<Longrightarrow> 48 \<le> (of_char c :: nat) \<and> (of_char c :: nat) < 58"
proof (induction n rule: to_string.induct)
  case (1 n)
  have d: "48 \<le> (of_char (digit_char (k mod 10)) :: nat) \<and> (of_char (digit_char (k mod 10)) :: nat) < 58" for k
    by (simp add: digit_char_value)
  show ?case
  proof (cases "n < 10")
    case True
    with "1.prems" d [of n] show ?thesis by (simp add: to_string.simps [of n])
  next
    case False
    with 1 d [of n] show ?thesis by (auto simp: to_string.simps [of n])
  qed
qed

text \<open>\<open>std::string::substr(pos)\<close> throws when \<open>pos\<close> is past the end.\<close>

definition substr_from :: "string \<Rightarrow> nat \<Rightarrow> string result" where
  "substr_from s pos = (if pos \<le> length s then Inr (drop pos s) else Inl (Throws Out_of_range))"

text \<open>\<open>std::string::find_first_of\<close> for one character, \<open>None\<close> for \<open>npos\<close>.\<close>

fun find_char :: "char \<Rightarrow> string \<Rightarrow> nat option" where
  "find_char c [] = None"
| "find_char c (x # xs) = (if x = c then Some 0 else map_option Suc (find_char c xs))"

lemma find_char_None [simp]: "find_char c s = None \<longleftrightarrow> c \<notin> set s"
  by (induction s) auto

lemma find_char_Some: "find_char c s = Some i \<Longrightarrow> take i s = takeWhile (\<lambda>x. x \<noteq> c) s"
  by (induction s arbitrary: i) (auto split: if_splits)

lemma find_char_append [simp]: "c \<notin> set xs \<Longrightarrow> find_char c (xs @ c # ys) = Some (length xs)"
  by (induction xs) auto

text \<open>\<open>std::string::find\<close> for a substring: only whether the result is \<open>npos\<close> is used.\<close>

fun is_prefix :: "string \<Rightarrow> string \<Rightarrow> bool" where
  "is_prefix [] ys = True"
| "is_prefix (x # xs) [] = False"
| "is_prefix (x # xs) (y # ys) = (x = y \<and> is_prefix xs ys)"

fun contains :: "string \<Rightarrow> string \<Rightarrow> bool" where
  "contains needle [] = is_prefix needle []"
| "contains needle (x # xs) = (is_prefix needle (x # xs) \<or> contains needle xs)"

lemma is_prefix_append [simp]: "is_prefix xs (xs @ ys)"
  by (induction xs) auto

lemma is_prefix_iff: "is_prefix xs ys \<longleftrightarrow> (\<exists>zs. ys = xs @ zs)"
  by (induction xs ys rule: is_prefix.induct) auto

lemma contains_iff: "contains n s \<longleftrightarrow> (\<exists>p q. s = p @ n @ q)"
proof (induction s)
  case Nil
  show ?case by (simp add: is_prefix_iff)
next
  case (Cons x xs)
  show ?case
  proof
    assume "contains n (x # xs)"
    then consider "is_prefix n (x # xs)" | "contains n xs" by auto
    then show "\<exists>p q. x # xs = p @ n @ q"
    proof cases
      case 1
      then obtain zs where "x # xs = [] @ n @ zs" by (auto simp: is_prefix_iff)
      then show ?thesis by blast
    next
      case 2
      with Cons.IH obtain p q where "xs = p @ n @ q" by blast
      then have "x # xs = (x # p) @ n @ q" by simp
      then show ?thesis by blast
    qed
  next
    assume "\<exists>p q. x # xs = p @ n @ q"
    then obtain p q where pq: "x # xs = p @ n @ q" by blast
    show "contains n (x # xs)"
    proof (cases p)
      case Nil
      with pq show ?thesis by (metis append_Nil contains.simps(2) is_prefix_iff)
    next
      case (Cons y p')
      with pq Cons.IH show ?thesis by auto
    qed
  qed
qed

subsection \<open>Lists\<close>

lemma set_list_update_subset: "set (xs[i := x]) \<subseteq> insert x (set xs)"
  by (rule set_update_subset_insert)

lemma mset_swap_nth:
  assumes "i < length xs" "j < length xs"
  shows "mset (xs[i := xs ! j, j := xs ! i]) = mset xs"
  using mset_swap [OF assms(2) assms(1)] by simp

end
