(* ===== verification/MN_Cache.thy ===== *)
theory MN_Cache
  imports MN_Prelude
begin

text \<open>
  \<open>Cache.h\<close> and \<open>Cache.cpp\<close>: the cached routes and the content cache that all handler threads
  share.

  \<open>folly::IOBuf\<close> is a parameter (\<open>buf_lib\<close>): \<open>chain_bytes\<close> is what the whole chain holds,
  \<open>data_bytes\<close> what \<open>data()\<close> and \<open>length()\<close> of its first segment give. \<open>buf_ok\<close> states the
  documented behaviour the code relies on. SHA-256 and hexadecimal printing are parameters
  too. The concurrent hash map is an association list: \<open>insert\<close> does nothing when the key is
  present; the map, whose growth is limited, may refuse a key by throwing (\<open>refuses\<close>, a function
  of the keys it holds), as may opening a file. \<open>files\<close> are the files written so far.
\<close>

record 'b buf_lib =
  clone :: "'b \<Rightarrow> 'b"
  cloneCoalesced :: "'b \<Rightarrow> 'b"
  prependChain :: "'b \<Rightarrow> 'b \<Rightarrow> 'b"
  copyBuffer :: "string \<Rightarrow> 'b"
  data_bytes :: "'b \<Rightarrow> string"
  chain_bytes :: "'b \<Rightarrow> string"

definition buf_ok :: "'b buf_lib \<Rightarrow> bool" where
  "buf_ok B \<longleftrightarrow>
     (\<forall>b. chain_bytes B (clone B b) = chain_bytes B b) \<and>
     (\<forall>b. data_bytes B (clone B b) = data_bytes B b) \<and>
     (\<forall>b. chain_bytes B (cloneCoalesced B b) = chain_bytes B b) \<and>
     (\<forall>b. data_bytes B (cloneCoalesced B b) = chain_bytes B b) \<and>
     (\<forall>b c. chain_bytes B (prependChain B b c) = chain_bytes B b @ chain_bytes B c) \<and>
     (\<forall>s. chain_bytes B (copyBuffer B s) = s)"

record cache_lib =
  sha256 :: "string \<Rightarrow> string"
  hexlify :: "string \<Rightarrow> string"
  refuses :: "string list \<Rightarrow> string \<Rightarrow> cpp_exception option"
  open_fails :: "string \<Rightarrow> cpp_exception option"

subsection \<open>CachedRoute\<close>

record ('m, 'b) cached_route =
  route_sha256 :: string
  route_url :: string
  route_content :: 'b
  route_headers :: 'm

definition CachedRoute :: "'b buf_lib \<Rightarrow> cache_lib \<Rightarrow> string \<Rightarrow> 'b \<Rightarrow> 'm \<Rightarrow> ('m, 'b) cached_route" where
  "CachedRoute B L url data_ptr headers =
     \<lparr>route_sha256 = hexlify L (sha256 L (chain_bytes B data_ptr)), route_url = url, route_content = data_ptr, route_headers = headers\<rparr>"

definition getHash :: "('m, 'b) cached_route \<Rightarrow> string" where "getHash r = route_sha256 r"
definition getURL :: "('m, 'b) cached_route \<Rightarrow> string" where "getURL r = route_url r"
definition getContent :: "'b buf_lib \<Rightarrow> ('m, 'b) cached_route \<Rightarrow> 'b" where "getContent B r = clone B (route_content r)"
definition getHeaders :: "('m, 'b) cached_route \<Rightarrow> 'm" where "getHeaders r = route_headers r"

subsection \<open>Maps with insertion of absent keys only\<close>

text \<open>\<open>insert\<close> of the hash maps: the second component tells whether the key was absent.\<close>

definition map_find :: "(string \<times> 'v) list \<Rightarrow> string \<Rightarrow> 'v option" where
  "map_find m k = map_of m k"

definition map_insert :: "string \<Rightarrow> 'v \<Rightarrow> (string \<times> 'v) list \<Rightarrow> (string \<times> 'v) list \<times> bool" where
  "map_insert k v m = (case map_find m k of None \<Rightarrow> ((k, v) # m, True) | Some _ \<Rightarrow> (m, False))"

locale insert_once =
  fixes find :: "'s \<Rightarrow> 'k \<Rightarrow> 'v option" and ins :: "'k \<Rightarrow> 'v \<Rightarrow> 's \<Rightarrow> 's \<times> bool" and inv :: "'s \<Rightarrow> bool"
  assumes ins_new: "inv s \<Longrightarrow> find s k = None \<Longrightarrow> find (fst (ins k v s)) = (find s)(k \<mapsto> v)"
    and ins_present: "find s k \<noteq> None \<Longrightarrow> fst (ins k v s) = s"
    and ins_result: "snd (ins k v s) \<longleftrightarrow> find s k = None"
    and ins_inv: "inv s \<Longrightarrow> inv (fst (ins k v s))"
begin

lemma find_ins: "inv s \<Longrightarrow> find (fst (ins k v s)) x = (if x = k \<and> find s k = None then Some v else find s x)"
  by (cases "find s k") (auto simp: ins_new ins_present)

lemma find_kept: "inv s \<Longrightarrow> find s x = Some w \<Longrightarrow> find (fst (ins k v s)) x = Some w"
  by (auto simp: find_ins)

lemma fold_inv: "inv s \<Longrightarrow> inv (foldl (\<lambda>s (k, v). fst (ins k v s)) s kvs)"
  by (induction kvs arbitrary: s) (auto intro: ins_inv)

text \<open>After any number of insertions the first one of a key counts.\<close>

lemma find_fold:
  "inv s \<Longrightarrow> find (foldl (\<lambda>s (k, v). fst (ins k v s)) s kvs) x =
     (case find s x of Some w \<Rightarrow> Some w | None \<Rightarrow> map_of kvs x)"
proof (induction kvs arbitrary: s)
  case (Cons kv kvs)
  obtain k v where "kv = (k, v)" by (cases kv)
  then show ?case using Cons.IH [OF ins_inv [OF Cons.prems], of k v] find_ins [OF Cons.prems, of k v x]
    by (auto split: option.splits)
qed (auto split: option.splits)

end

definition distinct_keys :: "(string \<times> 'v) list \<Rightarrow> bool" where
  "distinct_keys m \<longleftrightarrow> distinct (map fst m)"

interpretation hash_map: insert_once map_find map_insert distinct_keys
proof
  fix s :: "(string \<times> 'v) list" and k v
  show "map_find s k = None \<Longrightarrow> map_find (fst (map_insert k v s)) = (map_find s)(k \<mapsto> v)"
    by (simp add: map_insert_def map_find_def fun_eq_iff)
  show "map_find s k \<noteq> None \<Longrightarrow> fst (map_insert k v s) = s"
    by (auto simp: map_insert_def)
  show "snd (map_insert k v s) \<longleftrightarrow> map_find s k = None"
    by (simp add: map_insert_def split: option.splits)
  show "distinct_keys s \<Longrightarrow> distinct_keys (fst (map_insert k v s))"
    by (auto simp: map_insert_def map_find_def distinct_keys_def map_of_eq_None_iff split: option.splits)
qed

subsection \<open>ContentCache\<close>

record ('m, 'b) content_cache =
  routes :: "(string \<times> ('m, 'b) cached_route) list"
  maxSize :: nat
  cc_directory :: string
  cc_write_to_disk :: bool
  files :: "string \<rightharpoonup> string"

definition ContentCache :: "nat \<Rightarrow> string \<Rightarrow> bool \<Rightarrow> (string \<rightharpoonup> string) \<Rightarrow> ('m, 'b) content_cache" where
  "ContentCache mx dir writeToDisk fs =
     \<lparr>routes = [], maxSize = mx, cc_directory = dir, cc_write_to_disk = writeToDisk, files = fs\<rparr>"

definition getCachedRoute :: "('m, 'b) content_cache \<Rightarrow> string \<Rightarrow> ('m, 'b) cached_route option" where
  "getCachedRoute c url = map_find (routes c) url"

definition addCachedRoute :: "'b buf_lib \<Rightarrow> cache_lib \<Rightarrow> string \<Rightarrow> 'b \<Rightarrow> 'm \<Rightarrow> ('m, 'b) content_cache \<Rightarrow>
    (bool \<times> ('m, 'b) content_cache) result" where
  "addCachedRoute B L url chain headers c =
     (let newEntry = CachedRoute B L url (clone B chain) headers in
      case refuses L (map fst (routes c)) url of
        Some e \<Rightarrow> Inl (Throws e)
      | None \<Rightarrow>
        let (m, inserted) = map_insert url newEntry (routes c); c = c\<lparr>routes := m\<rparr> in
        if \<not> inserted then Inr (False, c)
        else if cc_write_to_disk c
        then let path = cc_directory c @ getHash newEntry in
             (case open_fails L path of
                Some e \<Rightarrow> Inl (Throws e)
              | None \<Rightarrow> Inr (True, c\<lparr>files := (files c)(path \<mapsto> chain_bytes B (getContent B newEntry))\<rparr>))
        else Inr (True, c))"

definition cache_size :: "('m, 'b) content_cache \<Rightarrow> nat" where
  "cache_size c = length (routes c)"

text \<open>The result is a map from URL to hash, filled in the iteration order of the cache.\<close>

definition getAssetHashMap :: "('m, 'b) content_cache \<Rightarrow> (string \<times> string) list" where
  "getAssetHashMap c = foldl (\<lambda>m (url, r). fst (map_insert url (getHash r) m)) [] (routes c)"

subsection \<open>Invariant\<close>

text \<open>
  Every route is stored under its own URL with the hash of its bytes, keys are distinct, and
  every file the cache wrote is named after the hash of what it holds.
\<close>

definition content_hash :: "cache_lib \<Rightarrow> string \<Rightarrow> string" where
  "content_hash L s = hexlify L (sha256 L s)"

definition route_ok :: "'b buf_lib \<Rightarrow> cache_lib \<Rightarrow> string \<times> ('m, 'b) cached_route \<Rightarrow> bool" where
  "route_ok B L = (\<lambda>(k, r). getURL r = k \<and> getHash r = content_hash L (chain_bytes B (route_content r)))"

definition cache_ok :: "'b buf_lib \<Rightarrow> cache_lib \<Rightarrow> ('m, 'b) content_cache \<Rightarrow> bool" where
  "cache_ok B L c \<longleftrightarrow> distinct_keys (routes c) \<and> (\<forall>kr \<in> set (routes c). route_ok B L kr) \<and>
     (cc_write_to_disk c \<longrightarrow> (\<forall>(k, r) \<in> set (routes c).
        \<exists>s. files c (cc_directory c @ getHash r) = Some s \<and> content_hash L s = getHash r))"

lemma ContentCache_ok [simp]: "cache_ok B L (ContentCache mx dir w fs)"
  by (simp add: cache_ok_def ContentCache_def distinct_keys_def)

lemma getCachedRoute_empty [simp]: "getCachedRoute (ContentCache mx dir w fs) u = None"
  by (simp add: getCachedRoute_def ContentCache_def map_find_def)

lemma CachedRoute_sel [simp]:
  "getHash (CachedRoute B L url b h) = content_hash L (chain_bytes B b)"
  "getURL (CachedRoute B L url b h) = url"
  "route_content (CachedRoute B L url b h) = b"
  "getHeaders (CachedRoute B L url b h) = h"
  by (simp_all add: CachedRoute_def getHash_def getURL_def getHeaders_def content_hash_def)

text \<open>The three ways an insertion can go.\<close>

lemma addCachedRoute_cases:
  assumes "addCachedRoute B L url b h c = Inr (ok, c')"
  obtains (present) r where "getCachedRoute c url = Some r" "ok = False" "c' = c"
  | (memory) "getCachedRoute c url = None" "ok" "\<not> cc_write_to_disk c"
      "c' = c\<lparr>routes := (url, CachedRoute B L url (clone B b) h) # routes c\<rparr>"
  | (disk) "getCachedRoute c url = None" "ok" "cc_write_to_disk c"
      "c' = c\<lparr>routes := (url, CachedRoute B L url (clone B b) h) # routes c,
             files := (files c)(cc_directory c @ content_hash L (chain_bytes B (clone B b)) \<mapsto>
               chain_bytes B (getContent B (CachedRoute B L url (clone B b) h)))\<rparr>"
  using assms
  by (auto simp: addCachedRoute_def Let_def map_insert_def getCachedRoute_def
      split: option.splits prod.splits if_splits)

lemma addCachedRoute_find:
  assumes "addCachedRoute B L url b h c = Inr (ok, c')"
  shows "getCachedRoute c' x =
     (if ok \<and> x = url then Some (CachedRoute B L url (clone B b) h) else getCachedRoute c x)"
    and "ok \<longleftrightarrow> getCachedRoute c url = None"
  using assms by (auto elim!: addCachedRoute_cases simp: getCachedRoute_def map_find_def)

lemma addCachedRoute_config:
  assumes "addCachedRoute B L url b h c = Inr (ok, c')"
  shows "cc_write_to_disk c' = cc_write_to_disk c" "cc_directory c' = cc_directory c"
  using assms by (auto elim!: addCachedRoute_cases)

lemma addCachedRoute_ok:
  assumes B: "buf_ok B" and c: "cache_ok B L c" and a: "addCachedRoute B L url b h c = Inr (ok, c')"
  shows "cache_ok B L c'"
  using a
proof (cases rule: addCachedRoute_cases)
  case (present r)
  with c show ?thesis by simp
next
  case memory
  then have "distinct_keys (routes c')" using c hash_map.ins_inv [of "routes c" url]
    by (simp add: cache_ok_def getCachedRoute_def map_insert_def)
  with memory c show ?thesis by (simp add: cache_ok_def route_ok_def)
next
  case disk
  then have "distinct_keys (routes c')" using c hash_map.ins_inv [of "routes c" url]
    by (simp add: cache_ok_def getCachedRoute_def map_insert_def)
  with disk c B show ?thesis by (auto simp: cache_ok_def route_ok_def getContent_def buf_ok_def)
qed

lemma getAssetHashMap_find:
  "distinct_keys (routes c) \<Longrightarrow> map_find (getAssetHashMap c) u = map_option getHash (getCachedRoute c u)"
proof -
  have eq: "getAssetHashMap c = foldl (\<lambda>m (k, v). fst (map_insert k v m)) [] (map (\<lambda>(u, r). (u, getHash r)) (routes c))"
    unfolding getAssetHashMap_def by (simp add: foldl_map split_def)
  have "map_find (getAssetHashMap c) u = map_of (map (\<lambda>(u, r). (u, getHash r)) (routes c)) u"
    unfolding eq by (subst hash_map.find_fold) (simp_all add: distinct_keys_def map_find_def)
  then show ?thesis by (simp add: map_of_map getCachedRoute_def map_find_def)
qed

subsection \<open>Properties\<close>

text \<open>A history of insertions, from left to right, none of which threw.\<close>

fun add_routes :: "'b buf_lib \<Rightarrow> cache_lib \<Rightarrow> (string \<times> 'b \<times> 'm) list \<Rightarrow> ('m, 'b) content_cache \<Rightarrow>
    ('m, 'b) content_cache result" where
  "add_routes B L [] c = Inr c"
| "add_routes B L ((url, b, h) # rs) c = bindE (addCachedRoute B L url b h c) (\<lambda>(_, c). add_routes B L rs c)"

lemma add_routes_find:
  assumes "buf_ok B" "add_routes B L rs c = Inr c'"
  shows "map_option (\<lambda>r. (chain_bytes B (getContent B r), getHeaders r)) (getCachedRoute c' u) =
     (case getCachedRoute c u of
        Some r \<Rightarrow> Some (chain_bytes B (getContent B r), getHeaders r)
      | None \<Rightarrow> map_option (\<lambda>(b, h). (chain_bytes B b, h)) (map_of rs u))"
  using assms(2)
proof (induction rs arbitrary: c)
  case (Cons t rs)
  obtain url b h where t: "t = (url, b, h)" by (cases t)
  then obtain ok c1 where a: "addCachedRoute B L url b h c = Inr (ok, c1)" and r: "add_routes B L rs c1 = Inr c'"
    using Cons.prems by (auto simp: bindE_eq_Inr)
  have B: "chain_bytes B (clone B x) = chain_bytes B x" for x using assms(1) by (simp add: buf_ok_def)
  show ?case
    using Cons.IH [OF r] addCachedRoute_find(1) [OF a, of u] addCachedRoute_find(2) [OF a]
    by (auto simp: t B getContent_def split: option.splits if_splits)
qed (auto split: option.splits)

lemma add_routes_ok: "buf_ok B \<Longrightarrow> cache_ok B L c \<Longrightarrow> add_routes B L rs c = Inr c' \<Longrightarrow> cache_ok B L c'"
proof (induction rs arbitrary: c)
  case (Cons t rs)
  then obtain ok c1 where a: "addCachedRoute B L (fst t) (fst (snd t)) (snd (snd t)) c = Inr (ok, c1)"
    and r: "add_routes B L rs c1 = Inr c'" by (cases t) (auto simp: bindE_eq_Inr)
  from Cons.IH [OF Cons.prems(1) addCachedRoute_ok [OF Cons.prems(1,2) a] r] show ?case .
qed simp

text \<open>
  C28: after any history of insertions into a fresh cache, looking up a URL gives the bytes and
  the headers of the first insertion for that URL, later ones being ignored, and nothing for a
  URL that was never inserted.
\<close>

theorem cache_first_write_wins:
  assumes "buf_ok B" "add_routes B L rs (ContentCache mx dir w fs) = Inr c"
  shows "map_option (\<lambda>r. (chain_bytes B (getContent B r), getHeaders r)) (getCachedRoute c u) =
     map_option (\<lambda>(b, h). (chain_bytes B b, h)) (map_of rs u)"
  using add_routes_find [OF assms, of u] by simp

definition sample_buf :: "string list buf_lib" where
  "sample_buf = \<lparr>clone = id, cloneCoalesced = (\<lambda>b. [concat b]), prependChain = (@), copyBuffer = (\<lambda>s. [s]),
     data_bytes = (\<lambda>b. case b of [] \<Rightarrow> [] | s # _ \<Rightarrow> s), chain_bytes = concat\<rparr>"

definition sample_cache_lib :: cache_lib where
  "sample_cache_lib = \<lparr>sha256 = id, hexlify = id, refuses = (\<lambda>ks _. if length ks < 1024 then None else Some Bad_alloc),
     open_fails = (\<lambda>_. None)\<rparr>"

lemma sample_buf_ok: "buf_ok sample_buf"
  by (simp add: buf_ok_def sample_buf_def)

theorem cache_first_write_wins_witness:
  "case add_routes sample_buf sample_cache_lib [(''/a'', [''x'', ''y''], ()), (''/b'', [''z''], ()), (''/a'', [''w''], ())]
       (ContentCache 1024 ''d/'' True Map.empty) of
     Inl _ \<Rightarrow> False
   | Inr c \<Rightarrow> map_option (\<lambda>r. (chain_bytes sample_buf (getContent sample_buf r), getHeaders r)) (getCachedRoute c ''/a'') =
       Some (''xy'', ())"
proof -
  let ?rs = "[(''/a'', [''x'', ''y''], ()), (''/b'', [''z''], ()), (''/a'', [''w''], ())]"
  obtain c where c: "add_routes sample_buf sample_cache_lib ?rs (ContentCache 1024 ''d/'' True Map.empty) = Inr c"
    by (simp add: addCachedRoute_def sample_cache_lib_def ContentCache_def Let_def map_insert_def map_find_def)
  from cache_first_write_wins [OF sample_buf_ok c, of "''/a''"] c show ?thesis by (simp add: sample_buf_def)
qed

text \<open>
  The integrity of the cache. After any history of insertions every route is stored under
  its own URL with the hash of its bytes; when the cache writes to disk, the file named after
  that hash exists and holds bytes of that hash; and the asset map handed to clients gives, for
  each URL, the hash of the bytes the cache would serve, in whatever order it was filled.
\<close>

theorem cache_integrity:
  assumes "buf_ok B" "add_routes B L rs (ContentCache mx dir w fs) = Inr c" "getCachedRoute c u = Some r"
  shows "getURL r = u \<and> getHash r = content_hash L (chain_bytes B (getContent B r)) \<and>
     map_find (getAssetHashMap c) u = Some (getHash r) \<and>
     (cc_write_to_disk c \<longrightarrow> (\<exists>s. files c (cc_directory c @ getHash r) = Some s \<and> content_hash L s = getHash r))"
proof -
  have ok: "cache_ok B L c" using add_routes_ok [OF assms(1) _ assms(2)] by simp
  then have d: "distinct_keys (routes c)" by (simp add: cache_ok_def)
  have "(u, r) \<in> set (routes c)" using assms(3) by (simp add: getCachedRoute_def map_find_def map_of_SomeD)
  with ok assms(1) getAssetHashMap_find [OF d, of u] assms(3) show ?thesis
    by (fastforce simp: cache_ok_def route_ok_def getContent_def buf_ok_def)
qed

theorem cache_integrity_witness:
  "case add_routes sample_buf sample_cache_lib [(''/a'', [''x'', ''y''], ())] (ContentCache 1024 ''d/'' True Map.empty) of
     Inl _ \<Rightarrow> False
   | Inr c \<Rightarrow> map_find (getAssetHashMap c) ''/a'' = Some ''xy'' \<and> files c ''d/xy'' = Some ''xy''"
proof -
  obtain c r where c: "add_routes sample_buf sample_cache_lib [(''/a'', [''x'', ''y''], ())]
      (ContentCache 1024 ''d/'' True Map.empty) = Inr c" "getCachedRoute c ''/a'' = Some r"
    "getHash r = ''xy''" "cc_write_to_disk c" "cc_directory c = ''d/''"
    by (simp add: addCachedRoute_def sample_cache_lib_def sample_buf_def ContentCache_def Let_def map_insert_def
        map_find_def getCachedRoute_def content_hash_def)
  from cache_integrity [OF sample_buf_ok c(1,2)] c show ?thesis
    by (auto simp: content_hash_def sample_cache_lib_def)
qed

end
