(* ===== verification/MN_Http.thy ===== *)
theory MN_Http
  imports MN_Cache
begin

text \<open>
  What the request handlers use of proxygen, folly and myhtml, as parameters: messages
  (\<open>http_lib\<close>), URLs (\<open>url_lib\<close>), JSON construction (\<open>json_lib\<close>) and HTML trees (\<open>html_lib\<close>);
  and the responses the handlers send.
\<close>

datatype http_method = GET | Other_method

record 'm http_lib =
  h_getMethod :: "'m \<Rightarrow> http_method"
  h_getURL :: "'m \<Rightarrow> string"
  h_isSecure :: "'m \<Rightarrow> bool"
  h_getClientIP :: "'m \<Rightarrow> string"
  h_ensureHostHeader :: "'m \<Rightarrow> 'm"
  h_getSingleOrEmpty :: "'m \<Rightarrow> string \<Rightarrow> string"
  h_rawGet :: "'m \<Rightarrow> string \<Rightarrow> string"
  h_rawExists :: "'m \<Rightarrow> string \<Rightarrow> bool"
  h_remove :: "string \<Rightarrow> 'm \<Rightarrow> bool \<times> 'm"
  h_stripPerHopHeaders :: "'m \<Rightarrow> 'm"

record 'u url_lib =
  u_parse :: "string \<Rightarrow> 'u"
  u_build :: "string \<Rightarrow> string \<Rightarrow> 16 word \<Rightarrow> string \<Rightarrow> string \<Rightarrow> string \<Rightarrow> 'u"
  u_getUrl :: "'u \<Rightarrow> string"
  u_hasHost :: "'u \<Rightarrow> bool"
  u_getHost :: "'u \<Rightarrow> string"
  u_getPath :: "'u \<Rightarrow> string"
  u_getQuery :: "'u \<Rightarrow> string"
  u_getFragment :: "'u \<Rightarrow> string"

text \<open>
  \<open>folly::dynamic\<close> under construction: \<open>j_at\<close> is the subscript that reads a present key,
  \<open>j_set\<close> the assignment through one.
\<close>

record 'j json_lib =
  j_object :: 'j
  j_array :: 'j
  j_string :: "string \<Rightarrow> 'j"
  j_at :: "'j \<Rightarrow> string \<Rightarrow> 'j"
  j_set :: "'j \<Rightarrow> string \<Rightarrow> 'j \<Rightarrow> 'j"
  j_push_back :: "'j \<Rightarrow> 'j \<Rightarrow> 'j"
  toJson :: "'j \<Rightarrow> string"

datatype html_tag = MyHTML_TAG_SCRIPT | MyHTML_TAG_TEXT

record ('t, 'n) html_lib =
  myhtml_parse :: "string \<Rightarrow> bool \<times> 't"
  tree_get_node_head :: "'t \<Rightarrow> 'n option"
  node_create :: "'t \<Rightarrow> html_tag \<Rightarrow> 't \<times> 'n"
  node_text_set :: "'n \<Rightarrow> string \<Rightarrow> 't \<Rightarrow> 't"
  node_append_child :: "'n \<Rightarrow> 'n \<Rightarrow> 't \<Rightarrow> 't"
  serialization :: "'t \<Rightarrow> string"

record response =
  status :: nat
  reason :: string
  resp_headers :: "(string \<times> string) list"
  resp_body :: "string option"

text \<open>\<open>CHECK\<close> on a pointer.\<close>

definition check :: "string \<Rightarrow> 'a option \<Rightarrow> 'a result" where
  "check msg p = (case p of None \<Rightarrow> Inl (Aborts msg) | Some a \<Rightarrow> Inr a)"

lemma check_simps [simp, outcome_simps]:
  "check msg (Some a) = Inr a"
  "check msg None = Inl (Aborts msg)"
  by (simp_all add: check_def)

subsection \<open>A sample of the library parameters\<close>

text \<open>Used to show that the assumptions of the properties can hold together.\<close>

record sample_msg =
  s_method :: http_method
  s_url :: string
  s_secure :: bool
  s_headers :: "(string \<times> string) list"

definition sample_header :: "sample_msg \<Rightarrow> string \<Rightarrow> string" where
  "sample_header m k = (case map_of (s_headers m) k of None \<Rightarrow> [] | Some v \<Rightarrow> v)"

definition sample_http :: "sample_msg http_lib" where
  "sample_http = \<lparr>h_getMethod = s_method, h_getURL = s_url, h_isSecure = s_secure,
     h_getClientIP = (\<lambda>_. ''1.1.1.1''), h_ensureHostHeader = id,
     h_getSingleOrEmpty = sample_header, h_rawGet = sample_header,
     h_rawExists = (\<lambda>m k. map_of (s_headers m) k \<noteq> None),
     h_remove = (\<lambda>k m. (map_of (s_headers m) k \<noteq> None,
        m\<lparr>s_headers := filter (\<lambda>kv. fst kv \<noteq> k) (s_headers m)\<rparr>)),
     h_stripPerHopHeaders = id\<rparr>"

definition sample_request :: "string \<Rightarrow> sample_msg" where
  "sample_request url = \<lparr>s_method = GET, s_url = url, s_secure = False, s_headers = [(''Host'', ''example.com'')]\<rparr>"

text \<open>A URL is its host and the rest.\<close>

definition sample_urls :: "(string \<times> string) url_lib" where
  "sample_urls = \<lparr>u_parse = (\<lambda>s. ([], s)),
     u_build = (\<lambda>scheme host prt path q f. (host, scheme @ ''://'' @ host @ '':'' @ to_string (unat prt) @ ''/'' @ path)),
     u_getUrl = snd, u_hasHost = (\<lambda>u. fst u \<noteq> []), u_getHost = fst, u_getPath = snd,
     u_getQuery = (\<lambda>_. []), u_getFragment = (\<lambda>_. [])\<rparr>"

lemma sample_http_sel [simp]:
  "h_getMethod sample_http = s_method" "h_getURL sample_http = s_url" "h_isSecure sample_http = s_secure"
  "h_getClientIP sample_http m = ''1.1.1.1''" "h_ensureHostHeader sample_http = id"
  "h_getSingleOrEmpty sample_http = sample_header" "h_rawGet sample_http = sample_header"
  "h_rawExists sample_http m k \<longleftrightarrow> map_of (s_headers m) k \<noteq> None"
  "h_stripPerHopHeaders sample_http = id"
  by (simp_all add: sample_http_def)

lemma sample_urls_sel [simp]:
  "u_parse sample_urls s = ([], s)" "u_getUrl sample_urls = snd" "u_hasHost sample_urls u \<longleftrightarrow> fst u \<noteq> []"
  "u_getHost sample_urls = fst" "u_getPath sample_urls = snd" "u_getQuery sample_urls u = []"
  "u_getFragment sample_urls u = []"
  by (simp_all add: sample_urls_def)

lemma sample_location: "snd (u_build sample_urls ''https'' ''h'' 443 ''a'' [] []) = ''https://h:443/a''"
  by (simp add: sample_urls_def to_string.simps digit_char_def char_of_def bit_0)

end
