(* ===== verification/MN_ServiceWorker.thy ===== *)
theory MN_ServiceWorker
  imports MN_Http
begin

text \<open>
  \<open>ServiceWorker.h\<close> and \<open>ServiceWorker.cpp\<close>: the script that clients register, and its
  injection into cached HTML pages. Reading the file and the HTML library are parameters. The
  HTML is read from the first segment of the buffer only; \<open>inject_of_coalesced\<close> is why that is
  the whole page.
\<close>

record service_worker =
  payload :: string
  inject_script :: string

definition INJECT_SCRIPT :: string where
  \<open>INJECT_SCRIPT = ''navigator.serviceWorker.register('gladius-service-worker.js', {scope: './'});fetch("/masternode-cache-list",{method: "GET",mode: "cors",headers: {"gladius-masternode-direct":"",},cache: "no-store"})''\<close>

definition ServiceWorker :: "(string \<Rightarrow> string option) \<Rightarrow> string \<Rightarrow> service_worker result" where
  "ServiceWorker readFile path =
     (case readFile path of
        None \<Rightarrow> Inl (Aborts (''Could not read service worker javascript file: '' @ path))
      | Some s \<Rightarrow> Inr \<lparr>payload = s, inject_script = INJECT_SCRIPT\<rparr>)"

definition injectServiceWorker :: "('t, 'n) html_lib \<Rightarrow> 'b buf_lib \<Rightarrow> service_worker \<Rightarrow> 'b \<Rightarrow> string" where
  "injectServiceWorker H B sw buf =
     (let (status_ok, tree) = myhtml_parse H (data_bytes B buf) in
      if \<not> status_ok then []
      else case tree_get_node_head H tree of
        None \<Rightarrow> []
      | Some head_node \<Rightarrow>
          let (tree, sw_tag) = node_create H tree MyHTML_TAG_SCRIPT;
              (tree, txt) = node_create H tree MyHTML_TAG_TEXT;
              tree = node_text_set H txt (inject_script sw) tree;
              tree = node_append_child H sw_tag txt tree;
              tree = node_append_child H head_node sw_tag tree
          in serialization H tree)"

definition getPayload :: "service_worker \<Rightarrow> string" where "getPayload sw = payload sw"
definition getInjectScript :: "service_worker \<Rightarrow> string" where "getInjectScript sw = inject_script sw"

lemma inject_data: "data_bytes B b = data_bytes B c \<Longrightarrow> injectServiceWorker H B sw b = injectServiceWorker H B sw c"
  by (simp add: injectServiceWorker_def)

text \<open>On a page in one segment the injection depends on the bytes of the page only.\<close>

definition inject_page :: "('t, 'n) html_lib \<Rightarrow> service_worker \<Rightarrow> string \<Rightarrow> string" where
  "inject_page H sw page = injectServiceWorker H
     \<lparr>clone = id, cloneCoalesced = id, prependChain = (@), copyBuffer = id, data_bytes = id, chain_bytes = id\<rparr> sw page"

lemma inject_of_coalesced:
  assumes "data_bytes B b = s"
  shows "injectServiceWorker H B sw b = inject_page H sw s"
  using assms by (simp add: injectServiceWorker_def inject_page_def)

end
