(* ===== verification/MN_Config.thy ===== *)
theory MN_Config
  imports MN_Prelude
begin

text \<open>
  \<open>MasternodeConfig.h\<close>: the configuration object every component shares, with the default
  of each field as its initialiser writes it, and \<open>MasternodeServer.cpp\<close>: the command line
  flags with their defaults and the part of \<open>main\<close> that fills the configuration from them.

  Ports and the poll interval are \<open>uint16_t\<close> (\<open>16 word\<close>), the flags that carry them are
  \<open>int32\<close> (\<open>32 word\<close>), so the assignments narrow; \<open>maxRoutesToCache\<close> is \<open>size_t\<close>
  (\<open>64 word\<close>), so a negative flag is sign-extended. Socket addresses, TLS contexts and the
  thread options of the server are folly, wangle and proxygen objects; of them the model keeps
  the list of bindings (address, port, whether a certificate is attached).
\<close>

record ip_binding =
  bind_host :: string
  bind_port :: "16 word"
  bind_ssl :: bool

record masternode_config =
  ip :: string
  port :: "16 word"
  ssl_enabled :: bool
  origin_host :: string
  origin_port :: "16 word"
  protected_domain :: string
  IPs :: "ip_binding list"
  cache_directory :: string
  enableP2P :: bool
  gateway_address :: string
  gateway_port :: "16 word"
  gateway_poll_interval :: "16 word"
  service_worker_path :: string
  enableServiceWorker :: bool
  upgrade_insecure :: bool
  ssl_port :: "16 word"
  ignore_heartbeat :: bool
  pool_domain :: string
  cdn_subdomain :: string
  geoip_path :: string
  geo_ip_enabled :: bool
  maxRoutesToCache :: "64 word"

definition default_config :: masternode_config where
  "default_config = \<lparr>
     ip = '''', port = 80, ssl_enabled = False, origin_host = '''', origin_port = 80,
     protected_domain = '''', IPs = [], cache_directory = ''/dev/null'', enableP2P = False,
     gateway_address = '''', gateway_port = 3001, gateway_poll_interval = 5,
     service_worker_path = '''', enableServiceWorker = True, upgrade_insecure = False,
     ssl_port = 443, ignore_heartbeat = False, pool_domain = '''', cdn_subdomain = ''cdn'',
     geoip_path = '''', geo_ip_enabled = False, maxRoutesToCache = 1024 \<rparr>"

record flags =
  FLAGS_ip :: string
  FLAGS_port :: "32 word"
  FLAGS_ssl_port :: "32 word"
  FLAGS_origin_host :: string
  FLAGS_origin_port :: "32 word"
  FLAGS_protected_domain :: string
  FLAGS_cert_path :: string
  FLAGS_key_path :: string
  FLAGS_cache_dir :: string
  FLAGS_gateway_address :: string
  FLAGS_gateway_port :: "32 word"
  FLAGS_sw_path :: string
  FLAGS_upgrade_insecure :: bool
  FLAGS_pool_domain :: string
  FLAGS_cdn_subdomain :: string
  FLAGS_geoip_path :: string
  FLAGS_geo_ip_enabled :: bool
  FLAGS_enable_compression :: bool
  FLAGS_enable_service_worker :: bool
  FLAGS_max_cached_routes :: "32 word"
  FLAGS_enable_p2p :: bool
  FLAGS_ignore_heartbeat :: bool

definition default_flags :: flags where
  "default_flags = \<lparr>
     FLAGS_ip = ''0.0.0.0'', FLAGS_port = 80, FLAGS_ssl_port = 443,
     FLAGS_origin_host = ''0.0.0.0'', FLAGS_origin_port = 80,
     FLAGS_protected_domain = ''localhost'', FLAGS_cert_path = '''', FLAGS_key_path = '''',
     FLAGS_cache_dir = '''', FLAGS_gateway_address = ''0.0.0.0'', FLAGS_gateway_port = 3001,
     FLAGS_sw_path = '''', FLAGS_upgrade_insecure = True, FLAGS_pool_domain = '''',
     FLAGS_cdn_subdomain = ''cdn'', FLAGS_geoip_path = '''', FLAGS_geo_ip_enabled = False,
     FLAGS_enable_compression = False, FLAGS_enable_service_worker = True,
     FLAGS_max_cached_routes = 1024, FLAGS_enable_p2p = False, FLAGS_ignore_heartbeat = False \<rparr>"

subsection \<open>\<open>main\<close>: from the flags to the configuration\<close>

text \<open>Certificate and key must both be given for the TLS listener to exist.\<close>

definition ssl_configured :: "flags \<Rightarrow> bool" where
  "ssl_configured f \<longleftrightarrow> \<not> (FLAGS_cert_path f = [] \<or> FLAGS_key_path f = [])"

definition setup_ssl :: "flags \<Rightarrow> masternode_config \<times> ip_binding list \<Rightarrow>
    masternode_config \<times> ip_binding list" where
  "setup_ssl f = (\<lambda>(config, IPs).
     if ssl_configured f
     then let config = config\<lparr>ssl_port := ucast (FLAGS_ssl_port f)\<rparr>;
              IPs = IPs @ [\<lparr>bind_host = FLAGS_ip f, bind_port = ucast (FLAGS_ssl_port f),
                            bind_ssl = True\<rparr>];
              config = config\<lparr>ssl_enabled := True\<rparr>
          in (if FLAGS_upgrade_insecure f then config\<lparr>upgrade_insecure := True\<rparr> else config, IPs)
     else (config, IPs))"

definition main_config :: "flags \<Rightarrow> masternode_config" where
  "main_config f =
     (let IPs0 = [\<lparr>bind_host = FLAGS_ip f, bind_port = ucast (FLAGS_port f), bind_ssl = False\<rparr>];
          (config, IPs1) = setup_ssl f (default_config, IPs0)
      in config\<lparr>
           ip := FLAGS_ip f,
           port := ucast (FLAGS_port f),
           origin_host := FLAGS_origin_host f,
           origin_port := ucast (FLAGS_origin_port f),
           protected_domain := FLAGS_protected_domain f,
           enableP2P := FLAGS_enable_p2p f,
           gateway_address := FLAGS_gateway_address f,
           gateway_port := ucast (FLAGS_gateway_port f),
           service_worker_path := FLAGS_sw_path f,
           enableServiceWorker := FLAGS_enable_service_worker f,
           IPs := IPs1,
           cache_directory := FLAGS_cache_dir f,
           maxRoutesToCache := scast (FLAGS_max_cached_routes f),
           ignore_heartbeat := FLAGS_ignore_heartbeat f,
           pool_domain := FLAGS_pool_domain f,
           cdn_subdomain := FLAGS_cdn_subdomain f,
           geoip_path := FLAGS_geoip_path f,
           geo_ip_enabled := FLAGS_geo_ip_enabled f \<rparr>)"

lemma main_config_ssl:
  "ssl_enabled (main_config f) = ssl_configured f"
  "upgrade_insecure (main_config f) = (ssl_configured f \<and> FLAGS_upgrade_insecure f)"
  "ssl_port (main_config f) = (if ssl_configured f then ucast (FLAGS_ssl_port f) else 443)"
  by (simp_all add: main_config_def setup_ssl_def default_config_def Let_def)

lemma main_config_ports:
  "port (main_config f) = ucast (FLAGS_port f)"
  "origin_port (main_config f) = ucast (FLAGS_origin_port f)"
  "gateway_port (main_config f) = ucast (FLAGS_gateway_port f)"
  "maxRoutesToCache (main_config f) = scast (FLAGS_max_cached_routes f)"
  by (simp_all add: main_config_def setup_ssl_def default_config_def Let_def)

lemma main_config_ip: "ip (main_config f) = FLAGS_ip f"
  by (simp add: main_config_def setup_ssl_def default_config_def Let_def)

lemma main_config_IPs:
  "IPs (main_config f) =
     \<lparr>bind_host = FLAGS_ip f, bind_port = ucast (FLAGS_port f), bind_ssl = False\<rparr> #
     (if ssl_configured f
      then [\<lparr>bind_host = FLAGS_ip f, bind_port = ucast (FLAGS_ssl_port f), bind_ssl = True\<rparr>]
      else [])"
  by (simp add: main_config_def setup_ssl_def default_config_def Let_def)

subsection \<open>Properties\<close>

text \<open>
  Whatever the flags, the configuration upgrades insecure requests only when it also
  listens with TLS on the port the upgrade redirects to; the plain listener always exists, and
  all listeners use the configured address.
\<close>

theorem main_config_listeners:
  "(ssl_enabled (main_config f) \<longleftrightarrow> (\<exists>b \<in> set (IPs (main_config f)). bind_ssl b)) \<and>
   (upgrade_insecure (main_config f) \<longleftrightarrow>
           (FLAGS_upgrade_insecure f \<and>
            \<lparr>bind_host = ip (main_config f), bind_port = ssl_port (main_config f), bind_ssl = True\<rparr> \<in> set (IPs (main_config f)))) \<and>
   \<lparr>bind_host = ip (main_config f), bind_port = port (main_config f), bind_ssl = False\<rparr> \<in> set (IPs (main_config f)) \<and>
   bind_host ` set (IPs (main_config f)) = {ip (main_config f)}"
  by (auto simp: main_config_ssl main_config_ports main_config_IPs main_config_ip)

end
