(* ===== verification/MN_EdgeNode.thy ===== *)
theory MN_EdgeNode
  imports MN_Prelude
begin

text \<open>
  \<open>Location.h\<close> and \<open>EdgeNode.h\<close>/\<open>EdgeNode.cpp\<close>: a geographic location with its
  Cartesian coordinates on a sphere of the earth's radius, and the data class of a content
  node. \<open>double\<close> is modelled by \<open>real\<close>, so the results are about exact arithmetic;
  \<open>M_PI\<close>, \<open>cos\<close> and \<open>sin\<close> are the real constants and functions.

  The lemmas show that \<open>convertToCartesian\<close> maps onto the sphere and that the straight-line
  distance of two converted locations orders them as their great-circle distance does, which
  is what makes the Euclidean nearest-neighbour search of the code a search for the
  geographically nearest node.
\<close>

subsection \<open>Location\<close>

definition EARTH_RADIUS :: real where
  "EARTH_RADIUS = 6371"

record location =
  latitude :: real
  longitude :: real
  loc_x :: real
  loc_y :: real
  loc_z :: real

definition convertToCartesian :: "location \<Rightarrow> location" where
  "convertToCartesian l =
     (let lat_rads = (latitude l * pi) / 180;
          long_rads = (longitude l * pi) / 180
      in l\<lparr>loc_x := EARTH_RADIUS * cos lat_rads * cos long_rads,
           loc_y := EARTH_RADIUS * cos lat_rads * sin long_rads,
           loc_z := EARTH_RADIUS * sin lat_rads\<rparr>)"

definition rads :: "real \<Rightarrow> real" where
  "rads d = (d * pi) / 180"

text \<open>Reference notions on converted locations.\<close>

definition on_sphere :: "location \<Rightarrow> bool" where
  "on_sphere l \<longleftrightarrow> (loc_x l)\<^sup>2 + (loc_y l)\<^sup>2 + (loc_z l)\<^sup>2 = EARTH_RADIUS\<^sup>2"

definition chord_sq :: "location \<Rightarrow> location \<Rightarrow> real" where
  "chord_sq a b = (loc_x a - loc_x b)\<^sup>2 + (loc_y a - loc_y b)\<^sup>2 + (loc_z a - loc_z b)\<^sup>2"

definition central_cos :: "location \<Rightarrow> location \<Rightarrow> real" where
  \<comment> \<open>the spherical law of cosines: the cosine of the central angle\<close>
  "central_cos a b =
     sin (rads (latitude a)) * sin (rads (latitude b)) +
     cos (rads (latitude a)) * cos (rads (latitude b)) *
       cos (rads (longitude a) - rads (longitude b))"

definition great_circle :: "location \<Rightarrow> location \<Rightarrow> real" where
  "great_circle a b = EARTH_RADIUS * arccos (central_cos a b)"

lemma convertToCartesian_sel [simp]:
  "latitude (convertToCartesian l) = latitude l"
  "longitude (convertToCartesian l) = longitude l"
  "loc_x (convertToCartesian l) = EARTH_RADIUS * cos (rads (latitude l)) * cos (rads (longitude l))"
  "loc_y (convertToCartesian l) = EARTH_RADIUS * cos (rads (latitude l)) * sin (rads (longitude l))"
  "loc_z (convertToCartesian l) = EARTH_RADIUS * sin (rads (latitude l))"
  by (simp_all add: convertToCartesian_def Let_def rads_def)

lemma convertToCartesian_idem [simp]:
  "convertToCartesian (convertToCartesian l) = convertToCartesian l"
  by (simp add: convertToCartesian_def Let_def)

lemma polar_norm:
  fixes r a b :: real
  shows "(r * cos a * cos b)\<^sup>2 + (r * cos a * sin b)\<^sup>2 + (r * sin a)\<^sup>2 = r\<^sup>2"
proof -
  have "(r * cos a * cos b)\<^sup>2 + (r * cos a * sin b)\<^sup>2 + (r * sin a)\<^sup>2
      = r\<^sup>2 * ((cos a)\<^sup>2 * ((cos b)\<^sup>2 + (sin b)\<^sup>2) + (sin a)\<^sup>2)"
    by (simp only: power_mult_distrib distrib_left mult.assoc add.assoc)
  also have "\<dots> = r\<^sup>2" by simp
  finally show ?thesis .
qed

lemma convertToCartesian_on_sphere [simp]: "on_sphere (convertToCartesian l)"
  by (simp add: on_sphere_def polar_norm)

lemma inner_product:
  "loc_x (convertToCartesian a) * loc_x (convertToCartesian b) +
   loc_y (convertToCartesian a) * loc_y (convertToCartesian b) +
   loc_z (convertToCartesian a) * loc_z (convertToCartesian b)
   = EARTH_RADIUS\<^sup>2 * central_cos a b"
  by (simp add: central_cos_def cos_diff power2_eq_square algebra_simps)

lemma chord_sq_expand:
  assumes "on_sphere p" "on_sphere q"
  shows "chord_sq p q =
     2 * EARTH_RADIUS\<^sup>2 - 2 * (loc_x p * loc_x q + loc_y p * loc_y q + loc_z p * loc_z q)"
  using assms by (simp add: chord_sq_def on_sphere_def power2_diff algebra_simps)

lemma chord_sq_central:
  "chord_sq (convertToCartesian a) (convertToCartesian b) = 2 * EARTH_RADIUS\<^sup>2 * (1 - central_cos a b)"
  by (subst chord_sq_expand) (simp_all only: convertToCartesian_on_sphere inner_product, simp add: algebra_simps)

lemma chord_sq_nonneg [simp]: "0 \<le> chord_sq a b"
  by (simp add: chord_sq_def)

lemma EARTH_RADIUS_pos [simp]: "0 < EARTH_RADIUS" "EARTH_RADIUS \<noteq> 0"
  by (simp_all add: EARTH_RADIUS_def)

lemma central_cos_bounds: "-1 \<le> central_cos a b" "central_cos a b \<le> 1"
proof -
  let ?p = "convertToCartesian a" and ?q = "convertToCartesian b"
  have r: "0 < EARTH_RADIUS\<^sup>2" by simp
  have "0 \<le> 2 * EARTH_RADIUS\<^sup>2 * (1 - central_cos a b)"
    using chord_sq_nonneg [of ?p ?q] by (simp only: chord_sq_central)
  with r show "central_cos a b \<le> 1" by (simp add: zero_le_mult_iff)
  have "0 \<le> (loc_x ?p + loc_x ?q)\<^sup>2 + (loc_y ?p + loc_y ?q)\<^sup>2 + (loc_z ?p + loc_z ?q)\<^sup>2" by simp
  also have "\<dots> = 2 * EARTH_RADIUS\<^sup>2 + 2 * (loc_x ?p * loc_x ?q + loc_y ?p * loc_y ?q + loc_z ?p * loc_z ?q)"
    using convertToCartesian_on_sphere [of a] convertToCartesian_on_sphere [of b]
    by (simp only: on_sphere_def power2_sum distrib_left mult.assoc)
  also have "\<dots> = 2 * EARTH_RADIUS\<^sup>2 * (1 + central_cos a b)"
    by (simp only: inner_product distrib_left mult_1_right)
  finally show "-1 \<le> central_cos a b" using r by (simp add: zero_le_mult_iff)
qed

lemma great_circle_mono:
  "great_circle q a \<le> great_circle q b \<longleftrightarrow>
   chord_sq (convertToCartesian q) (convertToCartesian a)
     \<le> chord_sq (convertToCartesian q) (convertToCartesian b)"
proof -
  have "great_circle q a \<le> great_circle q b \<longleftrightarrow>
      arccos (central_cos q a) \<le> arccos (central_cos q b)"
    by (simp add: great_circle_def)
  also have "\<dots> \<longleftrightarrow> central_cos q b \<le> central_cos q a"
    using central_cos_bounds [of q a] central_cos_bounds [of q b]
    by (intro arccos_le_mono) auto
  also have "\<dots> \<longleftrightarrow> 2 * EARTH_RADIUS\<^sup>2 * (1 - central_cos q a)
      \<le> 2 * EARTH_RADIUS\<^sup>2 * (1 - central_cos q b)"
    by (subst mult_le_cancel_left_pos) simp_all
  finally show ?thesis by (simp only: chord_sq_central)
qed

subsection \<open>EdgeNode\<close>

record edge_node =
  node_ip :: string
  node_port :: "16 word"
  node_eth_address :: string
  node_heartbeat :: "32 word"
  node_location :: location

text \<open>
  The constructor leaves the \<open>Location\<close> member default-initialised, that is with
  indeterminate values; the model takes them as the argument \<open>garbage\<close>.
\<close>

definition EdgeNode :: "location \<Rightarrow> string \<Rightarrow> 16 word \<Rightarrow> string \<Rightarrow> 32 word \<Rightarrow> edge_node" where
  "EdgeNode garbage i p eth_addr heartbeat =
     \<lparr>node_ip = i, node_port = p, node_eth_address = eth_addr, node_heartbeat = heartbeat,
      node_location = garbage\<rparr>"

definition getFQDN :: "edge_node \<Rightarrow> string \<Rightarrow> string \<Rightarrow> string" where
  "getFQDN n pool_domain cdn_subdomain =
     ''https://'' @ node_eth_address n @ ''.'' @ cdn_subdomain @ ''.''
       @ pool_domain @ '':'' @ to_string (unat (node_port n))"

definition setLocation :: "edge_node \<Rightarrow> location \<Rightarrow> edge_node" where
  "setLocation n l = n\<lparr>node_location := l\<rparr>"

definition getLocation :: "edge_node \<Rightarrow> location" where
  "getLocation n = node_location n"

definition getIP :: "edge_node \<Rightarrow> string" where "getIP n = node_ip n"
definition getPort :: "edge_node \<Rightarrow> 16 word" where "getPort n = node_port n"
definition getEthAddress :: "edge_node \<Rightarrow> string" where "getEthAddress n = node_eth_address n"
definition getHeartbeat :: "edge_node \<Rightarrow> 32 word" where "getHeartbeat n = node_heartbeat n"

lemma getLocation_setLocation [simp]: "getLocation (setLocation n l) = l"
  by (simp add: getLocation_def setLocation_def)

lemma getFQDN_setLocation [simp]: "getFQDN (setLocation n l) = getFQDN n"
  by (simp add: getFQDN_def setLocation_def fun_eq_iff)

text \<open>
  With a fixed pool domain and subdomain, the name determines the address and the port of the
  node, provided addresses contain no dot (they are hexadecimal).
\<close>

lemma takeWhile_append_sep: "c \<notin> set xs \<Longrightarrow> takeWhile (\<lambda>x. x \<noteq> c) (xs @ c # ys) = xs"
  by (induction xs) auto

lemma append_sep_eq:
  assumes "c \<notin> set xs" "c \<notin> set xs'" "xs @ c # ys = xs' @ c # ys'"
  shows "xs = xs' \<and> ys = ys'"
proof -
  have "takeWhile (\<lambda>x. x \<noteq> c) (xs @ c # ys) = takeWhile (\<lambda>x. x \<noteq> c) (xs' @ c # ys')"
    by (simp only: assms(3))
  then have "xs = xs'"
    unfolding takeWhile_append_sep [OF assms(1)] takeWhile_append_sep [OF assms(2)] .
  with assms(3) show ?thesis by simp
qed

lemma getFQDN_inject:
  assumes "CHR ''.'' \<notin> set (node_eth_address m)" "CHR ''.'' \<notin> set (node_eth_address n)"
    and "getFQDN m pd cs = getFQDN n pd cs"
  shows "node_eth_address m = node_eth_address n \<and> node_port m = node_port n"
proof -
  have "node_eth_address m @ CHR ''.'' # (cs @ ''.'' @ pd @ '':'' @ to_string (unat (node_port m)))
      = node_eth_address n @ CHR ''.'' # (cs @ ''.'' @ pd @ '':'' @ to_string (unat (node_port n)))"
    using assms(3) by (simp add: getFQDN_def)
  from append_sep_eq [OF assms(1,2) this] show ?thesis
    by (simp add: word_unat_eq_iff)
qed

subsection \<open>Properties\<close>

text \<open>
  Within one pool, two edge nodes whose addresses contain no dot have the same host name
  and port only if they have the same address and port.
\<close>

theorem getFQDN_identifies:
  assumes "CHR ''.'' \<notin> set (getEthAddress m)" "CHR ''.'' \<notin> set (getEthAddress n)"
  shows "getFQDN m pool cdn = getFQDN n pool cdn \<longleftrightarrow> getEthAddress m = getEthAddress n \<and> getPort m = getPort n"
  using assms getFQDN_inject [of m n pool cdn]
  by (auto simp: getEthAddress_def getPort_def) (simp add: getFQDN_def)

theorem getFQDN_identifies_witness:
  "getFQDN (EdgeNode (convertToCartesian \<lparr>latitude = 0, longitude = 0, loc_x = 0, loc_y = 0, loc_z = 0\<rparr>) ''1.1.1.1'' 80 ''0xab'' 0) ''pool.com'' ''cdn'' \<noteq>
   getFQDN (EdgeNode (convertToCartesian \<lparr>latitude = 0, longitude = 0, loc_x = 0, loc_y = 0, loc_z = 0\<rparr>) ''1.1.1.1'' 81 ''0xab'' 0) ''pool.com'' ''cdn''"
  using getFQDN_identifies [of "EdgeNode (convertToCartesian \<lparr>latitude = 0, longitude = 0, loc_x = 0, loc_y = 0, loc_z = 0\<rparr>) ''1.1.1.1'' 80 ''0xab'' 0" "EdgeNode (convertToCartesian \<lparr>latitude = 0, longitude = 0, loc_x = 0, loc_y = 0, loc_z = 0\<rparr>) ''1.1.1.1'' 81 ''0xab'' 0"]
  by (simp add: getEthAddress_def getPort_def EdgeNode_def)

end
