(* ===== verification/NF_Metric.thy ===== *)
theory NF_Metric
  imports MN_Prelude
begin

text \<open>
  The distance functor of \<open>libs/nanoflann.hpp\<close> that the masternode instantiates,
  \<open>L2_Simple_Adaptor\<close>, and the interface \<open>distance_functor\<close> the tree search relies on: a
  metric is the sum over the dimensions of a one-dimensional distance that does not grow when
  its second argument moves towards the first. The data source is a function
  \<open>kdtree_get_pt idx dim\<close>.
\<close>

type_synonym data_source = "nat \<Rightarrow> nat \<Rightarrow> real"

definition L2_Simple_evalMetric :: "data_source \<Rightarrow> real list \<Rightarrow> nat \<Rightarrow> nat \<Rightarrow> real" where
  "L2_Simple_evalMetric get a b_idx sz =
     foldl (\<lambda>result i. let diff = a ! i - get b_idx i in result + diff * diff) 0 [0..<sz]"

definition L2_Simple_accum_dist :: "real \<Rightarrow> real \<Rightarrow> nat \<Rightarrow> real" where
  "L2_Simple_accum_dist a b i = (a - b) * (a - b)"

locale distance_functor =
  fixes evalMetric :: "data_source \<Rightarrow> real list \<Rightarrow> nat \<Rightarrow> nat \<Rightarrow> real"
    and accum_dist :: "real \<Rightarrow> real \<Rightarrow> nat \<Rightarrow> real"
  assumes evalMetric_sum: "evalMetric get v idx n = (\<Sum>i<n. accum_dist (v ! i) (get idx i) i)"
    and accum_nonneg: "0 \<le> accum_dist a b i"
    and accum_mono_above: "a \<le> b \<Longrightarrow> b \<le> c \<Longrightarrow> accum_dist a b i \<le> accum_dist a c i"
    and accum_mono_below: "c \<le> b \<Longrightarrow> b \<le> a \<Longrightarrow> accum_dist a b i \<le> accum_dist a c i"
begin

lemma evalMetric_nonneg: "0 \<le> evalMetric get v idx n"
  by (simp add: evalMetric_sum sum_nonneg accum_nonneg)

text \<open>A sum of per-dimension lower bounds is a lower bound of the distance.\<close>

lemma evalMetric_lower_bound:
  assumes "\<And>i. i < n \<Longrightarrow> b ! i \<le> accum_dist (v ! i) (get idx i) i" "length b = n"
  shows "sum_list b \<le> evalMetric get v idx n"
proof -
  have "sum_list b = (\<Sum>i<n. b ! i)" by (simp add: sum_list_sum_nth assms(2) atLeast0LessThan)
  also have "\<dots> \<le> (\<Sum>i<n. accum_dist (v ! i) (get idx i) i)" by (rule sum_mono) (use assms in simp)
  finally show ?thesis by (simp add: evalMetric_sum)
qed

end

lemma foldl_plus_upt: "foldl (\<lambda>r i. r + f i) (c :: real) [0..<n] = c + (\<Sum>i<n. f i)"
  by (induction n) simp_all

lemma L2_Simple_evalMetric_sum:
  "L2_Simple_evalMetric get a idx n = (\<Sum>i<n. (a ! i - get idx i)\<^sup>2)"
  by (simp add: L2_Simple_evalMetric_def Let_def foldl_plus_upt power2_eq_square)

lemma mult_self_mono_pos: "0 \<le> x \<Longrightarrow> x \<le> y \<Longrightarrow> x * x \<le> y * (y :: real)"
  by (rule mult_mono) simp_all

interpretation l2_simple: distance_functor L2_Simple_evalMetric L2_Simple_accum_dist
proof
  fix get v idx n
  show "L2_Simple_evalMetric get v idx n = (\<Sum>i<n. L2_Simple_accum_dist (v ! i) (get idx i) i)"
    by (simp add: L2_Simple_evalMetric_sum L2_Simple_accum_dist_def power2_eq_square)
next
  fix a b c :: real and i :: nat
  show "0 \<le> L2_Simple_accum_dist a b i" by (simp add: L2_Simple_accum_dist_def)
  assume "a \<le> b" "b \<le> c"
  then show "L2_Simple_accum_dist a b i \<le> L2_Simple_accum_dist a c i"
    using mult_self_mono_pos [of "b - a" "c - a"]
    by (simp add: L2_Simple_accum_dist_def algebra_simps)
next
  fix a b c :: real and i :: nat
  assume "c \<le> b" "b \<le> a"
  then show "L2_Simple_accum_dist a b i \<le> L2_Simple_accum_dist a c i"
    using mult_self_mono_pos [of "a - b" "a - c"]
    by (simp add: L2_Simple_accum_dist_def algebra_simps)
qed

end
