(* ===== verification/NF_KDTree.thy ===== *)
theory NF_KDTree
  imports NF_Metric
begin

text \<open>
  The construction of the kd-tree in \<open>libs/nanoflann.hpp\<close> (\<open>KDTreeBaseClass\<close> and
  \<open>KDTreeSingleIndexAdaptor\<close>): \<open>planeSplit\<close>, \<open>middleSplit_\<close>, \<open>divideTree\<close>,
  \<open>computeBoundingBox\<close>, \<open>buildIndex\<close>.

  \<open>vind\<close> is the permutable vector of point indices; \<open>planeSplit\<close> and \<open>middleSplit_\<close> receive a
  pointer to the slice \<open>vind[left..right)\<close>, modelled by that slice, which \<open>divideTree\<close> writes
  back. Reference parameters are returned. \<open>double\<close> is \<open>real\<close>; comparisons are therefore
  total (no NaN). A node of the pooled allocator is a value of a datatype.
\<close>

record interval =
  low :: real
  high :: real

type_synonym bounding_box = "interval list"

datatype node =
    Leaf (left_idx: nat) (right_idx: nat)
  | Nonleaf (divfeat: nat) (divlow: real) (divhigh: real) (child1: node) (child2: node)

subsection \<open>planeSplit\<close>

text \<open>The two inner loops: \<open>left\<close> moves up over the entries that belong in front, \<open>right\<close>
  down over those that belong behind. \<open>right\<close> is unsigned, hence the test for zero.\<close>

function split_up :: "(nat \<Rightarrow> bool) \<Rightarrow> nat list \<Rightarrow> nat \<Rightarrow> nat \<Rightarrow> nat" where
  "split_up front ind left right =
     (if left \<le> right \<and> front (ind ! left) then split_up front ind (Suc left) right else left)"
  by pat_completeness auto
termination
  by (relation "measure (\<lambda>(front, ind, left, right). Suc right - left)") auto

declare split_up.simps [simp del]

fun split_down :: "(nat \<Rightarrow> bool) \<Rightarrow> nat list \<Rightarrow> nat \<Rightarrow> nat \<Rightarrow> nat" where
  "split_down behind ind left 0 = 0"
| "split_down behind ind left (Suc r) =
     (if left \<le> Suc r \<and> behind (ind ! Suc r) then split_down behind ind left r else Suc r)"

lemma split_down_le: "split_down behind ind left right \<le> right"
  by (induction behind ind left right rule: split_down.induct) auto

definition swap_nth :: "'a list \<Rightarrow> nat \<Rightarrow> nat \<Rightarrow> 'a list" where
  "swap_nth xs i j = xs[i := xs ! j, j := xs ! i]"

text \<open>The outer loop, run once with \<open><\<close> and once with \<open>\<le>\<close>.\<close>

function split_loop :: "(nat \<Rightarrow> bool) \<Rightarrow> (nat \<Rightarrow> bool) \<Rightarrow> nat list \<Rightarrow> nat \<Rightarrow> nat \<Rightarrow> nat \<times> nat list" where
  "split_loop front behind ind left right =
     (let left = split_up front ind left right;
          right = split_down behind ind left right
      in if left > right \<or> right = 0 then (left, ind)
         else split_loop front behind (swap_nth ind left right) (Suc left) (right - 1))"
  by pat_completeness auto
termination
proof (relation "measure (\<lambda>(front, behind, ind, left, right). right)")
  fix front behind :: "nat \<Rightarrow> bool" and ind :: "nat list" and left right x y :: nat
  assume "x = split_up front ind left right" "y = split_down behind ind x right" "\<not> (x > y \<or> y = 0)"
  then show "((front, behind, swap_nth ind x y, Suc x, y - 1), front, behind, ind, left, right)
      \<in> measure (\<lambda>(front, behind, ind, left, right). right)"
    using split_down_le [of behind ind x right] by auto
qed simp

declare split_loop.simps [simp del]

definition planeSplit :: "data_source \<Rightarrow> nat list \<Rightarrow> nat \<Rightarrow> nat \<Rightarrow> real \<Rightarrow> nat \<times> nat \<times> nat list" where
  "planeSplit get ind cnt cutfeat cutval =
     (let (lim1, ind) = split_loop (\<lambda>p. get p cutfeat < cutval) (\<lambda>p. get p cutfeat \<ge> cutval)
                          ind 0 (cnt - 1);
          (lim2, ind) = split_loop (\<lambda>p. get p cutfeat \<le> cutval) (\<lambda>p. get p cutfeat > cutval)
                          ind lim1 (cnt - 1)
      in (lim1, lim2, ind))"

lemma split_up_spec:
  assumes "\<forall>i < left. front (ind ! i)" "left \<le> Suc right"
  shows "left \<le> split_up front ind left right \<and> split_up front ind left right \<le> Suc right \<and>
     (\<forall>i < split_up front ind left right. front (ind ! i)) \<and>
     (split_up front ind left right \<le> right \<longrightarrow> \<not> front (ind ! split_up front ind left right))"
  using assms
proof (induction front ind left right rule: split_up.induct)
  case (1 front ind left right)
  show ?case
  proof (cases "left \<le> right \<and> front (ind ! left)")
    case True
    then have "\<forall>i < Suc left. front (ind ! i)" using "1.prems" by (auto simp: less_Suc_eq)
    with True "1.IH" have
      "Suc left \<le> split_up front ind (Suc left) right \<and> split_up front ind (Suc left) right \<le> Suc right \<and>
       (\<forall>i < split_up front ind (Suc left) right. front (ind ! i)) \<and>
       (split_up front ind (Suc left) right \<le> right \<longrightarrow> \<not> front (ind ! split_up front ind (Suc left) right))"
      by simp
    with True show ?thesis by (simp add: split_up.simps [of front ind left right])
  next
    case False
    with "1.prems" show ?thesis by (auto simp: split_up.simps [of front ind left right])
  qed
qed

lemma split_down_spec:
  assumes "\<forall>i. right < i \<and> i < n \<longrightarrow> behind (ind ! i)"
  shows "(\<forall>i. split_down behind ind left right < i \<and> i < n \<longrightarrow> behind (ind ! i)) \<and>
     (split_down behind ind left right = 0 \<or> split_down behind ind left right < left \<or>
      \<not> behind (ind ! split_down behind ind left right))"
  using assms
proof (induction behind ind left right rule: split_down.induct)
  case (2 behind ind left r)
  show ?case
  proof (cases "left \<le> Suc r \<and> behind (ind ! Suc r)")
    case True
    then have "\<forall>i. r < i \<and> i < n \<longrightarrow> behind (ind ! i)"
      using "2.prems" by (metis Suc_lessI)
    with True 2 show ?thesis by simp
  next
    case False
    with "2.prems" show ?thesis by auto
  qed
qed simp

lemma swap_nth_simps [simp]:
  "length (swap_nth xs i j) = length xs"
  "i < length xs \<Longrightarrow> j < length xs \<Longrightarrow> mset (swap_nth xs i j) = mset xs"
  "k \<noteq> i \<Longrightarrow> k \<noteq> j \<Longrightarrow> swap_nth xs i j ! k = xs ! k"
  "i < length xs \<Longrightarrow> j < length xs \<Longrightarrow> swap_nth xs i j ! i = xs ! j"
  "i < length xs \<Longrightarrow> j < length xs \<Longrightarrow> swap_nth xs i j ! j = xs ! i"
  by (auto simp: swap_nth_def mset_swap_nth nth_list_update)

definition split_at :: "(nat \<Rightarrow> bool) \<Rightarrow> nat list \<Rightarrow> nat \<Rightarrow> bool" where
  "split_at front ind k \<longleftrightarrow> k \<le> length ind \<and>
     (\<forall>i < k. front (ind ! i)) \<and> (\<forall>i. k \<le> i \<and> i < length ind \<longrightarrow> \<not> front (ind ! i))"

lemma split_loop_spec:
  assumes "behind = (\<lambda>p. \<not> front p)" "n = length ind" "right < n" "left \<le> Suc right"
    "\<forall>i < left. front (ind ! i)" "\<forall>i. right < i \<and> i < n \<longrightarrow> behind (ind ! i)"
    "split_loop front behind ind left right = (k, ind')"
  shows "mset ind' = mset ind \<and> split_at front ind' k \<and> left \<le> k \<and> take left ind' = take left ind"
  using assms
proof (induction front behind ind left right rule: split_loop.induct)
  case (1 front behind ind left right)
  define x where "x = split_up front ind left right"
  define y where "y = split_down behind ind x right"
  have X: "left \<le> x" "x \<le> Suc right" "\<forall>i < x. front (ind ! i)" "x \<le> right \<Longrightarrow> \<not> front (ind ! x)"
    using split_up_spec [of left front ind right] "1.prems"(4,5) by (simp_all add: x_def)
  have Y: "\<forall>i. y < i \<and> i < n \<longrightarrow> behind (ind ! i)" "y = 0 \<or> y < x \<or> \<not> behind (ind ! y)" "y \<le> right"
    using split_down_spec [of right n behind ind x] "1.prems"(6) split_down_le [of behind ind x right]
    by (simp_all add: y_def)
  note unfold = split_loop.simps [of front behind ind left right]
  show ?case
  proof (cases "x > y \<or> y = 0")
    case True
    with "1.prems"(7) have eq: "k = x" "ind' = ind"
      by (simp_all add: unfold x_def [symmetric] y_def [symmetric] Let_def)
    have "\<not> front (ind ! i)" if "x \<le> i" "i < n" for i
    proof (cases "y < i")
      case True
      with Y(1) that "1.prems"(1) show ?thesis by simp
    next
      case False
      with \<open>x > y \<or> y = 0\<close> that have "i = x" "x = 0" by auto
      with X(4) show ?thesis by simp
    qed
    with X "1.prems"(2,3) eq show ?thesis by (simp add: split_at_def)
  next
    case False
    then have c: "x \<le> y" "y \<noteq> 0" by auto
    then have xy: "x < y" using X(4) Y(2,3) "1.prems"(1) by (metis le_neq_implies_less le_trans not_less)
    let ?ind = "swap_nth ind x y"
    have eq: "split_loop front behind ?ind (Suc x) (y - 1) = (k, ind')"
      using "1.prems"(7) False
      by (simp add: unfold x_def [symmetric] y_def [symmetric] Let_def)
    have fx: "\<not> front (ind ! x)" "front (ind ! y)" using X Y xy "1.prems"(1) by auto
    have len: "x < length ind" "y < length ind" using xy Y(3) "1.prems"(2,3) by auto
    have f: "\<forall>i < Suc x. front (?ind ! i)"
      using X(3) fx(2) xy len by (auto simp: less_Suc_eq)
    have b: "\<forall>i. y - 1 < i \<and> i < n \<longrightarrow> behind (?ind ! i)"
    proof (intro allI impI)
      fix i assume i: "y - 1 < i \<and> i < n"
      show "behind (?ind ! i)"
      proof (cases "i = y")
        case True
        with fx len "1.prems"(1) show ?thesis by simp
      next
        case False
        with i have "y < i" by arith
        with i Y(1) xy show ?thesis by simp
      qed
    qed
    have R: "mset ind' = mset ?ind \<and> split_at front ind' k \<and> Suc x \<le> k \<and> take (Suc x) ind' = take (Suc x) ?ind"
    proof (rule "1.IH" [OF x_def y_def False "1.prems"(1)])
      show "n = length ?ind" using "1.prems"(2) by simp
      show "y - 1 < n" "Suc x \<le> Suc (y - 1)" using xy Y(3) "1.prems"(3) by auto
    qed (rule f b eq)+
    have t: "take left zs = take left (take (Suc x) zs)" for zs :: "nat list"
      using X(1) by (simp add: min_def)
    have "take left ind' = take left ?ind"
      unfolding t [of ind'] t [of ?ind] using R by simp
    also have "\<dots> = take left ind" using X(1) xy by (simp add: swap_nth_def)
    finally show ?thesis using R X(1) len by simp
  qed
qed

text \<open>The documented post-condition of \<open>planeSplit\<close>.\<close>

lemma planeSplit_spec:
  assumes "cnt = length ind" "0 < cnt" "planeSplit get ind cnt f cutv = (lim1, lim2, ind')"
  shows "mset ind' = mset ind" "lim1 \<le> lim2" "lim2 \<le> cnt"
    "\<And>i. i < lim1 \<Longrightarrow> get (ind' ! i) f < cutv"
    "\<And>i. lim1 \<le> i \<Longrightarrow> i < lim2 \<Longrightarrow> get (ind' ! i) f = cutv"
    "\<And>i. lim2 \<le> i \<Longrightarrow> i < cnt \<Longrightarrow> get (ind' ! i) f > cutv"
proof -
  let ?lt = "\<lambda>p. get p f < cutv" and ?le = "\<lambda>p. get p f \<le> cutv"
  obtain ind1 where s1: "split_loop ?lt (\<lambda>p. get p f \<ge> cutv) ind 0 (cnt - 1) = (lim1, ind1)"
    and s2: "split_loop ?le (\<lambda>p. get p f > cutv) ind1 lim1 (cnt - 1) = (lim2, ind')"
    using assms(3) by (auto simp: planeSplit_def Let_def split: prod.splits)
  have n1: "(\<lambda>p. get p f \<ge> cutv) = (\<lambda>p. \<not> ?lt p)" and n2: "(\<lambda>p. get p f > cutv) = (\<lambda>p. \<not> ?le p)"
    by (simp_all add: fun_eq_iff not_less not_le)
  have "mset ind1 = mset ind \<and> split_at ?lt ind1 lim1 \<and> 0 \<le> lim1 \<and> take 0 ind1 = take 0 ind"
    by (rule split_loop_spec [OF n1 refl _ _ _ _ s1]) (use assms(1,2) in auto)
  then have R1: "mset ind1 = mset ind" "split_at ?lt ind1 lim1" by simp_all
  then have l1: "length ind1 = cnt" using assms(1) by (metis size_mset)
  have k1: "lim1 \<le> cnt" "\<And>i. i < lim1 \<Longrightarrow> get (ind1 ! i) f < cutv"
    "\<And>i. lim1 \<le> i \<Longrightarrow> i < cnt \<Longrightarrow> \<not> get (ind1 ! i) f < cutv"
    using R1(2) l1 by (auto simp: split_at_def)
  have "mset ind' = mset ind1 \<and> split_at ?le ind' lim2 \<and> lim1 \<le> lim2 \<and> take lim1 ind' = take lim1 ind1"
    by (rule split_loop_spec [OF n2 refl _ _ _ _ s2])
      (use assms(1,2) l1 k1(1,2) in \<open>auto intro: less_imp_le\<close>)
  then have R2: "mset ind' = mset ind1" "split_at ?le ind' lim2" "lim1 \<le> lim2"
    "take lim1 ind' = take lim1 ind1" by simp_all
  then have l2: "length ind' = cnt" using l1 by (metis size_mset)
  show "mset ind' = mset ind" "lim1 \<le> lim2" "lim2 \<le> cnt"
    using R1 R2 l2 by (auto simp: split_at_def)
  show lt: "get (ind' ! i) f < cutv" if "i < lim1" for i
    using R2(4) that k1(2) by (metis nth_take)
  show "get (ind' ! i) f > cutv" if "lim2 \<le> i" "i < cnt" for i
    using R2(2) that l2 by (auto simp: split_at_def)
  have "mset (drop lim1 ind') = mset (drop lim1 ind1)"
    using R2(1,4) by (metis add_left_cancel append_take_drop_id mset_append)
  then have d: "set (drop lim1 ind') = set (drop lim1 ind1)" by (metis set_mset_mset)
  show "get (ind' ! i) f = cutv" if "lim1 \<le> i" "i < lim2" for i
  proof (rule antisym)
    show "get (ind' ! i) f \<le> cutv" using R2(2) that by (auto simp: split_at_def)
    have "ind' ! i \<in> set (drop lim1 ind')"
      using that l2 \<open>lim2 \<le> cnt\<close> by (auto simp: in_set_conv_nth intro!: exI [of _ "i - lim1"])
    then obtain j where "j < length (drop lim1 ind1)" "drop lim1 ind1 ! j = ind' ! i"
      by (metis d in_set_conv_nth)
    then show "cutv \<le> get (ind' ! i) f" using k1(3) [of "lim1 + j"] l1 by (auto simp: not_less less_diff_conv add.commute)
  qed
qed

subsection \<open>computeMinMax and middleSplit_\<close>

definition computeMinMax :: "data_source \<Rightarrow> nat list \<Rightarrow> nat \<Rightarrow> nat \<Rightarrow> real \<times> real" where
  "computeMinMax get ind cnt element =
     foldl (\<lambda>(min_elem, max_elem) i.
              let val = get (ind ! i) element
              in (if val < min_elem then val else min_elem, if val > max_elem then val else max_elem))
       (get (ind ! 0) element, get (ind ! 0) element) [1..<cnt]"

definition EPS :: real where
  "EPS = 1 / 100000"

definition bbox_span :: "bounding_box \<Rightarrow> nat \<Rightarrow> real" where
  "bbox_span bbox i = high (bbox ! i) - low (bbox ! i)"

definition widest_span :: "nat \<Rightarrow> bounding_box \<Rightarrow> real" where
  "widest_span ndim bbox =
     foldl (\<lambda>max_span i. if bbox_span bbox i > max_span then bbox_span bbox i else max_span)
       (bbox_span bbox 0) [1..<ndim]"

text \<open>Among the dimensions almost as wide as the widest, the one whose points are spread most.\<close>

definition choose_cutfeat :: "data_source \<Rightarrow> nat \<Rightarrow> nat list \<Rightarrow> nat \<Rightarrow> bounding_box \<Rightarrow> nat" where
  "choose_cutfeat get ndim ind cnt bbox =
     fst (foldl (\<lambda>(cutfeat, max_spread) i.
            if bbox_span bbox i > (1 - EPS) * widest_span ndim bbox
            then let (min_elem, max_elem) = computeMinMax get ind cnt i;
                     spread = max_elem - min_elem
                 in if spread > max_spread then (i, spread) else (cutfeat, max_spread)
            else (cutfeat, max_spread))
          (0, -1) [0..<ndim])"

definition middleSplit :: "data_source \<Rightarrow> nat \<Rightarrow> nat list \<Rightarrow> nat \<Rightarrow> bounding_box \<Rightarrow>
    nat \<times> nat \<times> real \<times> nat list" where
  "middleSplit get ndim ind cnt bbox =
     (let cutfeat = choose_cutfeat get ndim ind cnt bbox;
          split_val = (low (bbox ! cutfeat) + high (bbox ! cutfeat)) / 2;
          (min_elem, max_elem) = computeMinMax get ind cnt cutfeat;
          cutval = (if split_val < min_elem then min_elem
                    else if split_val > max_elem then max_elem else split_val);
          (lim1, lim2, ind) = planeSplit get ind cnt cutfeat cutval;
          index = (if lim1 > cnt div 2 then lim1
                   else if lim2 < cnt div 2 then lim2 else cnt div 2)
      in (index, cutfeat, cutval, ind))"

definition min_max_step :: "real \<times> real \<Rightarrow> real \<Rightarrow> real \<times> real" where
  "min_max_step = (\<lambda>(mn, mx) v. (if v < mn then v else mn, if v > mx then v else mx))"

lemma foldl_min_max:
  assumes "finite S" "S \<noteq> {}"
  shows "foldl min_max_step (Min S, Max S) xs = (Min (S \<union> set xs), Max (S \<union> set xs))"
  using assms
proof (induction xs arbitrary: S)
  case (Cons x xs)
  have "(if v < mn then v else mn) = min v mn" "(if v > mn then v else mn) = max v mn" for v mn :: real
    by simp_all
  moreover have "Min (insert x S) = min x (Min S)" "Max (insert x S) = max x (Max S)"
    using Cons.prems by simp_all
  ultimately have "min_max_step (Min S, Max S) x = (Min (insert x S), Max (insert x S))"
    by (simp only: min_max_step_def prod.case)
  with Cons.IH [of "insert x S"] Cons.prems show ?case by simp
qed simp

lemma map_nth_from_1: "xs \<noteq> [] \<Longrightarrow> map ((!) xs) [1..<length xs] = tl xs"
  by (rule nth_equalityI) (auto simp: nth_tl)

lemma computeMinMax_eq:
  assumes "ind \<noteq> []" "cnt = length ind"
  shows "computeMinMax get ind cnt e = (Min ((\<lambda>p. get p e) ` set ind), Max ((\<lambda>p. get p e) ` set ind))"
proof -
  let ?g = "\<lambda>p. get p e"
  have "computeMinMax get ind cnt e =
      foldl min_max_step (Min {?g (hd ind)}, Max {?g (hd ind)}) (map (\<lambda>i. ?g (ind ! i)) [1..<cnt])"
    using assms(1)
    by (simp add: computeMinMax_def foldl_map min_max_step_def Let_def case_prod_unfold hd_conv_nth)
  also have "map (\<lambda>i. ?g (ind ! i)) [1..<cnt] = map ?g (tl ind)"
    unfolding assms(2) map_nth_from_1 [OF assms(1), symmetric] by simp
  also have "foldl min_max_step (Min {?g (hd ind)}, Max {?g (hd ind)}) (map ?g (tl ind)) =
      (Min (?g ` set ind), Max (?g ` set ind))"
  proof (subst foldl_min_max)
    have "insert (hd ind) (set (tl ind)) = set ind" using assms(1) by (cases ind) auto
    then have "{?g (hd ind)} \<union> set (map ?g (tl ind)) = ?g ` set ind" by (metis image_insert insert_is_Un list.set_map)
    then show "(Min ({?g (hd ind)} \<union> set (map ?g (tl ind))), Max ({?g (hd ind)} \<union> set (map ?g (tl ind)))) =
        (Min (?g ` set ind), Max (?g ` set ind))" by simp
  qed simp_all
  finally show ?thesis .
qed

lemma fst_foldl_less:
  assumes "\<And>a b i. fst (f (a, b) i) = a \<or> fst (f (a, b) i) = i" "c < n" "set xs \<subseteq> {..<n}"
  shows "fst (foldl f (c, m) xs) < (n::nat)"
  using assms(2,3)
proof (induction xs arbitrary: c m)
  case (Cons x xs)
  have "fst (f (c, m) x) < n" using Cons.prems assms(1) [of c m x] by auto
  with Cons show ?case by (cases "f (c, m) x") auto
qed simp

lemma choose_cutfeat_less:
  assumes "0 < ndim"
  shows "choose_cutfeat get ndim ind cnt bbox < ndim"
  unfolding choose_cutfeat_def
proof (rule fst_foldl_less)
  show "0 < ndim" by (rule assms)
qed (auto simp: Let_def split: prod.splits)

text \<open>
  The split is proper whatever the bounding box says: both parts are non-empty and separated
  by the cut value. This is why the recursion of \<open>divideTree\<close> ends.
\<close>

lemma middleSplit_spec:
  assumes "cnt = length ind" "2 \<le> cnt" "0 < ndim"
    "middleSplit get ndim ind cnt bbox = (index, cutfeat, cutval, ind')"
  shows "mset ind' = mset ind" "0 < index" "index < cnt" "cutfeat < ndim"
    "\<And>i. i < index \<Longrightarrow> get (ind' ! i) cutfeat \<le> cutval"
    "\<And>i. index \<le> i \<Longrightarrow> i < cnt \<Longrightarrow> cutval \<le> get (ind' ! i) cutfeat"
proof -
  let ?g = "\<lambda>p. get p cutfeat"
  have ne: "ind \<noteq> []" using assms(1,2) by auto
  let ?cf = "choose_cutfeat get ndim ind cnt bbox"
  define sv where "sv = (low (bbox ! ?cf) + high (bbox ! ?cf)) / 2"
  define mn mx where "mn = Min ((\<lambda>p. get p ?cf) ` set ind)" and "mx = Max ((\<lambda>p. get p ?cf) ` set ind)"
  define cv where "cv = (if sv < mn then mn else if sv > mx then mx else sv)"
  obtain lim1 lim2 ind1 where ps0: "planeSplit get ind cnt ?cf cv = (lim1, lim2, ind1)"
    by (cases "planeSplit get ind cnt ?cf cv") auto
  have ms: "middleSplit get ndim ind cnt bbox =
      (if lim1 > cnt div 2 then lim1 else if lim2 < cnt div 2 then lim2 else cnt div 2, ?cf, cv, ind1)"
    using computeMinMax_eq [OF ne assms(1), of get ?cf] ps0
    by (simp only: middleSplit_def Let_def prod.case mn_def [symmetric] mx_def [symmetric]
        sv_def [symmetric] cv_def [symmetric])
  from ms assms(4) have cf: "cutfeat = ?cf" and cv': "cutval = cv" and ind: "ind' = ind1"
    and idx: "index = (if lim1 > cnt div 2 then lim1 else if lim2 < cnt div 2 then lim2 else cnt div 2)"
    by simp_all
  from ps0 have ps: "planeSplit get ind cnt cutfeat cutval = (lim1, lim2, ind')"
    by (simp only: cf cv' ind)
  have "mn \<le> mx" unfolding mn_def mx_def
    using ne by (intro order_trans [OF Min_le [of _ "get (hd ind) ?cf"] Max_ge]) auto
  then have "mn \<le> cv" "cv \<le> mx" by (simp_all add: cv_def)
  then have cv: "Min (?g ` set ind) \<le> cutval" "cutval \<le> Max (?g ` set ind)"
    unfolding mn_def mx_def cf cv' by simp_all
  show "cutfeat < ndim" unfolding cf using assms(3) by (rule choose_cutfeat_less)
  have pos: "0 < cnt" using assms(2) by simp
  note P = planeSplit_spec [OF assms(1) pos ps]
  show m: "mset ind' = mset ind" by (rule P(1))
  then have s: "set ind' = set ind" "length ind' = cnt"
    using assms(1) by (metis set_mset_mset, metis size_mset)
  have "Min (?g ` set ind) \<in> ?g ` set ind" "Max (?g ` set ind) \<in> ?g ` set ind" using ne by simp_all
  then obtain p q where p: "p \<in> set ind'" "?g p \<le> cutval" and q: "q \<in> set ind'" "cutval \<le> ?g q"
    using cv s(1) by auto
  from p obtain i where i: "i < cnt" "?g (ind' ! i) \<le> cutval" using s(2) by (auto simp: in_set_conv_nth)
  from q obtain j where j: "j < cnt" "cutval \<le> ?g (ind' ! j)" using s(2) by (auto simp: in_set_conv_nth)
  have "lim1 < cnt" using P(4) [of j] j P(2,3) by (metis le_trans not_le order.strict_iff_order)
  moreover have "0 < lim2" using P(6) [of i] i by (metis not_le not_gr_zero le0)
  ultimately show "0 < index" "index < cnt" using idx assms(2) by (auto split: if_splits)
  show "get (ind' ! i) cutfeat \<le> cutval" if "i < index" for i
    using that idx P(2) P(4) [of i] P(5) [of i] by (cases "i < lim1"; force split: if_splits)
  show "cutval \<le> get (ind' ! i) cutfeat" if "index \<le> i" "i < cnt" for i
    using that idx P(2) P(5) [of i] P(6) [of i] by (cases "i < lim2"; force split: if_splits)
qed

subsection \<open>divideTree\<close>

definition point_bbox :: "data_source \<Rightarrow> nat \<Rightarrow> nat \<Rightarrow> bounding_box" where
  "point_bbox get ndim p = map (\<lambda>i. \<lparr>low = get p i, high = get p i\<rparr>) [0..<ndim]"

text \<open>One round of the loops that widen a bounding box by a point.\<close>

definition grow_bbox :: "data_source \<Rightarrow> nat \<Rightarrow> bounding_box \<Rightarrow> nat \<Rightarrow> bounding_box" where
  "grow_bbox get ndim bbox p =
     map (\<lambda>i. \<lparr>low = (if low (bbox ! i) > get p i then get p i else low (bbox ! i)),
               high = (if high (bbox ! i) < get p i then get p i else high (bbox ! i))\<rparr>) [0..<ndim]"

definition leaf_bbox :: "data_source \<Rightarrow> nat \<Rightarrow> nat list \<Rightarrow> nat \<Rightarrow> nat \<Rightarrow> bounding_box" where
  "leaf_bbox get ndim vind left right =
     foldl (\<lambda>bbox k. grow_bbox get ndim bbox (vind ! k)) (point_bbox get ndim (vind ! left))
       [left + 1..<right]"

definition merge_bbox :: "nat \<Rightarrow> bounding_box \<Rightarrow> bounding_box \<Rightarrow> bounding_box" where
  "merge_bbox ndim left_bbox right_bbox =
     map (\<lambda>i. \<lparr>low = min (low (left_bbox ! i)) (low (right_bbox ! i)),
               high = max (high (left_bbox ! i)) (high (right_bbox ! i))\<rparr>) [0..<ndim]"

text \<open>
  The recursion ends only if every split is proper; \<open>None\<close> is a recursion that does not.
  The result is the node, the permuted index vector and the bounding box, which the code
  returns through its reference parameter.
\<close>

partial_function (option) divideTree ::
    "data_source \<Rightarrow> nat \<Rightarrow> nat \<Rightarrow> nat list \<Rightarrow> nat \<Rightarrow> nat \<Rightarrow> bounding_box \<Rightarrow>
     (node \<times> nat list \<times> bounding_box) option" where
  "divideTree get ndim leaf_max_size vind left right bbox =
     (if right - left \<le> leaf_max_size
      then Some (Leaf left right, vind, leaf_bbox get ndim vind left right)
      else
        let (idx, cutfeat, cutval, ind) =
              middleSplit get ndim (take (right - left) (drop left vind)) (right - left) bbox;
            vind = take left vind @ ind @ drop right vind
        in Option.bind
             (divideTree get ndim leaf_max_size vind left (left + idx)
                (bbox[cutfeat := (bbox ! cutfeat)\<lparr>high := cutval\<rparr>]))
             (\<lambda>(c1, vind, left_bbox).
                Option.bind
                  (divideTree get ndim leaf_max_size vind (left + idx) right
                     (bbox[cutfeat := (bbox ! cutfeat)\<lparr>low := cutval\<rparr>]))
                  (\<lambda>(c2, vind, right_bbox).
                     Some (Nonleaf cutfeat (high (left_bbox ! cutfeat)) (low (right_bbox ! cutfeat)) c1 c2,
                           vind, merge_bbox ndim left_bbox right_bbox))))"

subsection \<open>What the tree promises\<close>

definition subvec :: "'a list \<Rightarrow> nat \<Rightarrow> nat \<Rightarrow> 'a list" where
  "subvec xs l r = take (r - l) (drop l xs)"

definition bbox_of :: "data_source \<Rightarrow> nat \<Rightarrow> nat set \<Rightarrow> bounding_box" where
  "bbox_of get ndim S =
     map (\<lambda>i. \<lparr>low = Min ((\<lambda>p. get p i) ` S), high = Max ((\<lambda>p. get p i) ` S)\<rparr>) [0..<ndim]"

text \<open>
  A node over \<open>vind[l..r)\<close>: a leaf records the range; an inner node splits it properly, all
  points of the first child lie at or below \<open>divlow\<close> in the split dimension, all points of the
  second at or above \<open>divhigh\<close>, and the two planes do not cross.
\<close>

fun tree_ok :: "data_source \<Rightarrow> nat \<Rightarrow> nat list \<Rightarrow> nat \<Rightarrow> nat \<Rightarrow> node \<Rightarrow> bool" where
  "tree_ok get ndim vind l r (Leaf a b) \<longleftrightarrow> a = l \<and> b = r \<and> l < r \<and> r \<le> length vind"
| "tree_ok get ndim vind l r (Nonleaf f lo hi c1 c2) \<longleftrightarrow>
     f < ndim \<and> lo \<le> hi \<and>
     (\<exists>mid. l < mid \<and> mid < r \<and> tree_ok get ndim vind l mid c1 \<and> tree_ok get ndim vind mid r c2 \<and>
        (\<forall>p \<in> set (subvec vind l mid). get p f \<le> lo) \<and>
        (\<forall>p \<in> set (subvec vind mid r). hi \<le> get p f))"

lemma length_bbox_of [simp]: "length (bbox_of get ndim S) = ndim"
  by (simp add: bbox_of_def)

lemma bbox_of_nth [simp]:
  "i < ndim \<Longrightarrow> low (bbox_of get ndim S ! i) = Min ((\<lambda>p. get p i) ` S)"
  "i < ndim \<Longrightarrow> high (bbox_of get ndim S ! i) = Max ((\<lambda>p. get p i) ` S)"
  by (simp_all add: bbox_of_def)

lemma point_bbox_eq: "point_bbox get ndim p = bbox_of get ndim {p}"
  by (simp add: point_bbox_def bbox_of_def)

lemma grow_bbox_eq:
  assumes "finite S" "S \<noteq> {}"
  shows "grow_bbox get ndim (bbox_of get ndim S) p = bbox_of get ndim (insert p S)"
proof -
  have "(if m > v then v else m) = min v m" "(if m < v then v else m) = max v m" for m v :: real
    by simp_all
  moreover have "Min ((\<lambda>p. get p i) ` insert p S) = min (get p i) (Min ((\<lambda>p. get p i) ` S))"
    "Max ((\<lambda>p. get p i) ` insert p S) = max (get p i) (Max ((\<lambda>p. get p i) ` S))" for i
    using assms by simp_all
  ultimately show ?thesis
    by (simp only: grow_bbox_def bbox_of_def) (rule map_cong [OF refl], simp)
qed

lemma foldl_grow_bbox:
  assumes "finite S" "S \<noteq> {}"
  shows "foldl (grow_bbox get ndim) (bbox_of get ndim S) ps = bbox_of get ndim (S \<union> set ps)"
  using assms by (induction ps arbitrary: S) (simp_all add: grow_bbox_eq)

lemma subvec_Cons: "l < r \<Longrightarrow> r \<le> length xs \<Longrightarrow> subvec xs l r = xs ! l # subvec xs (Suc l) r"
  by (simp add: subvec_def Suc_diff_Suc [symmetric] Cons_nth_drop_Suc [symmetric])

lemma map_nth_subvec: "r \<le> length xs \<Longrightarrow> map ((!) xs) [l..<r] = subvec xs l r"
  by (rule nth_equalityI) (auto simp: subvec_def)

lemma leaf_bbox_eq:
  assumes "left < right" "right \<le> length vind"
  shows "leaf_bbox get ndim vind left right = bbox_of get ndim (set (subvec vind left right))"
proof -
  have "leaf_bbox get ndim vind left right =
      foldl (grow_bbox get ndim) (bbox_of get ndim {vind ! left}) (map ((!) vind) [Suc left..<right])"
    by (simp add: leaf_bbox_def foldl_map point_bbox_eq)
  then show ?thesis
    using assms by (simp add: foldl_grow_bbox map_nth_subvec subvec_Cons)
qed

lemma merge_bbox_eq:
  assumes "finite A" "A \<noteq> {}" "finite B" "B \<noteq> {}"
  shows "merge_bbox ndim (bbox_of get ndim A) (bbox_of get ndim B) = bbox_of get ndim (A \<union> B)"
  using assms by (simp add: merge_bbox_def bbox_of_def image_Un Min_Un Max_Un)

definition same_outside :: "'a list \<Rightarrow> 'a list \<Rightarrow> nat \<Rightarrow> nat \<Rightarrow> bool" where
  "same_outside xs ys l r \<longleftrightarrow>
     length ys = length xs \<and> take l ys = take l xs \<and> drop r ys = drop r xs"

lemma subvec_eq_drop_take: "subvec xs l r = drop l (take r xs)"
  by (simp add: subvec_def drop_take)

lemma same_outside_before:
  assumes "same_outside xs ys l r" "m \<le> l"
  shows "subvec ys k m = subvec xs k m"
proof -
  have "take m zs = take m (take l zs)" for zs :: "'a list" using assms(2) by (simp add: min_def)
  then have "take m ys = take m xs" using assms(1) by (metis same_outside_def)
  then show ?thesis by (simp add: subvec_eq_drop_take)
qed

lemma same_outside_after:
  assumes "same_outside xs ys l r" "r \<le> k"
  shows "subvec ys k m = subvec xs k m"
proof -
  have "drop k zs = drop (k - r) (drop r zs)" for zs :: "'a list" using assms(2) by simp
  then have "drop k ys = drop k xs" using assms(1) by (metis same_outside_def)
  then show ?thesis by (simp add: subvec_def)
qed

lemma same_outside_weaken:
  assumes "same_outside xs ys l r" "l' \<le> l" "r \<le> r'"
  shows "same_outside xs ys l' r'"
proof -
  have "take l' zs = take l' (take l zs)" "drop r' zs = drop (r' - r) (drop r zs)" for zs :: "'a list"
    using assms(2,3) by (simp_all add: min_def)
  then show ?thesis using assms(1) by (metis same_outside_def)
qed

lemma same_outside_trans:
  "same_outside xs ys l r \<Longrightarrow> same_outside ys zs l r \<Longrightarrow> same_outside xs zs l r"
  by (simp add: same_outside_def)

lemma subvec_split: "l \<le> m \<Longrightarrow> m \<le> r \<Longrightarrow> subvec xs l r = subvec xs l m @ subvec xs m r"
  using take_add [of "m - l" "r - m" "drop l xs"] by (simp add: subvec_def)

lemma length_subvec [simp]: "r \<le> length xs \<Longrightarrow> length (subvec xs l r) = r - l"
  by (simp add: subvec_def)

lemma subvec_nth: "i < r - l \<Longrightarrow> r \<le> length xs \<Longrightarrow> subvec xs l r ! i = xs ! (l + i)"
  by (simp add: subvec_def)

lemma subvec_ne: "l < r \<Longrightarrow> r \<le> length xs \<Longrightarrow> subvec xs l r \<noteq> []"
  by (metis length_greater_0_conv length_subvec zero_less_diff)

lemma subvec_replace:
  assumes "l \<le> r" "r \<le> length xs" "length ind = r - l"
  shows "subvec (take l xs @ ind @ drop r xs) l r = ind"
    and "same_outside xs (take l xs @ ind @ drop r xs) l r"
  using assms by (simp_all add: subvec_def same_outside_def)

lemma tree_ok_cong:
  assumes "subvec xs l r = subvec ys l r" "length xs = length ys"
  shows "tree_ok get ndim xs l r n = tree_ok get ndim ys l r n"
  using assms(1)
proof (induction n arbitrary: l r)
  case (Leaf a b)
  then show ?case using assms(2) by simp
next
  case (Nonleaf f lo hi c1 c2)
  have "subvec xs l mid = subvec ys l mid \<and> subvec xs mid r = subvec ys mid r" if "l < mid" "mid < r" for mid
  proof -
    have "subvec zs l mid = take (mid - l) (subvec zs l r)" "subvec zs mid r = drop (mid - l) (subvec zs l r)"
      for zs :: "nat list" using that by (simp_all add: subvec_def min_def drop_take)
    then show ?thesis using Nonleaf.prems by metis
  qed
  with Nonleaf.IH show ?case
    unfolding tree_ok.simps by (intro conj_cong ex_cong1 refl) auto
qed

lemma tree_ok_range: "tree_ok get ndim vind l r n \<Longrightarrow> l < r \<and> r \<le> length vind"
proof (induction n arbitrary: l r)
  case (Nonleaf f lo hi c1 c2)
  then obtain mid where "l < mid" "mid < r" "tree_ok get ndim vind mid r c2" by auto
  with Nonleaf.IH(2) [of mid r] show ?case by simp
qed simp

lemma divideTree_leaf:
  "right - left \<le> leaf_max \<Longrightarrow> divideTree get ndim leaf_max vind left right bbox =
     Some (Leaf left right, vind, leaf_bbox get ndim vind left right)"
  by (subst divideTree.simps) simp

lemma divideTree_node:
  assumes "leaf_max < right - left"
    "middleSplit get ndim (subvec vind left right) (right - left) bbox = (idx, cf, cv, ind)"
    "divideTree get ndim leaf_max (take left vind @ ind @ drop right vind) left (left + idx)
       (bbox[cf := (bbox ! cf)\<lparr>high := cv\<rparr>]) = Some (c1, vind1, lb)"
    "divideTree get ndim leaf_max vind1 (left + idx) right
       (bbox[cf := (bbox ! cf)\<lparr>low := cv\<rparr>]) = Some (c2, vind2, rb)"
  shows "divideTree get ndim leaf_max vind left right bbox =
     Some (Nonleaf cf (high (lb ! cf)) (low (rb ! cf)) c1 c2, vind2, merge_bbox ndim lb rb)"
  using assms by (subst divideTree.simps) (simp add: subvec_def)

lemma divideTree_spec:
  assumes "1 \<le> leaf_max" "0 < ndim" "left < right" "right \<le> length vind"
  shows "\<exists>n vind'. divideTree get ndim leaf_max vind left right bbox =
       Some (n, vind', bbox_of get ndim (set (subvec vind left right))) \<and>
     tree_ok get ndim vind' left right n \<and> same_outside vind vind' left right \<and>
     mset (subvec vind' left right) = mset (subvec vind left right)"
  using assms(3,4)
proof (induction "right - left" arbitrary: vind left right bbox rule: less_induct)
  case less
  show ?case
  proof (cases "right - left \<le> leaf_max")
    case True
    with less.prems show ?thesis
      by (simp add: divideTree_leaf leaf_bbox_eq same_outside_def)
  next
    case False
    let ?s = "subvec vind left right"
    obtain idx cf cv ind where ms: "middleSplit get ndim ?s (right - left) bbox = (idx, cf, cv, ind)"
      by (metis prod_cases4)
    have ls: "right - left = length ?s" using less.prems by simp
    have two: "2 \<le> right - left" using False assms(1) by simp
    note M = middleSplit_spec [OF ls two assms(2) ms]
    then have li: "length ind = right - left" using ls by (metis size_mset)
    let ?mid = "left + idx"
    have mid: "left < ?mid" "?mid < right" using M(2,3) by auto
    define v1 where "v1 = take left vind @ ind @ drop right vind"
    have V1: "subvec v1 left right = ind" "same_outside vind v1 left right" "length v1 = length vind"
      unfolding v1_def using subvec_replace [of left right vind ind] less.prems li by simp_all
    have s1: "subvec v1 left ?mid = take idx ind" "subvec v1 ?mid right = drop idx ind"
      using V1(1) mid less.prems by (auto simp: subvec_def drop_take add.commute)
    obtain c1 v2 where D1: "divideTree get ndim leaf_max v1 left ?mid (bbox[cf := (bbox ! cf)\<lparr>high := cv\<rparr>]) =
        Some (c1, v2, bbox_of get ndim (set (take idx ind)))"
      and T1: "tree_ok get ndim v2 left ?mid c1" and O1: "same_outside v1 v2 left ?mid"
      and P1: "mset (subvec v2 left ?mid) = mset (take idx ind)"
    proof -
      have "?mid - left < right - left" "?mid \<le> length v1" using mid less.prems V1(3) by simp_all
      from less.hyps [OF this(1) mid(1) this(2), of "bbox[cf := (bbox ! cf)\<lparr>high := cv\<rparr>]"]
      show thesis using that unfolding s1(1) by blast
    qed
    have l2: "length v2 = length vind" using O1 V1(3) by (simp add: same_outside_def)
    have s2: "subvec v2 ?mid right = drop idx ind" using same_outside_after [OF O1] s1(2) by simp
    obtain c2 v3 where D2: "divideTree get ndim leaf_max v2 ?mid right (bbox[cf := (bbox ! cf)\<lparr>low := cv\<rparr>]) =
        Some (c2, v3, bbox_of get ndim (set (drop idx ind)))"
      and T2: "tree_ok get ndim v3 ?mid right c2" and O2: "same_outside v2 v3 ?mid right"
      and P2: "mset (subvec v3 ?mid right) = mset (drop idx ind)"
    proof -
      have "right - ?mid < right - left" "right \<le> length v2" using mid less.prems l2 by simp_all
      from less.hyps [OF this(1) mid(2) this(2), of "bbox[cf := (bbox ! cf)\<lparr>low := cv\<rparr>]"]
      show thesis using that unfolding s2 by blast
    qed
    have s3: "subvec v3 left ?mid = subvec v2 left ?mid" using same_outside_before [OF O2] by simp
    have T1': "tree_ok get ndim v3 left ?mid c1"
      using T1 tree_ok_cong [OF s3] O2 by (simp add: same_outside_def)
    let ?A = "set (take idx ind)" and ?B = "set (drop idx ind)"
    have AB: "?A \<noteq> {}" "?B \<noteq> {}" "?A \<union> ?B = set ind"
      using M(2,3) li by (auto simp: set_append [symmetric] simp del: set_append)
    have A: "get p cf \<le> cv" if "p \<in> ?A" for p
      using that M(3,5) li by (auto simp: in_set_conv_nth)
    have B: "cv \<le> get p cf" if "p \<in> ?B" for p
      using that M(6) li by (auto simp: in_set_conv_nth)
    have eq: "divideTree get ndim leaf_max vind left right bbox =
        Some (Nonleaf cf (Max ((\<lambda>p. get p cf) ` ?A)) (Min ((\<lambda>p. get p cf) ` ?B)) c1 c2, v3,
              bbox_of get ndim (set ind))"
      using divideTree_node [OF _ ms D1 [unfolded v1_def] D2] False M(4)
        merge_bbox_eq [OF _ AB(1) _ AB(2)] AB(3) by simp
    have lohi: "Max ((\<lambda>p. get p cf) ` ?A) \<le> Min ((\<lambda>p. get p cf) ` ?B)"
    proof (rule order_trans)
      show "Max ((\<lambda>p. get p cf) ` ?A) \<le> cv" using A AB(1) by (intro Max.boundedI) auto
      show "cv \<le> Min ((\<lambda>p. get p cf) ` ?B)" using B AB(2) by (intro Min.boundedI) auto
    qed
    have set3: "set (subvec v3 left ?mid) = ?A" "set (subvec v3 ?mid right) = ?B"
      using P1 P2 s3 by (metis set_mset_mset)+
    have "tree_ok get ndim v3 left right
        (Nonleaf cf (Max ((\<lambda>p. get p cf) ` ?A)) (Min ((\<lambda>p. get p cf) ` ?B)) c1 c2)"
    proof (simp only: tree_ok.simps, intro conjI exI [of _ ?mid])
      show "\<forall>p \<in> set (subvec v3 left ?mid). get p cf \<le> Max ((\<lambda>p. get p cf) ` ?A)"
        "\<forall>p \<in> set (subvec v3 ?mid right). Min ((\<lambda>p. get p cf) ` ?B) \<le> get p cf"
        unfolding set3 by simp_all
    qed (rule M(4) lohi mid T1' T2)+
    moreover have "same_outside vind v3 left right"
      using V1(2) O1 O2 mid by (meson same_outside_trans same_outside_weaken less_imp_le order_refl)
    moreover have "mset (subvec v3 left right) = mset ?s"
    proof -
      have "mset (subvec v3 left right) = mset (take idx ind) + mset (drop idx ind)"
        using subvec_split [of left ?mid right v3] mid P1 P2 s3 by simp
      then show ?thesis using M(1) by (metis append_take_drop_id mset_append)
    qed
    moreover have "set ind = set ?s" using M(1) by (metis set_mset_mset)
    ultimately show ?thesis using eq by auto
  qed
qed

subsection \<open>Properties\<close>

text \<open>
  \<open>planeSplit\<close> permutes the slice in place and returns the two limits of its documented
  contract: below the first limit the values are smaller than the cut value, between the limits
  equal to it, from the second on larger.
\<close>

theorem planeSplit_partitions:
  assumes "0 < length ind"
  shows "case planeSplit get ind (length ind) cutfeat cutval of (lim1, lim2, ind') \<Rightarrow>
     mset ind' = mset ind \<and> lim1 \<le> lim2 \<and> lim2 \<le> length ind \<and>
     (\<forall>p \<in> set (take lim1 ind'). get p cutfeat < cutval) \<and>
     (\<forall>p \<in> set (drop lim1 (take lim2 ind')). get p cutfeat = cutval) \<and>
     (\<forall>p \<in> set (drop lim2 ind'). cutval < get p cutfeat)"
proof -
  obtain lim1 lim2 ind' where ps: "planeSplit get ind (length ind) cutfeat cutval = (lim1, lim2, ind')"
    by (cases "planeSplit get ind (length ind) cutfeat cutval") auto
  note spec = planeSplit_spec [OF refl assms ps]
  have len: "length ind' = length ind" using spec(1) by (metis size_mset)
  show ?thesis
    using spec len by (fastforce simp: ps in_set_conv_nth)
qed

theorem planeSplit_partitions_witness:
  "case planeSplit (\<lambda>p d. real p) [7, 3, 5, 1, 5, 9] 6 0 5 of (lim1, lim2, ind') \<Rightarrow>
     mset ind' = mset [7, 3, 5, 1, 5, 9] \<and> lim1 \<le> lim2"
  using planeSplit_partitions [of "[7, 3, 5, 1, 5, 9]" "\<lambda>p d. real p" 0 5] by (auto simp: numeral_eq_Suc)

text \<open>
  \<open>middleSplit_\<close> always splits properly: whatever the bounding box, both parts are
  non-empty, the cut dimension exists, and the cut value separates the parts.
\<close>

theorem middleSplit_proper:
  assumes "2 \<le> length ind" "0 < ndim"
  shows "case middleSplit get ndim ind (length ind) bbox of (index, cutfeat, cutval, ind') \<Rightarrow>
     mset ind' = mset ind \<and> 0 < index \<and> index < length ind \<and> cutfeat < ndim \<and>
     (\<forall>p \<in> set (take index ind'). get p cutfeat \<le> cutval) \<and>
     (\<forall>p \<in> set (drop index ind'). cutval \<le> get p cutfeat)"
proof -
  obtain index cutfeat cutval ind' where
    ms: "middleSplit get ndim ind (length ind) bbox = (index, cutfeat, cutval, ind')"
    by (cases "middleSplit get ndim ind (length ind) bbox") auto
  note spec = middleSplit_spec [OF refl assms ms]
  have len: "length ind' = length ind" using spec(1) by (metis size_mset)
  show ?thesis
    using spec len by (fastforce simp: ms in_set_conv_nth)
qed

theorem middleSplit_proper_witness:
  "case middleSplit (\<lambda>p d. real p) 3 [7, 3, 5] 3 [] of (index, cutfeat, cutval, ind') \<Rightarrow>
     mset ind' = mset [7, 3, 5] \<and> 0 < index \<and> index < 3"
  using middleSplit_proper [of "[7, 3, 5]" 3 "\<lambda>p d. real p" "[]"] by (auto simp: numeral_eq_Suc)

text \<open>
  C15: \<open>divideTree\<close> terminates on every non-empty slice, for any points (duplicates included)
  and any incoming bounding box; it permutes the slice only, and returns the tight box.
\<close>

theorem divideTree_terminates:
  assumes "1 \<le> leaf_max" "0 < ndim" "left < right" "right \<le> length vi"
  shows "\<exists>n vi'. divideTree get ndim leaf_max vi left right bbox =
       Some (n, vi', bbox_of get ndim (set (subvec vi left right))) \<and>
     tree_ok get ndim vi' left right n \<and> mset (subvec vi' left right) = mset (subvec vi left right) \<and>
     take left vi' = take left vi \<and> drop right vi' = drop right vi"
  using divideTree_spec [OF assms, of get bbox] unfolding same_outside_def by blast

theorem divideTree_terminates_witness:
  "\<exists>n vi'. divideTree (\<lambda>p d. 1) 3 10 [0..<40] 0 40 [] =
       Some (n, vi', bbox_of (\<lambda>p d. 1) 3 (set (subvec [0..<40] 0 40)))"
  using divideTree_terminates [of 10 3 0 40 "[0..<40]" "\<lambda>p d. 1" "[]"] by fastforce

end
