(* ===== verification/NF_ResultSet.thy ===== *)
theory NF_ResultSet
  imports MN_Prelude
begin

text \<open>
  The result sets of \<open>libs/nanoflann.hpp\<close>: \<open>KNNResultSet\<close>, the bounded sorted list of the
  nearest points found so far, kept in two caller-supplied arrays, and \<open>RadiusResultSet\<close>,
  the unbounded list of the points within a radius.

  \<open>searchLevel\<close> is a template over the result set; what it needs of one is the locale
  \<open>result_set\<close>: \<open>holds M rs\<close> says that \<open>rs\<close> is the right answer for the multiset \<open>M\<close> of
  (distance, index) pairs seen so far, and the laws say that adding a point or skipping one
  that is no better than \<open>worstDist\<close> keeps this. Both result sets are interpretations.

  Indices are \<open>size_t\<close>, modelled by \<open>nat\<close>: they count elements of an array in memory.
\<close>

subsection \<open>KNNResultSet\<close>

record 'd knn_set =
  indices :: "nat list"
  dists :: "'d list"
  capacity :: nat
  knn_count :: nat

text \<open>The constructor, and \<open>init\<close>, which is handed the two arrays.\<close>

definition KNNResultSet :: "nat \<Rightarrow> 'd knn_set" where
  "KNNResultSet cap = \<lparr>indices = [], dists = [], capacity = cap, knn_count = 0\<rparr>"

definition knn_init :: "'d \<Rightarrow> nat list \<Rightarrow> 'd list \<Rightarrow> 'd knn_set \<Rightarrow> 'd knn_set" where
  "knn_init max_value inds ds rs =
     (let rs = rs\<lparr>indices := inds, dists := ds, knn_count := 0\<rparr>
      in if capacity rs \<noteq> 0 then rs\<lparr>dists := (dists rs)[capacity rs - 1 := max_value]\<rparr> else rs)"

definition knn_size :: "'d knn_set \<Rightarrow> nat" where
  "knn_size rs = knn_count rs"

definition knn_full :: "'d knn_set \<Rightarrow> bool" where
  "knn_full rs = (knn_count rs = capacity rs)"

text \<open>
  \<open>worstDist\<close> reads the last array cell. With capacity 0 the code would read before the array;
  its only caller here, \<open>Geo::getNearestNodes\<close>, is already undefined in that case.
\<close>

definition knn_worstDist :: "'d knn_set \<Rightarrow> 'd" where
  "knn_worstDist rs = dists rs ! (capacity rs - 1)"

text \<open>
  \<open>addPoint\<close>: the loop runs from \<open>count\<close> down, shifting the entries that are farther by one
  cell (dropping the one that would leave the array), and stops at the first that is not.
\<close>

fun knn_shift :: "'d::linorder \<Rightarrow> nat \<Rightarrow> 'd knn_set \<Rightarrow> nat \<times> 'd knn_set" where
  "knn_shift d 0 rs = (0, rs)"
| "knn_shift d (Suc j) rs =
     (if dists rs ! j > d
      then knn_shift d j
             (if Suc j < capacity rs
              then rs\<lparr>dists := (dists rs)[Suc j := dists rs ! j],
                      indices := (indices rs)[Suc j := indices rs ! j]\<rparr>
              else rs)
      else (Suc j, rs))"

definition knn_addPoint :: "'d::linorder \<Rightarrow> nat \<Rightarrow> 'd knn_set \<Rightarrow> bool \<times> 'd knn_set" where
  "knn_addPoint d index rs =
     (let (i, rs) = knn_shift d (knn_count rs) rs;
          rs = (if i < capacity rs
                then rs\<lparr>dists := (dists rs)[i := d], indices := (indices rs)[i := index]\<rparr>
                else rs);
          rs = (if knn_count rs < capacity rs then rs\<lparr>knn_count := knn_count rs + 1\<rparr> else rs)
      in (True, rs))"

subsection \<open>What a KNNResultSet stands for\<close>

definition knn_entries :: "'d knn_set \<Rightarrow> ('d \<times> nat) list" where
  "knn_entries rs = take (knn_count rs) (zip (dists rs) (indices rs))"

definition knn_wf :: "'d::linorder \<Rightarrow> 'd knn_set \<Rightarrow> bool" where
  "knn_wf max_value rs \<longleftrightarrow>
     0 < capacity rs \<and> knn_count rs \<le> capacity rs \<and>
     length (dists rs) = capacity rs \<and> length (indices rs) = capacity rs \<and>
     sorted (map fst (knn_entries rs)) \<and>
     (knn_count rs < capacity rs \<longrightarrow> dists rs ! (capacity rs - 1) = max_value)"

text \<open>
  The caller's arrays start zeroed, and cells behind the last entry are never written: the
  second clause is what a caller reads there.
\<close>

definition knn_untouched :: "'d knn_set \<Rightarrow> bool" where
  "knn_untouched rs \<longleftrightarrow> (\<forall>j. knn_count rs \<le> j \<and> j < capacity rs \<longrightarrow> indices rs ! j = 0)"

text \<open>The reference for \<open>addPoint\<close>: insert behind all entries that are not farther.\<close>

definition insert_sorted :: "'d::linorder \<times> 'a \<Rightarrow> ('d \<times> 'a) list \<Rightarrow> ('d \<times> 'a) list" where
  "insert_sorted e es =
     takeWhile (\<lambda>x. fst x \<le> fst e) es @ e # dropWhile (\<lambda>x. fst x \<le> fst e) es"

lemma mset_insert_sorted [simp]: "mset (insert_sorted e es) = add_mset e (mset es)"
proof -
  have "mset (takeWhile P es) + mset (dropWhile P es) = mset es" for P
    by (metis mset_append takeWhile_dropWhile_id)
  then show ?thesis by (simp add: insert_sorted_def)
qed

lemma length_insert_sorted [simp]: "length (insert_sorted e es) = Suc (length es)"
  by (metis mset_insert_sorted size_add_mset size_mset)

lemma insert_sorted_Cons:
  "insert_sorted e (x # xs) = (if fst x \<le> fst e then x # insert_sorted e xs else e # x # xs)"
  by (simp add: insert_sorted_def)

lemma set_insert_sorted [simp]: "set (insert_sorted e es) = insert e (set es)"
  by (metis mset_insert_sorted set_mset_add_mset_insert set_mset_mset)

lemma sorted_insert_sorted:
  "sorted (map fst es) \<Longrightarrow> sorted (map fst (insert_sorted e es))"
proof (induction es)
  case Nil
  show ?case by (simp add: insert_sorted_def)
next
  case (Cons x xs)
  then show ?case by (fastforce simp: insert_sorted_Cons)
qed

lemma insert_sorted_nth_le:
  "sorted (map fst es) \<Longrightarrow> j < length es \<Longrightarrow> fst (insert_sorted e es ! j) \<le> fst (es ! j)"
proof (induction es arbitrary: j)
  case (Cons x xs)
  show ?case
  proof (cases "fst x \<le> fst e")
    case True
    with Cons show ?thesis by (cases j) (auto simp: insert_sorted_Cons)
  next
    case False
    have "sorted (map fst (x # xs))" by (rule Cons.prems(1))
    then have "map fst (x # xs) ! (j - 1) \<le> map fst (x # xs) ! j"
      using Cons.prems(2) by (intro sorted_nth_mono) auto
    then have "fst ((x # xs) ! (j - 1)) \<le> fst ((x # xs) ! j)"
      using Cons.prems(2) by (simp del: list.map)
    with False show ?thesis by (cases j) (auto simp: insert_sorted_Cons)
  qed
qed simp

lemma sorted_last_ge:
  "sorted (map fst es) \<Longrightarrow> e \<in> set es \<Longrightarrow> fst e \<le> fst (last es)"
  by (induction es) (auto split: if_splits)

lemma sorted_dropWhile_le:
  assumes "sorted (map fst es)" "k \<le> length es"
    and "\<And>j. k \<le> j \<Longrightarrow> j < length es \<Longrightarrow> d < fst (es ! j)"
    and "k = 0 \<or> fst (es ! (k - 1)) \<le> d"
  shows "takeWhile (\<lambda>x. fst x \<le> d) es = take k es \<and> dropWhile (\<lambda>x. fst x \<le> d) es = drop k es"
proof -
  have low: "fst (es ! j) \<le> d" if "j < k" for j
  proof -
    from that assms(2) have "map fst es ! j \<le> map fst es ! (k - 1)"
      by (intro sorted_nth_mono [OF assms(1)]) auto
    with that assms(2,4) show ?thesis by simp
  qed
  have t: "takeWhile (\<lambda>x. fst x \<le> d) es = take k es"
  proof (rule takeWhile_eq_take_P_nth)
    show "fst (es ! i) \<le> d" if "i < k" "i < length es" for i using low that by simp
    show "\<not> fst (es ! k) \<le> d" if "k < length es" using assms(3) [of k] that by simp
  qed
  with assms(2) show ?thesis by (simp add: dropWhile_eq_drop)
qed

lemma knn_shift_spec:
  assumes "i \<le> length (dists rs)" "length (dists rs) = capacity rs"
    "length (indices rs) = capacity rs" "knn_shift d i rs = (k, rs')"
  shows "k \<le> i \<and> (\<forall>j. k \<le> j \<and> j < i \<longrightarrow> d < dists rs ! j) \<and>
     (k = 0 \<or> dists rs ! (k - 1) \<le> d) \<and>
     capacity rs' = capacity rs \<and> knn_count rs' = knn_count rs \<and>
     length (dists rs') = capacity rs \<and> length (indices rs') = capacity rs \<and>
     (\<forall>j < capacity rs. dists rs' ! j = (if k < j \<and> j \<le> i then dists rs ! (j - 1) else dists rs ! j)) \<and>
     (\<forall>j < capacity rs. indices rs' ! j = (if k < j \<and> j \<le> i then indices rs ! (j - 1) else indices rs ! j))"
  using assms
proof (induction d i rs rule: knn_shift.induct)
  case (1 d rs)
  then show ?case by auto
next
  case (2 d m rs)
  define rs1 where "rs1 = (if Suc m < capacity rs
      then rs\<lparr>dists := (dists rs)[Suc m := dists rs ! m],
              indices := (indices rs)[Suc m := indices rs ! m]\<rparr> else rs)"
  have rs1: "capacity rs1 = capacity rs" "knn_count rs1 = knn_count rs"
    "length (dists rs1) = capacity rs" "length (indices rs1) = capacity rs"
    using "2.prems" by (simp_all add: rs1_def)
  have rs1_nth: "dists rs1 ! j = (if j = Suc m \<and> j < capacity rs then dists rs ! m else dists rs ! j)"
    "indices rs1 ! j = (if j = Suc m \<and> j < capacity rs then indices rs ! m else indices rs ! j)" for j
    using "2.prems" by (auto simp: rs1_def nth_list_update)
  show ?case
  proof (cases "dists rs ! m > d")
    case False
    with "2.prems" show ?thesis by (auto simp: not_less)
  next
    case True
    with "2.prems"(4) have eq: "knn_shift d m rs1 = (k, rs')" by (simp add: rs1_def)
    have "m \<le> length (dists rs1)" using "2.prems"(1,2) rs1 by simp
    with "2.IH" [OF True] rs1 eq
    have IH: "k \<le> m" "\<forall>j. k \<le> j \<and> j < m \<longrightarrow> d < dists rs1 ! j"
      "k = 0 \<or> dists rs1 ! (k - 1) \<le> d"
      "capacity rs' = capacity rs1" "knn_count rs' = knn_count rs1"
      "length (dists rs') = capacity rs1" "length (indices rs') = capacity rs1"
      "\<And>j. j < capacity rs \<Longrightarrow> dists rs' ! j = (if k < j \<and> j \<le> m then dists rs1 ! (j - 1) else dists rs1 ! j)"
      "\<And>j. j < capacity rs \<Longrightarrow> indices rs' ! j = (if k < j \<and> j \<le> m then indices rs1 ! (j - 1) else indices rs1 ! j)"
      unfolding rs1_def [symmetric] by simp_all
    have "d < dists rs ! j" if "k \<le> j" "j < Suc m" for j
      using IH(2) True that rs1_nth(1) [of j] by (cases "j = m") auto
    moreover have "k = 0 \<or> dists rs ! (k - 1) \<le> d"
    proof (cases "k = 0")
      case False
      with IH(1) have "k - 1 \<noteq> Suc m" by simp
      with IH(3) rs1_nth(1) [of "k - 1"] False show ?thesis by simp
    qed simp
    moreover have "dists rs' ! j = (if k < j \<and> j \<le> Suc m then dists rs ! (j - 1) else dists rs ! j)"
      if "j < capacity rs" for j
      using IH(1) IH(8) [OF that] rs1_nth(1) [of j] rs1_nth(1) [of "j - 1"] that by auto
    moreover have "indices rs' ! j = (if k < j \<and> j \<le> Suc m then indices rs ! (j - 1) else indices rs ! j)"
      if "j < capacity rs" for j
      using IH(1) IH(9) [OF that] rs1_nth(2) [of j] rs1_nth(2) [of "j - 1"] that by auto
    ultimately show ?thesis using IH(1,4,5,6,7) rs1 by simp
  qed
qed

lemma length_knn_entries:
  "knn_wf mx rs \<Longrightarrow> length (knn_entries rs) = knn_count rs"
  by (simp add: knn_wf_def knn_entries_def)

lemma knn_entries_nth:
  assumes "knn_count rs \<le> capacity rs" "length (dists rs) = capacity rs"
    "length (indices rs) = capacity rs" "j < knn_count rs"
  shows "knn_entries rs ! j = (dists rs ! j, indices rs ! j)"
  using assms by (simp add: knn_entries_def)

text \<open>\<open>addPoint\<close> refines insertion into a sorted list cut off at the capacity.\<close>

lemma knn_addPoint_entries:
  assumes wf: "knn_wf mx rs"
  shows "knn_entries (snd (knn_addPoint d i rs))
       = take (capacity rs) (insert_sorted (d, i) (knn_entries rs))"
    and "knn_count (snd (knn_addPoint d i rs)) = min (capacity rs) (Suc (knn_count rs))"
    and "capacity (snd (knn_addPoint d i rs)) = capacity rs"
    and "length (dists (snd (knn_addPoint d i rs))) = capacity rs"
    and "length (indices (snd (knn_addPoint d i rs))) = capacity rs"
    and "Suc (knn_count rs) < capacity rs \<Longrightarrow>
         dists (snd (knn_addPoint d i rs)) ! (capacity rs - 1) = mx"
    and "fst (knn_addPoint d i rs)"
    and "knn_untouched rs \<Longrightarrow> knn_untouched (snd (knn_addPoint d i rs))"
proof -
  obtain k rs1 where sh: "knn_shift d (knn_count rs) rs = (k, rs1)" by fastforce
  from wf have cap: "0 < capacity rs" "knn_count rs \<le> capacity rs"
    "length (dists rs) = capacity rs" "length (indices rs) = capacity rs"
    by (simp_all add: knn_wf_def)
  with sh have K: "k \<le> knn_count rs" "\<And>j. k \<le> j \<Longrightarrow> j < knn_count rs \<Longrightarrow> d < dists rs ! j"
    "k = 0 \<or> dists rs ! (k - 1) \<le> d"
    "capacity rs1 = capacity rs" "knn_count rs1 = knn_count rs"
    "length (dists rs1) = capacity rs" "length (indices rs1) = capacity rs"
    "\<And>j. j < capacity rs \<Longrightarrow> dists rs1 ! j = (if k < j \<and> j \<le> knn_count rs then dists rs ! (j - 1) else dists rs ! j)"
    "\<And>j. j < capacity rs \<Longrightarrow> indices rs1 ! j = (if k < j \<and> j \<le> knn_count rs then indices rs ! (j - 1) else indices rs ! j)"
    using knn_shift_spec [of "knn_count rs" rs d k rs1] by simp_all
  define rs2 where "rs2 = snd (knn_addPoint d i rs)"
  have c2: "knn_count rs2 = min (capacity rs) (Suc (knn_count rs))" "capacity rs2 = capacity rs"
    "length (dists rs2) = capacity rs" "length (indices rs2) = capacity rs"
    using sh K cap by (auto simp: rs2_def knn_addPoint_def Let_def min_def)
  have n2: "dists rs2 ! j = (if j = k then d else dists rs1 ! j)"
    "indices rs2 ! j = (if j = k then i else indices rs1 ! j)" if "j < capacity rs" for j
    using sh K cap that by (auto simp: rs2_def knn_addPoint_def Let_def)
  note en = knn_entries_nth [OF cap(2-4)]
  have len: "length (knn_entries rs) = knn_count rs" using wf by (rule length_knn_entries)
  have "sorted (map fst (knn_entries rs))" using wf by (simp add: knn_wf_def)
  then have split: "takeWhile (\<lambda>x. fst x \<le> d) (knn_entries rs) = take k (knn_entries rs)"
    "dropWhile (\<lambda>x. fst x \<le> d) (knn_entries rs) = drop k (knn_entries rs)"
    using sorted_dropWhile_le [of "knn_entries rs" k d] K(1-3) len en [of "k - 1"] en by (cases "k = 0"; simp)+
  have ins: "insert_sorted (d, i) (knn_entries rs) = take k (knn_entries rs) @ (d, i) # drop k (knn_entries rs)"
    by (simp add: insert_sorted_def split)
  have "knn_entries rs2 = take (capacity rs) (insert_sorted (d, i) (knn_entries rs))"
  proof (rule nth_equalityI)
    show "length (knn_entries rs2) = length (take (capacity rs) (insert_sorted (d, i) (knn_entries rs)))"
      using c2 len by (simp add: knn_entries_def)
    fix j assume "j < length (knn_entries rs2)"
    then have j: "j < knn_count rs2" "j < capacity rs" "j \<le> knn_count rs"
      using c2 by (auto simp: knn_entries_def)
    have "knn_entries rs2 ! j = (dists rs2 ! j, indices rs2 ! j)"
      using c2 j by (intro knn_entries_nth) auto
    also have "\<dots> = (take k (knn_entries rs) @ (d, i) # drop k (knn_entries rs)) ! j"
      using j K(1) len n2 [OF j(2)] K(8) [OF j(2)] K(9) [OF j(2)] en
      by (auto simp: nth_append nth_Cons' min_def)
    finally show "knn_entries rs2 ! j = take (capacity rs) (insert_sorted (d, i) (knn_entries rs)) ! j"
      using j by (simp only: ins nth_take)
  qed
  then show "knn_entries (snd (knn_addPoint d i rs)) = take (capacity rs) (insert_sorted (d, i) (knn_entries rs))"
    by (simp add: rs2_def)
  show "dists (snd (knn_addPoint d i rs)) ! (capacity rs - 1) = mx" if "Suc (knn_count rs) < capacity rs"
    using wf that n2 [of "capacity rs - 1"] K(1) K(8) [of "capacity rs - 1"] cap
    by (auto simp: knn_wf_def rs2_def)
  show "knn_count (snd (knn_addPoint d i rs)) = min (capacity rs) (Suc (knn_count rs))"
    "capacity (snd (knn_addPoint d i rs)) = capacity rs"
    "length (dists (snd (knn_addPoint d i rs))) = capacity rs"
    "length (indices (snd (knn_addPoint d i rs))) = capacity rs"
    using c2 by (simp_all add: rs2_def)
  show "fst (knn_addPoint d i rs)"
    by (simp add: knn_addPoint_def Let_def split: prod.splits)
  show "knn_untouched (snd (knn_addPoint d i rs))" if "knn_untouched rs"
    unfolding rs2_def [symmetric] knn_untouched_def
  proof (intro allI impI)
    fix j assume "knn_count rs2 \<le> j \<and> j < capacity rs2"
    then have j: "knn_count rs < j" "j < capacity rs" using c2 by auto
    then have "indices rs2 ! j = indices rs ! j" using n2(2) [OF j(2)] K(1) K(9) [OF j(2)] by simp
    then show "indices rs2 ! j = 0" using that j by (simp add: knn_untouched_def)
  qed
qed

text \<open>
  \<open>insert_sorted\<close> followed by the cut keeps the nearest entries: \<open>nearest n M es\<close> says that
  \<open>es\<close> is sorted, consists of members of \<open>M\<close>, has as many as the capacity \<open>n\<close> allows,
  and leaves out nothing nearer than what it holds.
\<close>

definition nearest :: "nat \<Rightarrow> ('d::linorder \<times> 'a) multiset \<Rightarrow> ('d \<times> 'a) list \<Rightarrow> bool" where
  "nearest n M es \<longleftrightarrow>
     sorted (map fst es) \<and> length es = min n (size M) \<and>
     (\<exists>rest. M = mset es + rest \<and> (\<forall>e \<in> set es. \<forall>r \<in># rest. fst e \<le> fst r))"

lemma nearest_empty [simp]: "nearest n {#} es \<longleftrightarrow> es = []"
  by (auto simp: nearest_def)

lemma nearest_insert:
  assumes "nearest n M es"
  shows "nearest n (add_mset e M) (take n (insert_sorted e es))"
proof -
  let ?xs = "insert_sorted e es"
  from assms obtain rest where s: "sorted (map fst es)" and l: "length es = min n (size M)"
    and M: "M = mset es + rest" and r: "\<forall>x \<in> set es. \<forall>y \<in># rest. fst x \<le> fst y"
    unfolding nearest_def by blast
  have sx: "sorted (map fst ?xs)" using s by (rule sorted_insert_sorted)
  have td: "mset ?xs = mset (take n ?xs) + mset (drop n ?xs)"
    by (metis append_take_drop_id mset_append)
  have M': "add_mset e M = mset (take n ?xs) + (mset (drop n ?xs) + rest)"
    using M td by (simp add: add.assoc [symmetric])
  have cross: "fst x \<le> fst y" if "x \<in> set (take n ?xs)" "y \<in> set (drop n ?xs)" for x y
  proof -
    have "sorted (map fst (take n ?xs) @ map fst (drop n ?xs))"
      using sx by (metis append_take_drop_id map_append)
    with that show ?thesis by (force simp: sorted_append)
  qed
  have rest: "fst x \<le> fst y" if x: "x \<in> set (take n ?xs)" and y: "y \<in># rest" for x y
  proof (cases "x \<in> set es")
    case True
    with r y show ?thesis by blast
  next
    case False
    with x have xe: "x = e" by (auto dest: in_set_takeD)
    show ?thesis
    proof (cases "length es < n")
      case True
      with l M y have "rest = {#}" by (auto simp: min_def split: if_splits)
      with y show ?thesis by simp
    next
      case False
      with l have len: "length es = n" by simp
      let ?tw = "takeWhile (\<lambda>x. fst x \<le> fst e) es" and ?dw = "dropWhile (\<lambda>x. fst x \<le> fst e) es"
      have "?dw \<noteq> []"
      proof
        assume dw: "?dw = []"
        then have tw: "?tw = es" by (metis append_Nil2 takeWhile_dropWhile_id)
        have "?xs = es @ [e]" unfolding insert_sorted_def by (simp only: tw dw)
        with len have "take n ?xs = es" by simp
        with x \<open>x \<notin> set es\<close> show False by simp
      qed
      then have w: "last ?dw \<in> set es" "last ?xs = last ?dw"
        by (meson last_in_set set_dropWhileD, simp add: insert_sorted_def del: dropWhile_eq_Nil_conv)
      have "drop n ?xs \<noteq> []" using len by simp
      then have "last ?xs \<in> set (drop n ?xs)" by (metis last_drop last_in_set drop_eq_Nil not_le)
      with cross x w have "fst x \<le> fst (last ?dw)" by metis
      moreover note w(1)
      ultimately show ?thesis using r y by (meson order_trans)
    qed
  qed
  have "length (take n ?xs) = min n (size (add_mset e M))" using l by auto
  moreover have "sorted (map fst (take n ?xs))"
    using sx by (simp add: take_map [symmetric] sorted_wrt_take)
  ultimately show ?thesis
    unfolding nearest_def using M' cross rest by fastforce
qed

lemma nearest_skip:
  assumes "nearest n M es" "length es = n" "\<And>e. e \<in> set es \<Longrightarrow> fst e \<le> fst x"
  shows "nearest n (add_mset x M) es"
proof -
  from assms(1) obtain rest where s: "sorted (map fst es)" and l: "length es = min n (size M)"
    and M: "M = mset es + rest" and r: "\<forall>e \<in> set es. \<forall>y \<in># rest. fst e \<le> fst y"
    unfolding nearest_def by blast
  have "add_mset x M = mset es + add_mset x rest" using M by simp
  moreover have "\<forall>e \<in> set es. \<forall>y \<in># add_mset x rest. fst e \<le> fst y" using r assms(3) by auto
  moreover have "length es = min n (size (add_mset x M))" using l assms(2) by simp
  ultimately show ?thesis using s unfolding nearest_def by blast
qed

subsection \<open>RadiusResultSet\<close>

record 'd radius_set =
  radius :: 'd
  m_indices_dists :: "(nat \<times> 'd) list"

text \<open>The constructor calls \<open>init\<close>, which clears the vector.\<close>

definition RadiusResultSet :: "'d \<Rightarrow> (nat \<times> 'd) list \<Rightarrow> 'd radius_set" where
  "RadiusResultSet r indices_dists = \<lparr>radius = r, m_indices_dists = []\<rparr>"

definition radius_size :: "'d radius_set \<Rightarrow> nat" where
  "radius_size rs = length (m_indices_dists rs)"

definition radius_full :: "'d radius_set \<Rightarrow> bool" where
  "radius_full rs = True"

definition radius_addPoint :: "'d::linorder \<Rightarrow> nat \<Rightarrow> 'd radius_set \<Rightarrow> bool \<times> 'd radius_set" where
  "radius_addPoint d index rs =
     (True, if d < radius rs
            then rs\<lparr>m_indices_dists := m_indices_dists rs @ [(index, d)]\<rparr> else rs)"

definition radius_worstDist :: "'d radius_set \<Rightarrow> 'd" where
  "radius_worstDist rs = radius rs"

text \<open>
  \<open>worst_item\<close>: \<open>std::max_element\<close> returns the first of the largest elements; on an empty
  list the code throws.
\<close>

fun max_element :: "(nat \<times> 'd::linorder) \<Rightarrow> (nat \<times> 'd) list \<Rightarrow> nat \<times> 'd" where
  "max_element m [] = m"
| "max_element m (x # xs) = max_element (if snd m < snd x then x else m) xs"

definition worst_item :: "'d::linorder radius_set \<Rightarrow> (nat \<times> 'd) result" where
  "worst_item rs = (case m_indices_dists rs of
       [] \<Rightarrow> Inl (Throws (Runtime_error ''Cannot invoke RadiusResultSet::worst_item() on an empty list of results.''))
     | x # xs \<Rightarrow> Inr (max_element x xs))"

lemma max_element_in: "max_element m xs \<in> insert m (set xs)"
  by (induction xs arbitrary: m) (auto split: if_splits)

lemma max_element_max: "y \<in> insert m (set xs) \<Longrightarrow> snd y \<le> snd (max_element m xs)"
proof (induction xs arbitrary: m y)
  case (Cons x xs)
  let ?m = "if snd m < snd x then x else m"
  have "snd ?m \<le> snd (max_element ?m xs)" by (rule Cons.IH) simp
  with Cons.prems Cons.IH [of y ?m] show ?case by (auto split: if_splits)
qed simp

subsection \<open>The interface\<close>

text \<open>
  \<open>limit\<close> bounds the distances the search may offer: a \<open>KNNResultSet\<close> starts with the largest
  \<open>double\<close> as its worst distance, and is a nearest-neighbour list only for distances below it.
\<close>

locale result_set =
  fixes worstDist :: "'rs \<Rightarrow> real"
    and addPoint :: "real \<Rightarrow> nat \<Rightarrow> 'rs \<Rightarrow> bool \<times> 'rs"
    and holds :: "(real \<times> nat) multiset \<Rightarrow> 'rs \<Rightarrow> bool"
    and limit :: "real \<Rightarrow> bool"
  assumes add_continues: "holds M rs \<Longrightarrow> limit d \<Longrightarrow> fst (addPoint d i rs)"
    and add_holds: "holds M rs \<Longrightarrow> limit d \<Longrightarrow> holds (add_mset (d, i) M) (snd (addPoint d i rs))"
    and add_worst: "holds M rs \<Longrightarrow> limit d \<Longrightarrow> worstDist (snd (addPoint d i rs)) \<le> worstDist rs"
    and skip_holds: "holds M rs \<Longrightarrow> limit d \<Longrightarrow> worstDist rs \<le> d \<Longrightarrow> holds (add_mset (d, i) M) rs"
begin

lemma skip_many:
  assumes "holds M rs" "\<And>x. x \<in># N \<Longrightarrow> limit (fst x) \<and> worstDist rs \<le> fst x"
  shows "holds (M + N) rs"
  using assms(2)
proof (induction N)
  case empty
  with assms(1) show ?case by simp
next
  case (add x N)
  then have "holds (M + N) rs" by auto
  with add.prems [of x] have "holds (add_mset (fst x, snd x) (M + N)) rs"
    by (intro skip_holds) auto
  then show ?case by simp
qed

end

definition knn_holds :: "real \<Rightarrow> nat \<Rightarrow> (real \<times> nat) multiset \<Rightarrow> real knn_set \<Rightarrow> bool" where
  "knn_holds mx cap M rs \<longleftrightarrow>
     capacity rs = cap \<and> knn_wf mx rs \<and> knn_untouched rs \<and> nearest (capacity rs) M (knn_entries rs) \<and>
     (\<forall>x \<in># M. fst x < mx)"

lemma knn_worst_last:
  assumes "knn_wf mx rs" "knn_count rs = capacity rs"
  shows "knn_worstDist rs = fst (last (knn_entries rs))"
proof -
  from assms have c: "0 < capacity rs" "length (dists rs) = capacity rs"
    "length (indices rs) = capacity rs" and e: "knn_entries rs = zip (dists rs) (indices rs)"
    by (auto simp: knn_wf_def knn_entries_def)
  then have "zip (dists rs) (indices rs) \<noteq> []" by auto
  then show ?thesis using c by (simp add: knn_worstDist_def e last_conv_nth)
qed

lemma knn_worst_bound:
  assumes "knn_holds mx cap M rs"
  shows "knn_worstDist rs \<le> mx"
proof (cases "knn_count rs = capacity rs")
  case True
  from assms have wf: "knn_wf mx rs" and M: "\<forall>x \<in># M. fst x < mx"
    and n: "set (knn_entries rs) \<subseteq> set_mset M"
    by (auto simp: knn_holds_def nearest_def)
  from wf True have "knn_entries rs \<noteq> []"
    using length_knn_entries [OF wf] by (auto simp: knn_wf_def)
  with n M have "fst (last (knn_entries rs)) < mx" using last_in_set by blast
  with knn_worst_last [OF wf True] show ?thesis by simp
next
  case False
  with assms show ?thesis by (auto simp: knn_holds_def knn_wf_def knn_worstDist_def)
qed

lemma knn_add_wf:
  assumes "knn_wf mx rs"
  shows "knn_wf mx (snd (knn_addPoint d i rs))"
proof -
  note A = knn_addPoint_entries [OF assms, of d i]
  have "sorted (map fst (knn_entries rs))" using assms by (simp add: knn_wf_def)
  then have "sorted (map fst (take (capacity rs) (insert_sorted (d, i) (knn_entries rs))))"
    by (simp add: take_map [symmetric] sorted_insert_sorted sorted_wrt_take)
  moreover have "0 < capacity rs" using assms by (simp add: knn_wf_def)
  ultimately show ?thesis using A(1-6) by (simp add: knn_wf_def)
qed

lemma knn_add_holds:
  assumes h: "knn_holds mx cap M rs" and d: "d < mx"
  shows "knn_holds mx cap (add_mset (d, i) M) (snd (knn_addPoint d i rs))"
proof -
  from h have wf: "knn_wf mx rs" and n: "nearest (capacity rs) M (knn_entries rs)"
    and M: "\<forall>x \<in># M. fst x < mx" and u: "knn_untouched rs" "capacity rs = cap"
    by (auto simp: knn_holds_def)
  show ?thesis
    using knn_add_wf [OF wf] nearest_insert [OF n] M d u knn_addPoint_entries(1,3,8) [OF wf, of d i]
    by (simp add: knn_holds_def)
qed

lemma knn_add_worst:
  assumes h: "knn_holds mx cap M rs" and d: "d < mx"
  shows "knn_worstDist (snd (knn_addPoint d i rs)) \<le> knn_worstDist rs"
proof -
  let ?rs = "snd (knn_addPoint d i rs)" and ?n = "capacity rs"
  from h have wf: "knn_wf mx rs" by (simp add: knn_holds_def)
  note A = knn_addPoint_entries [OF wf, of d i]
  have wf': "knn_wf mx ?rs" using wf by (rule knn_add_wf)
  show ?thesis
  proof (cases "knn_count rs = ?n")
    case False
    then have "knn_worstDist rs = mx" using wf by (auto simp: knn_wf_def knn_worstDist_def)
    moreover have "knn_worstDist ?rs \<le> mx"
      using knn_add_holds [OF h d] by (rule knn_worst_bound)
    ultimately show ?thesis by simp
  next
    case True
    with A(2,3) have full: "knn_count ?rs = capacity ?rs" by simp
    let ?es = "knn_entries rs" and ?xs = "insert_sorted (d, i) (knn_entries rs)"
    have n: "0 < ?n" "length ?es = ?n" "length ?xs = Suc ?n"
      using wf True length_knn_entries [OF wf] by (auto simp: knn_wf_def)
    have "fst (take ?n ?xs ! (?n - 1)) \<le> fst (?es ! (?n - 1))"
      using insert_sorted_nth_le [of ?es "?n - 1" "(d, i)"] wf n by (simp add: knn_wf_def)
    moreover have "?xs \<noteq> []" by (metis length_insert_sorted length_0_conv nat.distinct(1))
    then have "take ?n ?xs \<noteq> []" using n by simp
    moreover have "?es \<noteq> []" using n by auto
    ultimately show ?thesis
      using knn_worst_last [OF wf True] knn_worst_last [OF wf' full] A(1) n
      by (simp add: last_conv_nth)
  qed
qed

interpretation knn: result_set knn_worstDist knn_addPoint "knn_holds mx cap" "\<lambda>d. d < mx" for mx cap
proof
  fix M rs d i
  assume h: "knn_holds mx cap M rs" and d: "d < mx"
  then have wf: "knn_wf mx rs" and n: "nearest (capacity rs) M (knn_entries rs)"
    and M: "\<forall>x \<in># M. fst x < mx" and u: "knn_untouched rs" "capacity rs = cap"
    by (auto simp: knn_holds_def)
  note A = knn_addPoint_entries [OF wf, of d i]
  show "fst (knn_addPoint d i rs)" by (rule A(7))
  show "knn_holds mx cap (add_mset (d, i) M) (snd (knn_addPoint d i rs))"
    using h d by (rule knn_add_holds)
  show "knn_worstDist (snd (knn_addPoint d i rs)) \<le> knn_worstDist rs"
    using h d by (rule knn_add_worst)
  assume w: "knn_worstDist rs \<le> d"
  with d have "knn_worstDist rs \<noteq> mx" by simp
  then have full: "knn_count rs = capacity rs"
    using wf by (auto simp: knn_wf_def knn_worstDist_def)
  have "fst e \<le> d" if "e \<in> set (knn_entries rs)" for e
    using sorted_last_ge [of "knn_entries rs" e] that wf w knn_worst_last [OF wf full]
    by (simp add: knn_wf_def)
  then show "knn_holds mx cap (add_mset (d, i) M) rs"
    using nearest_skip [OF n, of "(d, i)"] length_knn_entries [OF wf] full wf M d u
    by (simp add: knn_holds_def)
qed

text \<open>A radius set holds exactly the points nearer than the radius, in the order found.\<close>

definition radius_holds :: "real \<Rightarrow> (real \<times> nat) multiset \<Rightarrow> real radius_set \<Rightarrow> bool" where
  "radius_holds r M rs \<longleftrightarrow> radius rs = r \<and>
     image_mset prod.swap (mset (m_indices_dists rs)) = filter_mset (\<lambda>x. fst x < r) M"

interpretation radius: result_set radius_worstDist radius_addPoint "radius_holds r" "\<lambda>_. True" for r
  by unfold_locales
    (auto simp: radius_holds_def radius_addPoint_def radius_worstDist_def)

subsection \<open>Reading the answer\<close>

text \<open>
  What the caller finds in the index array after all points of \<open>{0..<N}\<close> have been offered:
  the nearest of them in order of distance, then zeros.
\<close>

definition nearest_indices :: "(nat \<Rightarrow> real) \<Rightarrow> nat \<Rightarrow> nat \<Rightarrow> nat list \<Rightarrow> bool" where
  "nearest_indices d N k is \<longleftrightarrow>
     length is = k \<and> distinct is \<and> set is \<subseteq> {0..<N} \<and> sorted (map d is) \<and>
     (\<forall>i \<in> set is. \<forall>j < N. j \<notin> set is \<longrightarrow> d i \<le> d j)"

lemma nearest_nearest_indices:
  assumes "nearest k (mset (map (\<lambda>p. (d p, p)) [0..<N])) es"
  shows "nearest_indices d N (min k N) (map snd es)"
proof -
  let ?M = "mset (map (\<lambda>p. (d p, p)) [0..<N])"
  from assms obtain rest where s: "sorted (map fst es)" and l: "length es = min k N"
    and M: "?M = mset es + rest" and r: "\<forall>e \<in> set es. \<forall>y \<in># rest. fst e \<le> fst y"
    by (auto simp: nearest_def)
  have sub: "set es \<subseteq> (\<lambda>p. (d p, p)) ` {0..<N}"
  proof -
    have "set_mset (mset es) \<subseteq> set_mset ?M" unfolding M by simp
    then show ?thesis by simp
  qed
  have "image_mset snd ?M = mset (map snd es) + image_mset snd rest" unfolding M by simp
  moreover have "image_mset snd ?M = mset [0..<N]" by (simp add: image_mset.compositionality comp_def)
  ultimately have ms: "mset [0..<N] = mset (map snd es) + image_mset snd rest" by simp
  have dist: "distinct (map snd es)"
  proof -
    have "count (mset (map snd es)) x = (if x \<in> set (map snd es) then 1 else 0)" for x
    proof -
      have "count (mset (map snd es)) x \<le> count (mset [0..<N]) x" unfolding ms by simp
      also have "\<dots> \<le> 1" using distinct_upt [of 0 N] unfolding distinct_count_atmost_1 by simp
      finally have one: "count (mset (map snd es)) x \<le> 1" .
      show ?thesis
      proof (cases "x \<in> set (map snd es)")
        case True
        then have "0 < count (mset (map snd es)) x" by (simp only: count_greater_zero_iff set_mset_mset)
        with one have "count (mset (map snd es)) x = 1" by linarith
        with True show ?thesis by (simp only: if_True)
      next
        case False
        then show ?thesis by (simp only: count_eq_zero_iff set_mset_mset if_False not_False_eq_True)
      qed
    qed
    then show ?thesis unfolding distinct_count_atmost_1 by blast
  qed
  have fst_d: "map fst es = map d (map snd es)" using sub by (auto intro!: map_cong)
  have left: "d i \<le> d j" if "i \<in> set (map snd es)" "j < N" "j \<notin> set (map snd es)" for i j
  proof -
    have "(d j, j) \<in># mset es + rest" unfolding M [symmetric] using that(2) by simp
    moreover have "(d j, j) \<notin> set es" using that(3) by force
    ultimately have "(d j, j) \<in># rest" by simp
    moreover from that(1) sub have "(d i, i) \<in> set es" by auto
    ultimately show ?thesis using r by fastforce
  qed
  show ?thesis
    unfolding nearest_indices_def using l dist sub s fst_d left by auto
qed

lemma knn_holds_indices:
  assumes "knn_holds mx k (mset (map (\<lambda>p. (d p, p)) [0..<N])) rs"
  shows "\<exists>is. indices rs = is @ replicate (k - min k N) 0 \<and> nearest_indices d N (min k N) is"
proof (intro exI conjI)
  let ?es = "knn_entries rs"
  from assms have wf: "knn_wf mx rs" and u: "knn_untouched rs" and c: "capacity rs = k"
    and n: "nearest k (mset (map (\<lambda>p. (d p, p)) [0..<N])) ?es" by (auto simp: knn_holds_def)
  show "nearest_indices d N (min k N) (map snd ?es)" using n by (rule nearest_nearest_indices)
  have cnt: "knn_count rs = min k N"
    using length_knn_entries [OF wf] n by (simp add: nearest_def)
  have len: "length (indices rs) = k" "length (dists rs) = k" using wf c by (simp_all add: knn_wf_def)
  have "map snd ?es = take (min k N) (indices rs)"
    using len by (simp add: knn_entries_def cnt take_map [symmetric])
  moreover have "drop (min k N) (indices rs) = replicate (k - min k N) 0"
    using u len c cnt by (intro nth_equalityI) (auto simp: knn_untouched_def)
  ultimately show "indices rs = map snd ?es @ replicate (k - min k N) 0"
    by (metis append_take_drop_id)
qed

text \<open>The freshly initialised set of a positive capacity holds the empty set of points.\<close>

lemma knn_init_holds:
  assumes "0 < k"
  shows "knn_holds mx k {#} (knn_init mx (replicate k 0) (replicate k z) (KNNResultSet k))"
  using assms
  by (simp add: knn_holds_def knn_wf_def knn_untouched_def knn_entries_def knn_init_def KNNResultSet_def Let_def)

subsection \<open>Properties\<close>

text \<open>
  C29: \<open>KNNResultSet::addPoint\<close>, with its element-by-element shifting, refines insertion into
  a list sorted by distance that is then cut to the capacity; equal distances keep their order
  of arrival, and the scan is always told to go on.
\<close>

theorem addPoint_refines:
  assumes "knn_wf mx rs"
  shows "knn_entries (snd (knn_addPoint d i rs)) = take (capacity rs) (insert_sorted (d, i) (knn_entries rs)) \<and>
     knn_wf mx (snd (knn_addPoint d i rs)) \<and> fst (knn_addPoint d i rs)"
  using knn_addPoint_entries(1,7) [OF assms(1)] knn_add_wf [OF assms] by blast

theorem addPoint_refines_witness:
  "knn_entries (snd (knn_addPoint 2 9 \<lparr>indices = [4, 5, 6], dists = [1, 2, 3], capacity = 3, knn_count = 3\<rparr>)) =
     [(1, 4), (2, 5), (2::int, 9)]"
  using addPoint_refines [of 100 "\<lparr>indices = [4, 5, 6], dists = [1, 2, 3], capacity = 3, knn_count = 3\<rparr>" "2::int" 9]
  by (simp add: knn_wf_def knn_entries_def insert_sorted_def)

end
