(* ===== verification/NF_Search.thy ===== *)
theory NF_Search
  imports NF_KDTree NF_ResultSet
begin

text \<open>
  The index object of \<open>libs/nanoflann.hpp\<close> (\<open>KDTreeSingleIndexAdaptor\<close>): construction,
  \<open>buildIndex\<close>, and the query \<open>findNeighbors\<close> with its recursion \<open>searchLevel\<close>.

  The search is a template over the result set and the metric; the model takes their
  operations as records. The locale \<open>kd_search\<close> puts the two interfaces together and proves
  the search exact: branches are skipped only when no point in them can matter. It is
  interpreted for the k-nearest and for the radius result set with the \<open>L2_Simple\<close> metric.
\<close>

subsection \<open>The index and its construction\<close>

record kd_index =
  vind :: "nat list"
  root_node :: "node option"
  m_leaf_max_size :: nat
  m_size :: nat
  m_size_at_index_build :: nat
  kd_dim :: nat
  root_bbox :: bounding_box

definition vec_resize :: "nat \<Rightarrow> nat list \<Rightarrow> nat list" where
  "vec_resize n xs = take n xs @ replicate (n - length xs) 0"

definition init_vind :: "nat \<Rightarrow> kd_index \<Rightarrow> kd_index" where
  "init_vind point_count idx =
     (let idx = idx\<lparr>m_size := point_count\<rparr>;
          v = (if length (vind idx) \<noteq> m_size idx then vec_resize (m_size idx) (vind idx) else vind idx)
      in idx\<lparr>vind := foldl (\<lambda>v i. v[i := i]) v [0..<m_size idx]\<rparr>)"

text \<open>The template parameter \<open>DIM\<close>, when positive, overrides the constructor argument.\<close>

definition KDTreeSingleIndexAdaptor :: "int \<Rightarrow> nat \<Rightarrow> nat \<Rightarrow> nat \<Rightarrow> kd_index" where
  "KDTreeSingleIndexAdaptor DIM dimensionality point_count leaf_max_size =
     init_vind point_count
       \<lparr>vind = [], root_node = None, m_leaf_max_size = leaf_max_size, m_size = point_count,
        m_size_at_index_build = point_count,
        kd_dim = (if DIM > 0 then nat DIM else dimensionality), root_bbox = []\<rparr>"

definition freeIndex :: "kd_index \<Rightarrow> kd_index" where
  "freeIndex idx = idx\<lparr>root_node := None, m_size_at_index_build := 0\<rparr>"

text \<open>\<open>kdtree_get_bbox\<close> of the point cloud returns false, so the loop always runs.\<close>

definition computeBoundingBox :: "data_source \<Rightarrow> nat \<Rightarrow> nat \<Rightarrow> bounding_box result" where
  "computeBoundingBox get point_count ndim =
     (if point_count = 0
      then Inl (Throws (Runtime_error ''[nanoflann] computeBoundingBox() called but no data points found.''))
      else Inr (foldl (grow_bbox get ndim) (point_bbox get ndim 0) [1..<point_count]))"

text \<open>\<open>None\<close>: the recursion of \<open>divideTree\<close> does not end.\<close>

definition buildIndex :: "data_source \<Rightarrow> nat \<Rightarrow> kd_index \<Rightarrow> kd_index result option" where
  "buildIndex get point_count idx =
     (let idx = idx\<lparr>m_size := point_count\<rparr>;
          idx = idx\<lparr>m_size_at_index_build := m_size idx\<rparr>;
          idx = init_vind point_count idx;
          idx = freeIndex idx;
          idx = idx\<lparr>m_size_at_index_build := m_size idx\<rparr>
      in if m_size idx = 0 then Some (Inr idx)
         else case computeBoundingBox get point_count (kd_dim idx) of
                Inl e \<Rightarrow> Some (Inl e)
              | Inr bbox \<Rightarrow>
                  map_option (\<lambda>(n, v, bbox). Inr (idx\<lparr>root_node := Some n, vind := v, root_bbox := bbox\<rparr>))
                    (divideTree get (kd_dim idx) (m_leaf_max_size idx) (vind idx) 0 (m_size idx) bbox))"

lemma length_foldl_update: "length (foldl (\<lambda>v i. v[i := f i]) xs is) = length xs"
  by (induction "is" arbitrary: xs) auto

lemma init_vind_loop: "n \<le> length v \<Longrightarrow> foldl (\<lambda>v i. v[i := i]) v [0..<n] = [0..<n] @ drop n v"
proof (induction n)
  case (Suc n)
  then have "foldl (\<lambda>v i. v[i := i]) v [0..<Suc n] = ([0..<n] @ drop n v)[n := n]" by simp
  also have "\<dots> = [0..<Suc n] @ drop (Suc n) v"
    using Suc.prems by (simp add: list_update_append Cons_nth_drop_Suc [symmetric])
  finally show ?case .
qed simp

lemma init_vind_simps [simp]:
  "vind (init_vind n idx) = [0..<n]"
  "m_size (init_vind n idx) = n"
  "kd_dim (init_vind n idx) = kd_dim idx"
  "m_leaf_max_size (init_vind n idx) = m_leaf_max_size idx"
  by (auto simp: init_vind_def Let_def vec_resize_def init_vind_loop)

text \<open>
  An index over the first \<open>n\<close> points: nothing to search when there are none, else a tree
  over a permutation of all indices, with the tight bounding box of the points.
\<close>

definition index_ok :: "data_source \<Rightarrow> nat \<Rightarrow> kd_index \<Rightarrow> bool" where
  "index_ok get n idx \<longleftrightarrow>
     m_size idx = n \<and> m_size_at_index_build idx = n \<and>
     mset (vind idx) = mset [0..<n] \<and>
     (if n = 0 then root_node idx = None
      else root_bbox idx = bbox_of get (kd_dim idx) {0..<n} \<and>
           (\<exists>t. root_node idx = Some t \<and> tree_ok get (kd_dim idx) (vind idx) 0 n t))"

lemma subvec_all [simp]: "subvec xs 0 (length xs) = xs"
  by (simp add: subvec_def)

lemma buildIndex_ok:
  assumes "1 \<le> m_leaf_max_size idx" "0 < kd_dim idx"
  shows "\<exists>idx'. buildIndex get n idx = Some (Inr idx') \<and> index_ok get n idx' \<and>
     kd_dim idx' = kd_dim idx \<and> m_leaf_max_size idx' = m_leaf_max_size idx"
proof (cases "n = 0")
  case True
  then show ?thesis by (simp add: buildIndex_def freeIndex_def Let_def index_ok_def)
next
  case False
  define bb where "bb = foldl (grow_bbox get (kd_dim idx)) (point_bbox get (kd_dim idx) 0) [1..<n]"
  obtain t v where d: "divideTree get (kd_dim idx) (m_leaf_max_size idx) [0..<n] 0 n bb =
      Some (t, v, bbox_of get (kd_dim idx) (set (subvec [0..<n] 0 n)))"
    and t: "tree_ok get (kd_dim idx) v 0 n t" and o: "same_outside [0..<n] v 0 n"
    and m: "mset (subvec v 0 n) = mset (subvec [0..<n] 0 n)"
    using divideTree_spec [OF assms, of 0 n "[0..<n]" get bb] False by auto
  have "length v = n" using o by (simp add: same_outside_def)
  then have "subvec v 0 n = v" "subvec [0..<n] 0 n = [0..<n]"
    using subvec_all [of v] subvec_all [of "[0..<n]"] by simp_all
  with d t m False show ?thesis
    by (auto simp: buildIndex_def computeBoundingBox_def bb_def freeIndex_def Let_def index_ok_def
        simp del: One_nat_def)
qed

subsection \<open>searchLevel and findNeighbors\<close>

record 'rs result_set_ops =
  rs_worstDist :: "'rs \<Rightarrow> real"
  rs_addPoint :: "real \<Rightarrow> nat \<Rightarrow> 'rs \<Rightarrow> bool \<times> 'rs"
  rs_full :: "'rs \<Rightarrow> bool"

record metric =
  m_evalMetric :: "data_source \<Rightarrow> real list \<Rightarrow> nat \<Rightarrow> nat \<Rightarrow> real"
  m_accum_dist :: "real \<Rightarrow> real \<Rightarrow> nat \<Rightarrow> real"

text \<open>The loop over a leaf; the worst distance is read once, before it.\<close>

fun leaf_scan :: "'rs result_set_ops \<Rightarrow> (nat \<Rightarrow> real) \<Rightarrow> real \<Rightarrow> nat list \<Rightarrow> 'rs \<Rightarrow> bool \<times> 'rs" where
  "leaf_scan ops d worst_dist [] rs = (True, rs)"
| "leaf_scan ops d worst_dist (index # is) rs =
     (if d index < worst_dist
      then let (continue, rs) = rs_addPoint ops (d index) index rs
           in if \<not> continue then (False, rs) else leaf_scan ops d worst_dist is rs
      else leaf_scan ops d worst_dist is rs)"

function searchLevel :: "'rs result_set_ops \<Rightarrow> metric \<Rightarrow> data_source \<Rightarrow> nat \<Rightarrow> nat list \<Rightarrow> real list \<Rightarrow>
    real \<Rightarrow> node \<Rightarrow> real \<Rightarrow> real list \<Rightarrow> 'rs \<Rightarrow> bool \<times> 'rs \<times> real list" where
  "searchLevel ops mt get ndim vi vec epsError (Leaf left right) mindistsq dv rs =
     (let worst_dist = rs_worstDist ops rs;
          (continue, rs) = leaf_scan ops (\<lambda>index. m_evalMetric mt get vec index ndim) worst_dist
                             (map (\<lambda>i. vi ! i) [left..<right]) rs
      in (continue, rs, dv))"
| "searchLevel ops mt get ndim vi vec epsError (Nonleaf idx lo hi c1 c2) mindistsq dv rs =
     (let val = vec ! idx;
          diff1 = val - lo;
          diff2 = val - hi;
          bestChild = (if diff1 + diff2 < 0 then c1 else c2);
          otherChild = (if diff1 + diff2 < 0 then c2 else c1);
          cut_dist = (if diff1 + diff2 < 0 then m_accum_dist mt val hi idx else m_accum_dist mt val lo idx);
          (continue, rs, dv) =
            searchLevel ops mt get ndim vi vec epsError bestChild mindistsq dv rs
      in if \<not> continue then (False, rs, dv)
         else
           let dst = dv ! idx;
               mindistsq = mindistsq + cut_dist - dst;
               dv = dv[idx := cut_dist]
           in if mindistsq * epsError \<le> rs_worstDist ops rs
              then let (continue, rs, dv) =
                         searchLevel ops mt get ndim vi vec epsError otherChild mindistsq dv rs
                   in if \<not> continue then (False, rs, dv) else (True, rs, dv[idx := dst])
              else (True, rs, dv[idx := dst]))"
  by pat_completeness auto
termination
  by (relation "measure (\<lambda>(ops, mt, get, ndim, vi, vec, eps, n, m, ds, rs). size n)")
    (auto split: if_splits)

declare searchLevel.simps [simp del]

definition computeInitialDistances :: "metric \<Rightarrow> nat \<Rightarrow> bounding_box \<Rightarrow> real list \<Rightarrow> real list \<Rightarrow>
    real \<times> real list" where
  "computeInitialDistances mt ndim bbox vec dv =
     foldl (\<lambda>(distsq, dv) i.
        let (distsq, dv) =
              (if vec ! i < low (bbox ! i)
               then let d = m_accum_dist mt (vec ! i) (low (bbox ! i)) i in (distsq + d, dv[i := d])
               else (distsq, dv))
        in if vec ! i > high (bbox ! i)
           then let d = m_accum_dist mt (vec ! i) (high (bbox ! i)) i in (distsq + d, dv[i := d])
           else (distsq, dv))
       (0, dv) [0..<ndim]"

definition findNeighbors :: "'rs result_set_ops \<Rightarrow> metric \<Rightarrow> data_source \<Rightarrow> kd_index \<Rightarrow> 'rs \<Rightarrow> real list \<Rightarrow>
    real \<Rightarrow> (bool \<times> 'rs) result" where
  "findNeighbors ops mt get idx rs vec eps =
     (if m_size idx = 0 then Inr (False, rs)
      else case root_node idx of
             None \<Rightarrow> Inl (Throws (Runtime_error ''[nanoflann] findNeighbors() called before building the index.''))
           | Some t \<Rightarrow>
               let epsError = 1 + eps;
                   dv = replicate (kd_dim idx) 0;
                   (distsq, dv) = computeInitialDistances mt (kd_dim idx) (root_bbox idx) vec dv;
                   (_, rs, _) = searchLevel ops mt get (kd_dim idx) (vind idx) vec epsError t distsq dv rs
               in Inr (rs_full ops rs, rs))"

subsection \<open>The search is exact\<close>

lemma sum_list_update:
  "i < length xs \<Longrightarrow> sum_list (xs[i := c]) = sum_list xs + c - (xs ! i :: real)"
  by (induction xs arbitrary: i) (auto split: nat.split)

locale kd_search = result_set worstDist addPoint holds limit + distance_functor evalMetric accum_dist
  for worstDist :: "'rs \<Rightarrow> real" and addPoint :: "real \<Rightarrow> nat \<Rightarrow> 'rs \<Rightarrow> bool \<times> 'rs"
    and holds :: "(real \<times> nat) multiset \<Rightarrow> 'rs \<Rightarrow> bool" and limit :: "real \<Rightarrow> bool"
    and evalMetric :: "data_source \<Rightarrow> real list \<Rightarrow> nat \<Rightarrow> nat \<Rightarrow> real"
    and accum_dist :: "real \<Rightarrow> real \<Rightarrow> nat \<Rightarrow> real" +
  fixes ops :: "'rs result_set_ops" and mt :: metric
  assumes ops_worst: "rs_worstDist ops = worstDist"
    and ops_add: "rs_addPoint ops = addPoint"
    and mt_eval: "m_evalMetric mt = evalMetric"
    and mt_accum: "m_accum_dist mt = accum_dist"
begin

lemma leaf_scan_holds:
  assumes "holds M rs" "worstDist rs \<le> w" "\<And>p. p \<in> set ps \<Longrightarrow> limit (d p)"
  shows "\<exists>rs'. leaf_scan ops d w ps rs = (True, rs') \<and> holds (M + mset (map (\<lambda>p. (d p, p)) ps)) rs'"
  using assms
proof (induction ps arbitrary: M rs)
  case (Cons p ps)
  have lim: "limit (d p)" using Cons.prems(3) by simp
  show ?case
  proof (cases "d p < w")
    case True
    obtain rs1 where add: "addPoint (d p) p rs = (True, rs1)"
      using add_continues [OF Cons.prems(1) lim, of p] by (metis prod.collapse)
    then have "holds (add_mset (d p, p) M) rs1" "worstDist rs1 \<le> w"
      using add_holds [OF Cons.prems(1) lim, of p] add_worst [OF Cons.prems(1) lim, of p] Cons.prems(2)
      by auto
    from Cons.IH [OF this] Cons.prems(3) show ?thesis
      using True by (auto simp: ops_add add)
  next
    case False
    then have "holds (add_mset (d p, p) M) rs"
      using Cons.prems(2) by (intro skip_holds [OF Cons.prems(1) lim]) simp
    from Cons.IH [OF this Cons.prems(2)] Cons.prems(3) False show ?thesis by auto
  qed
qed auto

definition found :: "data_source \<Rightarrow> nat \<Rightarrow> real list \<Rightarrow> nat list \<Rightarrow> (real \<times> nat) multiset" where
  "found get ndim vec ps = mset (map (\<lambda>p. (evalMetric get vec p ndim, p)) ps)"

lemma found_append: "found get ndim vec (ps @ qs) = found get ndim vec ps + found get ndim vec qs"
  by (simp add: found_def)

text \<open>
  \<open>dv\<close> holds, per dimension, a lower bound of the distance from the query to the points of the
  subtree, and \<open>mindistsq\<close> their sum.
\<close>

lemma searchLevel_holds:
  assumes "tree_ok get ndim vi l r n" "holds M rs" "length dv = ndim" "mindistsq = sum_list dv"
    "\<And>p. p \<in> set (subvec vi l r) \<Longrightarrow> limit (evalMetric get vec p ndim)"
    "\<And>p i. p \<in> set (subvec vi l r) \<Longrightarrow> i < ndim \<Longrightarrow> dv ! i \<le> accum_dist (vec ! i) (get p i) i"
  shows "\<exists>rs'. searchLevel ops mt get ndim vi vec 1 n mindistsq dv rs = (True, rs', dv) \<and>
     holds (M + found get ndim vec (subvec vi l r)) rs'"
  using assms
proof (induction n arbitrary: l r M rs dv mindistsq)
  case (Leaf a b)
  then have "map (\<lambda>i. vi ! i) [a..<b] = subvec vi l r" by (simp add: map_nth_subvec)
  with leaf_scan_holds [OF Leaf.prems(2) order_refl, of "subvec vi l r"] Leaf.prems(5) show ?case
    by (fastforce simp: searchLevel.simps(1) found_def ops_worst mt_eval)
next
  case (Nonleaf f lo hi c1 c2)
  then obtain mid where f: "f < ndim" and lohi: "lo \<le> hi" and mid: "l < mid" "mid < r"
    and t1: "tree_ok get ndim vi l mid c1" and t2: "tree_ok get ndim vi mid r c2"
    and b1: "\<And>p. p \<in> set (subvec vi l mid) \<Longrightarrow> get p f \<le> lo"
    and b2: "\<And>p. p \<in> set (subvec vi mid r) \<Longrightarrow> hi \<le> get p f"
    by auto
  have split: "subvec vi l r = subvec vi l mid @ subvec vi mid r" using mid by (intro subvec_split) auto
  define swapped where "swapped \<longleftrightarrow> \<not> ((vec ! f - lo) + (vec ! f - hi) < 0)"
  define cd where "cd = accum_dist (vec ! f) (if swapped then lo else hi) f"
  define best where "best = (if swapped then subvec vi mid r else subvec vi l mid)"
  define other where "other = (if swapped then subvec vi l mid else subvec vi mid r)"
  have perm: "found get ndim vec (subvec vi l r) = found get ndim vec best + found get ndim vec other"
    "set best \<subseteq> set (subvec vi l r)" "set other \<subseteq> set (subvec vi l r)"
    unfolding split found_append best_def other_def by auto
  have cd: "cd \<le> accum_dist (vec ! f) (get p f) f" if "p \<in> set other" for p
  proof (cases swapped)
    case True
    with that b1 [of p] lohi show ?thesis
      by (auto simp: cd_def other_def swapped_def intro!: accum_mono_below)
  next
    case False
    with that b2 [of p] lohi show ?thesis
      by (auto simp: cd_def other_def swapped_def intro!: accum_mono_above)
  qed
  have "\<exists>rs1. searchLevel ops mt get ndim vi vec 1 (if swapped then c2 else c1) mindistsq dv rs = (True, rs1, dv) \<and>
      holds (M + found get ndim vec best) rs1"
    using Nonleaf.IH(1) [OF t1 Nonleaf.prems(2-4)] Nonleaf.IH(2) [OF t2 Nonleaf.prems(2-4)]
      Nonleaf.prems(5,6) perm(2) unfolding best_def by (cases swapped; simp add: subset_iff)
  then obtain rs1 where s1: "searchLevel ops mt get ndim vi vec 1 (if swapped then c2 else c1) mindistsq dv rs = (True, rs1, dv)"
    and h1: "holds (M + found get ndim vec best) rs1" by blast
  define dv2 where "dv2 = dv[f := cd]"
  define m2 where "m2 = mindistsq + cd - dv ! f"
  have len2: "length dv2 = ndim" using Nonleaf.prems(3) by (simp add: dv2_def)
  have m2: "m2 = sum_list dv2"
    using f Nonleaf.prems(3,4) by (simp add: m2_def dv2_def sum_list_update)
  have lb: "dv2 ! i \<le> accum_dist (vec ! i) (get p i) i" if "p \<in> set other" "i < ndim" for p i
    using that cd Nonleaf.prems(3,6) perm(3) f by (auto simp: dv2_def nth_list_update)
  have restore: "dv2[f := dv ! f] = dv" by (simp add: dv2_def)
  have lim: "limit (evalMetric get vec p ndim)" if "p \<in> set other" for p
    using Nonleaf.prems(5) perm(3) that by blast
  note unfold = searchLevel.simps(2) [of ops mt get ndim vi vec 1 f lo hi c1 c2 mindistsq dv rs]
  have eq: "searchLevel ops mt get ndim vi vec 1 (Nonleaf f lo hi c1 c2) mindistsq dv rs =
      (if m2 \<le> worstDist rs1
       then let (continue, rs, ds) = searchLevel ops mt get ndim vi vec 1 (if swapped then c1 else c2) m2 dv2 rs1
            in if \<not> continue then (False, rs, ds) else (True, rs, ds[f := dv ! f])
       else (True, rs1, dv))"
    unfolding unfold using s1 restore
    by (auto simp: Let_def swapped_def cd_def m2_def dv2_def ops_worst mt_accum split: if_splits)
  show ?case
  proof (cases "m2 \<le> worstDist rs1")
    case True
    have "\<exists>rs2. searchLevel ops mt get ndim vi vec 1 (if swapped then c1 else c2) m2 dv2 rs1 = (True, rs2, dv2) \<and>
        holds (M + found get ndim vec best + found get ndim vec other) rs2"
      using Nonleaf.IH(1) [OF t1 h1 len2 m2] Nonleaf.IH(2) [OF t2 h1 len2 m2] lim lb
      unfolding other_def by (cases swapped; simp)
    then show ?thesis using True restore by (auto simp: eq perm(1) add.assoc)
  next
    case False
    have "holds (M + found get ndim vec best + found get ndim vec other) rs1"
    proof (rule skip_many [OF h1])
      fix x assume "x \<in># found get ndim vec other"
      then obtain p where p: "p \<in> set other" "x = (evalMetric get vec p ndim, p)"
        by (auto simp: found_def)
      have "m2 \<le> evalMetric get vec p ndim"
        unfolding m2 using lb p(1) len2 by (intro evalMetric_lower_bound) auto
      with False lim p show "limit (fst x) \<and> worstDist rs1 \<le> fst x" by simp
    qed
    then show ?thesis using False by (simp add: eq perm(1) add.assoc)
  qed
qed

text \<open>The distance from the query to the bounding box, dimension by dimension.\<close>

definition box_dist :: "bounding_box \<Rightarrow> real list \<Rightarrow> nat \<Rightarrow> real" where
  "box_dist bbox vec i =
     (if vec ! i < low (bbox ! i) then accum_dist (vec ! i) (low (bbox ! i)) i
      else if vec ! i > high (bbox ! i) then accum_dist (vec ! i) (high (bbox ! i)) i else 0)"

lemma computeInitialDistances_eq:
  assumes "\<And>i. i < ndim \<Longrightarrow> low (bbox ! i) \<le> high (bbox ! i)"
  shows "computeInitialDistances mt ndim bbox vec (replicate ndim 0) =
     (\<Sum>i<ndim. box_dist bbox vec i, map (box_dist bbox vec) [0..<ndim])"
proof -
  let ?f = "\<lambda>(distsq, dv) i.
        let (distsq, dv) =
              (if vec ! i < low (bbox ! i)
               then let d = m_accum_dist mt (vec ! i) (low (bbox ! i)) i in (distsq + d, dv[i := d])
               else (distsq, dv))
        in if vec ! i > high (bbox ! i)
           then let d = m_accum_dist mt (vec ! i) (high (bbox ! i)) i in (distsq + d, dv[i := d])
           else (distsq, dv)"
  have step: "?f (s, dv) i = (s + box_dist bbox vec i, dv[i := box_dist bbox vec i])"
    if "i < ndim" "i < length dv" "dv ! i = 0" for s dv i
    using assms [OF that(1)] that(2,3) list_update_id [of dv i]
    by (auto simp: box_dist_def mt_accum Let_def)
  have "k \<le> ndim \<Longrightarrow> foldl ?f (0, replicate ndim 0) [0..<k] =
      (\<Sum>i<k. box_dist bbox vec i, map (box_dist bbox vec) [0..<k] @ replicate (ndim - k) 0)" for k
  proof (induction k)
    case (Suc k)
    let ?dv = "map (box_dist bbox vec) [0..<k] @ replicate (ndim - k) 0"
    have "?dv ! k = 0" using Suc.prems by (simp add: nth_append)
    then have "foldl ?f (0, replicate ndim 0) [0..<Suc k] =
        ((\<Sum>i<k. box_dist bbox vec i) + box_dist bbox vec k, ?dv[k := box_dist bbox vec k])"
      using Suc step [of k ?dv] by simp
    moreover have "replicate (ndim - k) (0::real) = 0 # replicate (ndim - Suc k) 0"
      using Suc.prems by (simp add: Suc_diff_Suc [symmetric])
    then have "?dv[k := box_dist bbox vec k] =
        map (box_dist bbox vec) [0..<Suc k] @ replicate (ndim - Suc k) 0"
      by (simp add: list_update_append)
    ultimately show ?case by simp
  qed simp
  from this [of ndim] show ?thesis by (simp add: computeInitialDistances_def)
qed

lemma box_dist_le:
  assumes "p \<in> S" "finite S" "i < ndim"
  shows "box_dist (bbox_of get ndim S) vec i \<le> accum_dist (vec ! i) (get p i) i"
proof -
  have "Min ((\<lambda>p. get p i) ` S) \<le> get p i" "get p i \<le> Max ((\<lambda>p. get p i) ` S)"
    using assms by simp_all
  then show ?thesis using assms(3)
    by (auto simp: box_dist_def intro: accum_mono_above accum_mono_below accum_nonneg)
qed

lemma findNeighbors_holds:
  assumes idx: "index_ok get n idx" and n: "0 < n" and h: "holds {#} rs"
    and lim: "\<And>p. p < n \<Longrightarrow> limit (evalMetric get vec p (kd_dim idx))"
  shows "\<exists>rs'. findNeighbors ops mt get idx rs vec 0 = Inr (rs_full ops rs', rs') \<and>
     holds (found get (kd_dim idx) vec [0..<n]) rs'"
proof -
  let ?D = "kd_dim idx" and ?bb = "bbox_of get (kd_dim idx) {0..<n}"
  obtain t where t: "root_node idx = Some t" "tree_ok get ?D (vind idx) 0 n t"
    and bb: "root_bbox idx = ?bb" and m: "mset (vind idx) = mset [0..<n]" and sz: "m_size idx = n"
    using idx n by (auto simp: index_ok_def)
  have "length (vind idx) = length [0..<n]" using m by (rule mset_eq_length)
  then have sl: "subvec (vind idx) 0 n = vind idx" using subvec_all [of "vind idx"] by simp
  have set: "set (vind idx) = {0..<n}" using m by (metis set_mset_mset set_upt)
  let ?dv = "map (box_dist ?bb vec) [0..<?D]"
  have "low (?bb ! i) \<le> high (?bb ! i)" if "i < ?D" for i
    using that n by (auto intro: order_trans [OF Min_le [of _ "get 0 i"] Max_ge])
  from computeInitialDistances_eq [OF this]
  have init: "computeInitialDistances mt ?D ?bb vec (replicate ?D 0) = (sum_list ?dv, ?dv)"
    by (simp add: sum_list_sum_nth atLeast0LessThan)
  have b: "?dv ! i \<le> accum_dist (vec ! i) (get p i) i" if "p \<in> set (subvec (vind idx) 0 n)" "i < ?D" for p i
    using box_dist_le [of p "{0..<n}" i ?D get vec] that set sl by simp
  have l: "limit (evalMetric get vec p ?D)" if "p \<in> set (subvec (vind idx) 0 n)" for p
    using lim that set sl by simp
  obtain rs' where s: "searchLevel ops mt get ?D (vind idx) vec 1 t (sum_list ?dv) ?dv rs = (True, rs', ?dv)"
    and h': "holds ({#} + found get ?D vec (subvec (vind idx) 0 n)) rs'"
    using searchLevel_holds [OF t(2) h, of ?dv "sum_list ?dv" vec] l b by auto
  have "found get ?D vec (vind idx) = found get ?D vec [0..<n]"
    using m by (simp add: found_def)
  with h' sl have "holds (found get ?D vec [0..<n]) rs'" by simp
  moreover have "findNeighbors ops mt get idx rs vec 0 = Inr (rs_full ops rs', rs')"
    using n sz t(1) bb init s by (simp add: findNeighbors_def)
  ultimately show ?thesis by blast
qed

end

definition L2_Simple :: metric where
  "L2_Simple = \<lparr>m_evalMetric = L2_Simple_evalMetric, m_accum_dist = L2_Simple_accum_dist\<rparr>"

definition KNN_ops :: "real knn_set result_set_ops" where
  "KNN_ops = \<lparr>rs_worstDist = knn_worstDist, rs_addPoint = knn_addPoint, rs_full = knn_full\<rparr>"

definition Radius_ops :: "real radius_set result_set_ops" where
  "Radius_ops = \<lparr>rs_worstDist = radius_worstDist, rs_addPoint = radius_addPoint, rs_full = radius_full\<rparr>"

interpretation knn_search: kd_search knn_worstDist knn_addPoint "knn_holds mx cap" "\<lambda>d. d < mx"
    L2_Simple_evalMetric L2_Simple_accum_dist KNN_ops L2_Simple for mx cap
  by unfold_locales (simp_all add: KNN_ops_def L2_Simple_def)

interpretation radius_search: kd_search radius_worstDist radius_addPoint "radius_holds r" "\<lambda>_. True"
    L2_Simple_evalMetric L2_Simple_accum_dist Radius_ops L2_Simple for r
  by unfold_locales (simp_all add: Radius_ops_def L2_Simple_def)

text \<open>The candidates of a query over the first \<open>n\<close> points, as the reference of both searches.\<close>

definition candidates :: "data_source \<Rightarrow> nat \<Rightarrow> real list \<Rightarrow> nat \<Rightarrow> (real \<times> nat) multiset" where
  "candidates get ndim vec n = mset (map (\<lambda>p. (L2_Simple_evalMetric get vec p ndim, p)) [0..<n])"

lemma radius_search_found:
  assumes "index_ok get n idx" "0 < n"
  shows "\<exists>rs. findNeighbors Radius_ops L2_Simple get idx (RadiusResultSet r items) vec 0 = Inr (True, rs) \<and>
     image_mset prod.swap (mset (m_indices_dists rs)) =
       filter_mset (\<lambda>x. fst x < r) (candidates get (kd_dim idx) vec n)"
proof -
  have "radius_holds r {#} (RadiusResultSet r items)" by (simp add: radius_holds_def RadiusResultSet_def)
  from radius_search.findNeighbors_holds [OF assms this] show ?thesis
    by (auto simp: radius_search.found_def candidates_def radius_holds_def Radius_ops_def radius_full_def)
qed

subsection \<open>Properties\<close>

text \<open>
  Building an index over any data source terminates without an exception, and the tree it
  builds holds every point index exactly once, in leaves whose points lie on the right side of
  every cut above them, under the tight bounding box of the points.
\<close>

theorem buildIndex_total:
  assumes "0 < leaf_max_size"
  shows "\<exists>idx. buildIndex get n (KDTreeSingleIndexAdaptor 3 dimensionality n leaf_max_size) = Some (Inr idx) \<and>
     index_ok get n idx \<and> kd_dim idx = 3 \<and> distinct (vind idx) \<and> set (vind idx) = {0..<n}"
proof -
  let ?t = "KDTreeSingleIndexAdaptor 3 dimensionality n leaf_max_size"
  have t: "1 \<le> m_leaf_max_size ?t" "0 < kd_dim ?t" "kd_dim ?t = 3"
    using assms by (simp_all add: KDTreeSingleIndexAdaptor_def)
  obtain idx where b: "buildIndex get n ?t = Some (Inr idx)" "index_ok get n idx" "kd_dim idx = 3"
    using buildIndex_ok [OF t(1,2), of get n] t(3) by auto
  then have m: "mset (vind idx) = mset [0..<n]" by (simp add: index_ok_def)
  then have "distinct (vind idx)" by (metis distinct_upt mset_eq_imp_distinct_iff)
  moreover have "set (vind idx) = {0..<n}" using m by (metis set_mset_mset set_upt)
  ultimately show ?thesis using b by blast
qed

theorem buildIndex_total_witness:
  "\<exists>idx. buildIndex (\<lambda>p d. real (p * d)) 25 (KDTreeSingleIndexAdaptor 3 3 25 10) = Some (Inr idx) \<and>
     distinct (vind idx) \<and> set (vind idx) = {0..<25}"
  using buildIndex_total [of 10 "\<lambda>p d. real (p * d)" 25 3] by auto

text \<open>
  C11: the k-nearest search is exact. Over an index of at least one point, \<open>findNeighbors\<close> with
  a fresh \<open>KNNResultSet\<close> returns the nearest candidates, sorted by distance, at most the
  capacity of them and all when there are fewer: the branches it prunes never matter.
\<close>

theorem knn_search_exact:
  assumes "index_ok get n idx" "0 < n" "0 < cap"
    and "\<And>p. p < n \<Longrightarrow> L2_Simple_evalMetric get vec p (kd_dim idx) < mx"
  shows "\<exists>rs. findNeighbors KNN_ops L2_Simple get idx (knn_init mx (replicate cap 0) (replicate cap 0) (KNNResultSet cap)) vec 0 =
       Inr (knn_full rs, rs) \<and>
     nearest cap (candidates get (kd_dim idx) vec n) (knn_entries rs)"
proof -
  have "knn_holds mx cap {#} (knn_init mx (replicate cap 0) (replicate cap 0) (KNNResultSet cap))"
    using assms(3) by (rule knn_init_holds)
  from knn_search.findNeighbors_holds [OF assms(1,2) this assms(4)] obtain rs where
    f: "findNeighbors KNN_ops L2_Simple get idx (knn_init mx (replicate cap 0) (replicate cap 0) (KNNResultSet cap)) vec 0 =
       Inr (rs_full KNN_ops rs, rs)"
    and h: "knn_holds mx cap (candidates get (kd_dim idx) vec n) rs"
    by (auto simp: knn_search.found_def candidates_def)
  from h have "nearest cap (candidates get (kd_dim idx) vec n) (knn_entries rs)"
    by (auto simp: knn_holds_def)
  with f show ?thesis by (auto simp: KNN_ops_def)
qed

theorem knn_search_exact_witness:
  "\<exists>idx rs. buildIndex (\<lambda>p d. real (p * d)) 25 (KDTreeSingleIndexAdaptor 3 3 25 10) = Some (Inr idx) \<and>
     findNeighbors KNN_ops L2_Simple (\<lambda>p d. real (p * d)) idx
       (knn_init 1000000 (replicate 4 0) (replicate 4 0) (KNNResultSet 4)) [0, 0, 0] 0 = Inr (knn_full rs, rs) \<and>
     nearest 4 (candidates (\<lambda>p d. real (p * d)) 3 [0, 0, 0] 25) (knn_entries rs)"
proof -
  let ?g = "\<lambda>p d. real (p * d)"
  have "1 \<le> m_leaf_max_size (KDTreeSingleIndexAdaptor 3 3 25 10)" "0 < kd_dim (KDTreeSingleIndexAdaptor 3 3 25 10)"
    "kd_dim (KDTreeSingleIndexAdaptor 3 3 25 10) = 3" by (simp_all add: KDTreeSingleIndexAdaptor_def)
  with buildIndex_ok [OF this(1,2), of ?g 25] obtain idx where
    i: "buildIndex ?g 25 (KDTreeSingleIndexAdaptor 3 3 25 10) = Some (Inr idx)" "index_ok ?g 25 idx" "kd_dim idx = 3"
    by auto
  have "L2_Simple_evalMetric ?g [0, 0, 0] p (kd_dim idx) < 1000000" if "p < 25" for p
  proof -
    have "real p * real p \<le> 25 * 25" using that by (intro mult_mono) auto
    then show ?thesis by (simp add: i(3) L2_Simple_evalMetric_sum numeral_3_eq_3 power2_eq_square algebra_simps)
  qed
  from knn_search_exact [OF i(2) _ _ this, of 4] i show ?thesis by auto
qed

text \<open>
  The radius search is exact. It returns each point strictly within the radius once, with
  its distance, and no other.
\<close>

theorem radius_search_exact:
  assumes "index_ok get n idx" "0 < n"
  shows "\<exists>rs. findNeighbors Radius_ops L2_Simple get idx (RadiusResultSet r items) vec 0 = Inr (True, rs) \<and>
     image_mset prod.swap (mset (m_indices_dists rs)) =
       filter_mset (\<lambda>x. fst x < r) (candidates get (kd_dim idx) vec n)"
  using radius_search_found [OF assms] .

theorem radius_search_exact_witness:
  "\<exists>idx rs. buildIndex (\<lambda>p d. real (p * d)) 25 (KDTreeSingleIndexAdaptor 3 3 25 10) = Some (Inr idx) \<and>
     findNeighbors Radius_ops L2_Simple (\<lambda>p d. real (p * d)) idx (RadiusResultSet 9 []) [0, 0, 0] 0 = Inr (True, rs) \<and>
     image_mset prod.swap (mset (m_indices_dists rs)) =
       filter_mset (\<lambda>x. fst x < 9) (candidates (\<lambda>p d. real (p * d)) (kd_dim idx) [0, 0, 0] 25)"
proof -
  have "1 \<le> m_leaf_max_size (KDTreeSingleIndexAdaptor 3 3 25 10)" "0 < kd_dim (KDTreeSingleIndexAdaptor 3 3 25 10)"
    by (simp_all add: KDTreeSingleIndexAdaptor_def)
  with buildIndex_ok [OF this(1,2), of "\<lambda>p d. real (p * d)" 25] obtain idx where
    i: "buildIndex (\<lambda>p d. real (p * d)) 25 (KDTreeSingleIndexAdaptor 3 3 25 10) = Some (Inr idx)"
      "index_ok (\<lambda>p d. real (p * d)) 25 idx" by auto
  from radius_search_exact [OF i(2), of 9 "[]" "[0, 0, 0]"] i(1) show ?thesis by auto
qed

end
