(* ===== verification/MN_Geo.thy ===== *)
theory MN_Geo
  imports MN_EdgeNode NF_Search
begin

text \<open>
  \<open>Geo.h\<close> and \<open>Geo.cpp\<close>: the geographic lookup of an address in the MaxMind database and
  the kd-tree of the edge nodes' Cartesian coordinates.

  The database (GeoLite2PP) and the conversion of its strings to \<open>double\<close> are parameters:
  \<open>lookup_raw\<close>, \<open>get_field\<close> and \<open>stod\<close> return a value or throw. The tree is the model of
  nanoflann in the \<open>NF\<close> theories. A \<open>std::shared_ptr\<close> that may be null is an option.
\<close>

subsection \<open>The point cloud\<close>

type_synonym point_cloud = "edge_node list"

definition kdtree_get_point_count :: "point_cloud \<Rightarrow> nat" where
  "kdtree_get_point_count pts = length pts"

text \<open>\<open>kdtree_get_pt\<close> reads the vector with \<open>at\<close>, which throws out of range.\<close>

definition kdtree_get_pt :: "point_cloud \<Rightarrow> nat \<Rightarrow> nat \<Rightarrow> real result" where
  "kdtree_get_pt pts idx d =
     (if d = 0 then bindE (vec_at pts idx) (\<lambda>n. Inr (loc_x (getLocation n)))
      else if d = 1 then bindE (vec_at pts idx) (\<lambda>n. Inr (loc_y (getLocation n)))
      else bindE (vec_at pts idx) (\<lambda>n. Inr (loc_z (getLocation n))))"

text \<open>
  The tree reads the cloud through this function; \<open>cloud_reads_in_range\<close> below shows that the
  indices it reads at never make \<open>at\<close> throw.
\<close>

definition cloud_get :: "point_cloud \<Rightarrow> data_source" where
  "cloud_get pts idx d = (case kdtree_get_pt pts idx d of Inr v \<Rightarrow> v | Inl _ \<Rightarrow> 0)"

record tree_data =
  td_cloud :: point_cloud
  td_tree :: kd_index

subsection \<open>Geo\<close>

record 'r geo_db =
  lookup_raw :: "string \<Rightarrow> cpp_exception + 'r"
  get_field :: "'r \<Rightarrow> string list \<Rightarrow> cpp_exception + string"
  stod :: "string \<Rightarrow> cpp_exception + real"

record 'r geo =
  db :: "'r geo_db option"
  treeData :: "tree_data option"

definition Geo_default :: "'r geo" where
  "Geo_default = \<lparr>db = None, treeData = None\<rparr>"

text \<open>The other constructor opens the database, which may throw.\<close>

definition Geo :: "(string \<Rightarrow> cpp_exception + 'r geo_db) \<Rightarrow> string \<Rightarrow> cpp_exception + 'r geo" where
  "Geo open_db db_path = (case open_db db_path of
       Inl e \<Rightarrow> Inl e | Inr d \<Rightarrow> Inr \<lparr>db = Some d, treeData = None\<rparr>)"

text \<open>
  The body of the \<open>try\<close> block: the location as far as it was filled in, and the exception
  that ended it, if any. An empty field leaves the coordinate alone.
\<close>

definition lookup_try :: "'r geo_db \<Rightarrow> string \<Rightarrow> location \<Rightarrow> location \<times> cpp_exception option" where
  "lookup_try d i l =
     (case lookup_raw d i of Inl e \<Rightarrow> (l, Some e) | Inr res \<Rightarrow>
     (case get_field d res [''location'', ''latitude''] of Inl e \<Rightarrow> (l, Some e) | Inr latitude_str \<Rightarrow>
     (case get_field d res [''location'', ''longitude''] of Inl e \<Rightarrow> (l, Some e) | Inr longitude_str \<Rightarrow>
     (case (if latitude_str \<noteq> [] then map_sum id Some (stod d latitude_str) else Inr None) of
        Inl e \<Rightarrow> (l, Some e)
      | Inr lat \<Rightarrow>
          (let l = (case lat of None \<Rightarrow> l | Some v \<Rightarrow> l\<lparr>latitude := v\<rparr>) in
           case (if longitude_str \<noteq> [] then map_sum id Some (stod d longitude_str) else Inr None) of
             Inl e \<Rightarrow> (l, Some e)
           | Inr lon \<Rightarrow> ((case lon of None \<Rightarrow> l | Some v \<Rightarrow> l\<lparr>longitude := v\<rparr>), None))))))"

definition zero_location :: location where
  "zero_location = \<lparr>latitude = 0, longitude = 0, loc_x = 0, loc_y = 0, loc_z = 0\<rparr>"

text \<open>All three \<open>catch\<close> clauses only log; they cover the standard exceptions.\<close>

definition lookupCoordinates :: "'r geo \<Rightarrow> string \<Rightarrow> location result" where
  "lookupCoordinates g i =
     bindE (deref (db g)) (\<lambda>d.
       case lookup_try d i zero_location of
         (l, None) \<Rightarrow> Inr (convertToCartesian l)
       | (l, Some e) \<Rightarrow> if std_exception e then Inr (convertToCartesian l) else Inl (Throws e))"

definition buildTreeData :: "edge_node list \<Rightarrow> tree_data result" where
  "buildTreeData nodes =
     (let tree = KDTreeSingleIndexAdaptor 3 3 (kdtree_get_point_count nodes) 10
      in case buildIndex (cloud_get nodes) (kdtree_get_point_count nodes) tree of
           None \<Rightarrow> Inl Diverges
         | Some r \<Rightarrow> bindE r (\<lambda>tree. Inr \<lparr>td_cloud = nodes, td_tree = tree\<rparr>))"

definition setTreeData :: "tree_data \<Rightarrow> 'r geo \<Rightarrow> 'r geo" where
  "setTreeData td g = g\<lparr>treeData := Some td\<rparr>"

definition DBL_MAX :: real where
  "DBL_MAX = (2 - 1 / 2 ^ 52) * 2 ^ 1023"

text \<open>
  \<open>getNearestNodes\<close>: the two arrays are vectors of length \<open>n\<close>, filled with zeros; \<open>n\<close> is an
  \<open>int\<close>, so a negative one asks for an impossible length, and for 0 the addresses of the
  first elements do not exist. The whole index array is returned.
\<close>

definition getNearestNodes :: "'r geo \<Rightarrow> location \<Rightarrow> int \<Rightarrow> nat list result" where
  "getNearestNodes g l n =
     (if n < 0 then Inl (Throws Length_error)
      else if n = 0 then Inl Undefined
      else
        let ret_indices = replicate (nat n) 0;
            out_dist_sqr = replicate (nat n) 0;
            resultSet = knn_init DBL_MAX ret_indices out_dist_sqr (KNNResultSet (nat n));
            query_pt = [loc_x l, loc_y l, loc_z l]
        in bindE (deref (treeData g)) (\<lambda>td.
             bindE (findNeighbors KNN_ops L2_Simple (cloud_get (td_cloud td)) (td_tree td) resultSet query_pt 0)
               (\<lambda>(_, resultSet). Inr (indices resultSet))))"

subsection \<open>Correctness\<close>

definition tree_data_ok :: "tree_data \<Rightarrow> bool" where
  "tree_data_ok td \<longleftrightarrow>
     index_ok (cloud_get (td_cloud td)) (length (td_cloud td)) (td_tree td) \<and> kd_dim (td_tree td) = 3"

lemma buildTreeData_ok: "\<exists>td. buildTreeData nodes = Inr td \<and> tree_data_ok td \<and> td_cloud td = nodes"
proof -
  let ?t = "KDTreeSingleIndexAdaptor 3 3 (length nodes) 10"
  have "1 \<le> m_leaf_max_size ?t" "0 < kd_dim ?t" "kd_dim ?t = 3"
    by (simp_all add: KDTreeSingleIndexAdaptor_def)
  with buildIndex_ok [OF this(1,2), of "cloud_get nodes" "length nodes"] show ?thesis
    by (auto simp: buildTreeData_def kdtree_get_point_count_def tree_data_ok_def)
qed

lemma cloud_reads_in_range:
  assumes "index_ok get (length pts) idx" "p \<in> set (vind idx)"
  shows "kdtree_get_pt pts p d = Inr (cloud_get pts p d)"
proof -
  have "set (vind idx) = {0..<length pts}"
    using assms(1) unfolding index_ok_def by (metis set_mset_mset set_upt)
  with assms(2) show ?thesis by (simp add: cloud_get_def kdtree_get_pt_def)
qed

definition node_distance :: "location \<Rightarrow> edge_node list \<Rightarrow> nat \<Rightarrow> real" where
  "node_distance l nodes i = chord_sq l (getLocation (nodes ! i))"

lemma evalMetric_chord:
  "i < length pts \<Longrightarrow>
   L2_Simple_evalMetric (cloud_get pts) [loc_x l, loc_y l, loc_z l] i 3 = node_distance l pts i"
  by (simp add: L2_Simple_evalMetric_sum node_distance_def chord_sq_def cloud_get_def
      kdtree_get_pt_def numeral_3_eq_3 del: One_nat_def)

lemma findNeighbors_cloud:
  assumes td: "tree_data_ok td" and k: "0 < k"
    and near: "\<And>i. i < length (td_cloud td) \<Longrightarrow> node_distance l (td_cloud td) i < DBL_MAX"
  shows "\<exists>b rs. findNeighbors KNN_ops L2_Simple (cloud_get (td_cloud td)) (td_tree td)
       (knn_init DBL_MAX (replicate k 0) (replicate k 0) (KNNResultSet k)) [loc_x l, loc_y l, loc_z l] 0 = Inr (b, rs) \<and>
     knn_holds DBL_MAX k (mset (map (\<lambda>p. (node_distance l (td_cloud td) p, p)) [0..<length (td_cloud td)])) rs"
proof -
  let ?pts = "td_cloud td" and ?N = "length (td_cloud td)" and ?vec = "[loc_x l, loc_y l, loc_z l]"
  let ?rs = "knn_init DBL_MAX (replicate k 0) (replicate k 0) (KNNResultSet k)"
  have init: "knn_holds DBL_MAX k {#} ?rs" using k by (rule knn_init_holds)
  have idx: "index_ok (cloud_get ?pts) ?N (td_tree td)" and dim: "kd_dim (td_tree td) = 3"
    using td by (simp_all add: tree_data_ok_def)
  show ?thesis
  proof (cases "?N = 0")
    case True
    with idx have "m_size (td_tree td) = 0" by (simp add: index_ok_def)
    with True init show ?thesis by (intro exI [of _ False] exI [of _ ?rs]) (simp add: findNeighbors_def)
  next
    case False
    then have N: "0 < ?N" by simp
    have lim: "L2_Simple_evalMetric (cloud_get ?pts) ?vec p (kd_dim (td_tree td)) < DBL_MAX" if "p < ?N" for p
      using near [OF that] that by (simp add: dim evalMetric_chord)
    have eq: "map (\<lambda>p. (L2_Simple_evalMetric (cloud_get ?pts) ?vec p (kd_dim (td_tree td)), p)) [0..<?N] =
        map (\<lambda>p. (node_distance l ?pts p, p)) [0..<?N]"
      by (rule map_cong) (simp_all add: dim evalMetric_chord)
    from knn_search.findNeighbors_holds [OF idx N init lim] eq show ?thesis
      unfolding knn_search.found_def by (metis (no_types, lifting))
  qed
qed

lemma getNearestNodes_spec:
  assumes td: "treeData g = Some td" "tree_data_ok td" and n: "0 < n"
    and near: "\<And>i. i < length (td_cloud td) \<Longrightarrow> node_distance l (td_cloud td) i < DBL_MAX"
  shows "\<exists>is. getNearestNodes g l n = Inr (is @ replicate (nat n - min (nat n) (length (td_cloud td))) 0) \<and>
     nearest_indices (node_distance l (td_cloud td)) (length (td_cloud td))
       (min (nat n) (length (td_cloud td))) is"
proof -
  have k: "0 < nat n" using n by simp
  from findNeighbors_cloud [OF td(2) k near] obtain b rs where
    f: "findNeighbors KNN_ops L2_Simple (cloud_get (td_cloud td)) (td_tree td)
       (knn_init DBL_MAX (replicate (nat n) 0) (replicate (nat n) 0) (KNNResultSet (nat n)))
       [loc_x l, loc_y l, loc_z l] 0 = Inr (b, rs)"
    and h: "knn_holds DBL_MAX (nat n) (mset (map (\<lambda>p. (node_distance l (td_cloud td) p, p)) [0..<length (td_cloud td)])) rs"
    by blast
  have "getNearestNodes g l n = Inr (indices rs)"
    using n td(1) f by (simp add: getNearestNodes_def Let_def)
  with knn_holds_indices [OF h] show ?thesis by auto
qed

text \<open>Every location on the sphere is nearer than the largest double.\<close>

lemma chord_sq_bound:
  assumes "on_sphere p" "on_sphere q"
  shows "chord_sq p q \<le> 4 * EARTH_RADIUS\<^sup>2"
proof -
  have "chord_sq p q + ((loc_x p + loc_x q)\<^sup>2 + (loc_y p + loc_y q)\<^sup>2 + (loc_z p + loc_z q)\<^sup>2) =
      2 * (loc_x p)\<^sup>2 + 2 * (loc_x q)\<^sup>2 + 2 * (loc_y p)\<^sup>2 + 2 * (loc_y q)\<^sup>2 + 2 * (loc_z p)\<^sup>2 + 2 * (loc_z q)\<^sup>2"
    unfolding chord_sq_def power2_sum power2_diff by linarith
  also have "\<dots> = 4 * EARTH_RADIUS\<^sup>2" using assms unfolding on_sphere_def by linarith
  finally show ?thesis by (smt (verit) zero_le_power2)
qed

lemma on_sphere_near:
  assumes "on_sphere p" "on_sphere q"
  shows "chord_sq p q < DBL_MAX"
proof -
  have "(4 * EARTH_RADIUS\<^sup>2 :: real) < 2 ^ 30" by (simp add: EARTH_RADIUS_def)
  also have "(2 ^ 30 :: real) \<le> 2 ^ 1023" by (rule power_increasing) simp_all
  also have "(2 ^ 1023 :: real) \<le> (2 - 1 / 2 ^ 52) * 2 ^ 1023"
    using mult_right_mono [of 1 "2 - 1 / 2 ^ 52" "2 ^ 1023 :: real"] by simp
  finally show ?thesis using chord_sq_bound [OF assms] by (simp add: DBL_MAX_def)
qed

text \<open>
  What \<open>lookupCoordinates\<close> returns is always a converted location, so on the sphere; without
  coordinates it is the point at latitude and longitude 0.
\<close>

lemma lookupCoordinates_converted:
  "lookupCoordinates g i = Inr l \<Longrightarrow> \<exists>l'. l = convertToCartesian l'"
proof -
  assume a: "lookupCoordinates g i = Inr l"
  then obtain d where "db g = Some d" by (cases "db g") (auto simp: lookupCoordinates_def)
  with a show ?thesis
    by (cases "lookup_try d i zero_location"; cases "snd (lookup_try d i zero_location)")
      (auto simp: lookupCoordinates_def split: if_splits)
qed

lemma lookupCoordinates_on_sphere: "lookupCoordinates g i = Inr l \<Longrightarrow> on_sphere l"
  using lookupCoordinates_converted [of g i l] by auto

lemma lookup_try_fields:
  assumes "lookup_try d i l = (l', e)"
  shows "loc_x l' = loc_x l" "loc_y l' = loc_y l" "loc_z l' = loc_z l"
  using assms by (auto simp: lookup_try_def Let_def split: sum.splits option.splits if_splits)

lemma lookupCoordinates_not_found:
  assumes "db g = Some d" "lookup_raw d i = Inl e" "std_exception e"
  shows "lookupCoordinates g i = Inr (convertToCartesian zero_location)"
  using assms by (simp add: lookupCoordinates_def lookup_try_def)

lemma lookupCoordinates_total:
  assumes "db g = Some d" "\<And>l e. lookup_try d i zero_location = (l, Some e) \<Longrightarrow> std_exception e"
  shows "\<exists>l. lookupCoordinates g i = Inr l"
proof (cases "lookup_try d i zero_location")
  case (Pair l oe)
  with assms show ?thesis by (cases oe) (auto simp: lookupCoordinates_def)
qed

lemma zero_cartesian:
  "convertToCartesian zero_location =
     \<lparr>latitude = 0, longitude = 0, loc_x = EARTH_RADIUS, loc_y = 0, loc_z = 0\<rparr>"
  by (simp add: convertToCartesian_def zero_location_def)

subsection \<open>Properties\<close>

text \<open>
  C33: the metric by which the kd-tree searches, the squared straight-line distance of the
  Cartesian coordinates, orders edge nodes exactly as their great-circle distance from the
  client does.
\<close>

theorem tree_metric_is_geographic:
  assumes "i < length pts" "j < length pts"
    and "getLocation (pts ! i) = convertToCartesian a" "getLocation (pts ! j) = convertToCartesian b"
    and "l = convertToCartesian q"
  shows "L2_Simple_evalMetric (cloud_get pts) [loc_x l, loc_y l, loc_z l] i 3
        \<le> L2_Simple_evalMetric (cloud_get pts) [loc_x l, loc_y l, loc_z l] j 3
     \<longleftrightarrow> great_circle q a \<le> great_circle q b"
  using assms by (simp only: evalMetric_chord node_distance_def great_circle_mono)

theorem tree_metric_is_geographic_witness:
  "L2_Simple_evalMetric (cloud_get [setLocation (EdgeNode zero_location ''1.1.1.1'' 80 ''0xab'' 0)
         (convertToCartesian zero_location)]) [EARTH_RADIUS, 0, 0] 0 3
     \<le> L2_Simple_evalMetric (cloud_get [setLocation (EdgeNode zero_location ''1.1.1.1'' 80 ''0xab'' 0)
         (convertToCartesian zero_location)]) [EARTH_RADIUS, 0, 0] 0 3
   \<longleftrightarrow> great_circle zero_location zero_location \<le> great_circle zero_location zero_location"
  using tree_metric_is_geographic [of 0 "[setLocation (EdgeNode zero_location ''1.1.1.1'' 80 ''0xab'' 0)
         (convertToCartesian zero_location)]" 0 zero_location zero_location "convertToCartesian zero_location" zero_location]
  by (simp add: zero_cartesian)

text \<open>
  A lookup never fails on an address that the database does not know or whose coordinates
  do not parse: it returns a converted location, so a point on the sphere, and without usable
  coordinates it is the point of latitude and longitude 0, whose Cartesian x is the earth's
  radius.
\<close>

theorem lookupCoordinates_never_throws:
  assumes "db g = Some d" "\<And>l e. lookup_try d i zero_location = (l, Some e) \<Longrightarrow> std_exception e"
  shows "\<exists>l. lookupCoordinates g i = Inr (convertToCartesian l) \<and> on_sphere (convertToCartesian l) \<and>
     (lookup_raw d i \<in> range Inl \<longrightarrow> convertToCartesian l =
        \<lparr>latitude = 0, longitude = 0, loc_x = EARTH_RADIUS, loc_y = 0, loc_z = 0\<rparr>)"
proof -
  obtain l where l: "lookupCoordinates g i = Inr l" using lookupCoordinates_total [OF assms(1), of i] assms(2) by blast
  then obtain l' where l': "l = convertToCartesian l'" using lookupCoordinates_converted by blast
  have "l = convertToCartesian zero_location" if raw: "lookup_raw d i = Inl e" for e
  proof -
    have "std_exception e" using assms(2) [of zero_location e] raw by (simp add: lookup_try_def)
    from lookupCoordinates_not_found [OF assms(1) raw this] l show ?thesis by simp
  qed
  with l l' zero_cartesian show ?thesis by auto
qed

theorem lookupCoordinates_never_throws_witness:
  "\<exists>l. lookupCoordinates \<lparr>db = Some \<lparr>lookup_raw = (\<lambda>_. Inl Out_of_range), get_field = (\<lambda>_ _. Inr ''''),
         stod = (\<lambda>_. Inl Invalid_argument)\<rparr>, treeData = None\<rparr> ''10.0.0.1'' = Inr (convertToCartesian l) \<and>
     loc_x (convertToCartesian l) = EARTH_RADIUS"
  using lookupCoordinates_never_throws [of "\<lparr>db = Some \<lparr>lookup_raw = (\<lambda>_. Inl Out_of_range), get_field = (\<lambda>_ _. Inr ''''),
         stod = (\<lambda>_. Inl Invalid_argument)\<rparr>, treeData = None\<rparr>" _ "''10.0.0.1''"]
  by (auto simp: lookup_try_def std_exception_def simp del: convertToCartesian_sel)

end
