(* ===== verification/MN_NetworkState.thy ===== *)
theory MN_NetworkState
  imports MN_Config MN_Geo
begin

text \<open>
  \<open>NetworkState.h\<close> and \<open>NetworkState.cpp\<close>: the list of edge nodes of the peer-to-peer
  network, replaced by every poll of the gateway, and the nearest-node queries on it.

  \<open>folly::dynamic\<close> and \<open>folly::parseJson\<close> are parameters (\<open>dynamic_lib\<close>): every accessor returns
  or throws. \<open>items\<close> gives the members of an object in its iteration order. The clock is the
  argument \<open>now\<close>, an \<open>int64_t\<close>; subtracting timestamps may overflow, which is undefined.
  The configuration is a shared object: the constructor may switch \<open>geo_ip_enabled\<close> off in it.
  The gateway client (\<open>libs/httplib.h\<close>) is represented by the response it returned.
\<close>

record 'd dynamic_lib =
  parseJson :: "string \<Rightarrow> cpp_exception + 'd"
  d_index :: "'d \<Rightarrow> string \<Rightarrow> cpp_exception + 'd"
  d_items :: "'d \<Rightarrow> cpp_exception + ('d \<times> 'd) list"
  d_getString :: "'d \<Rightarrow> cpp_exception + string"
  d_asInt :: "'d \<Rightarrow> cpp_exception + 64 word"
  d_empty :: "'d \<Rightarrow> cpp_exception + bool"

record 'r network_state =
  edgeNodes :: "edge_node list"
  ns_geo :: "'r geo option"

subsection \<open>Construction\<close>

text \<open>A \<open>std::system_error\<close> while opening the database disables the feature.\<close>

definition NetworkState :: "(string \<Rightarrow> cpp_exception + 'r geo_db) \<Rightarrow> masternode_config \<Rightarrow>
    (masternode_config \<times> 'r network_state) result" where
  "NetworkState open_db config =
     (if geo_ip_enabled config
      then case Geo open_db (geoip_path config @ ''GeoLite2-City.mmdb'') of
             Inr g \<Rightarrow> Inr (config, \<lparr>edgeNodes = [], ns_geo = Some g\<rparr>)
           | Inl System_error \<Rightarrow>
               Inr (config\<lparr>geo_ip_enabled := False\<rparr>, \<lparr>edgeNodes = [], ns_geo = None\<rparr>)
           | Inl e \<Rightarrow> Inl (Throws e)
      else Inr (config, \<lparr>edgeNodes = [], ns_geo = None\<rparr>))"

definition NetworkState_with :: "'r geo \<Rightarrow> 'r network_state" where
  "NetworkState_with g = \<lparr>edgeNodes = [], ns_geo = Some g\<rparr>"

subsection \<open>parseStateUpdate\<close>

definition sub_i64 :: "64 word \<Rightarrow> 64 word \<Rightarrow> int result" where
  "sub_i64 a b = (let d = sint a - sint b in if - (2 ^ 63) \<le> d \<and> d < 2 ^ 63 then Inr d else Inl Undefined)"

definition data_of :: "'d dynamic_lib \<Rightarrow> 'd \<Rightarrow> string \<Rightarrow> 'd result" where
  "data_of D value key = bindE (liftE (d_index D value key)) (\<lambda>v. liftE (d_index D v ''data''))"

text \<open>The body of the \<open>try\<close> block; \<open>None\<close> is \<open>continue\<close>.\<close>

definition parse_entry :: "'d dynamic_lib \<Rightarrow> masternode_config \<Rightarrow> location \<Rightarrow> 64 word \<Rightarrow> bool \<Rightarrow>
    'r geo option \<Rightarrow> string \<Rightarrow> 'd \<Rightarrow> edge_node option result" where
  "parse_entry D config garbage now ignoreHeartbeat geo nodeAddress value =
     bindE (bindE (data_of D value ''ip_address'') (liftE \<circ> d_getString D)) (\<lambda>addr.
     bindE (bindE (data_of D value ''content_port'') (liftE \<circ> d_asInt D)) (\<lambda>prt.
     bindE (bindE (data_of D value ''heartbeat'') (liftE \<circ> d_asInt D)) (\<lambda>heartbeat.
     bindE (bindE (data_of D value ''disk_content'') (liftE \<circ> d_empty D)) (\<lambda>hasNoContent.
     bindE (if ignoreHeartbeat then Inr False
            else bindE (sub_i64 now heartbeat) (\<lambda>age. Inr (age > 2 * 60))) (\<lambda>stale.
       if stale then Inr None
       else if hasNoContent then Inr None
       else let node = EdgeNode garbage addr (ucast prt) nodeAddress (ucast heartbeat)
            in if geo_ip_enabled config
               then bindE (deref geo) (\<lambda>g. bindE (lookupCoordinates g addr) (\<lambda>l. Inr (Some (setLocation node l))))
               else Inr (Some node))))))"

fun parse_nodes :: "'d dynamic_lib \<Rightarrow> masternode_config \<Rightarrow> location \<Rightarrow> 64 word \<Rightarrow> bool \<Rightarrow>
    'r geo option \<Rightarrow> ('d \<times> 'd) list \<Rightarrow> edge_node list \<Rightarrow> edge_node list result" where
  "parse_nodes D config garbage now ignoreHeartbeat geo [] newList = Inr newList"
| "parse_nodes D config garbage now ignoreHeartbeat geo ((key, value) # pairs) newList =
     bindE (liftE (d_getString D key)) (\<lambda>nodeAddress.
     bindE (catch_std (parse_entry D config garbage now ignoreHeartbeat geo (map tolower nodeAddress) value) None)
       (\<lambda>node. parse_nodes D config garbage now ignoreHeartbeat geo pairs
                 (case node of None \<Rightarrow> newList | Some n \<Rightarrow> newList @ [n])))"

definition parse_new_list :: "'d dynamic_lib \<Rightarrow> masternode_config \<Rightarrow> location \<Rightarrow> 64 word \<Rightarrow> string \<Rightarrow> bool \<Rightarrow>
    'r network_state \<Rightarrow> edge_node list result" where
  "parse_new_list D config garbage now body ignoreHeartbeat ns =
     bindE (liftE (parseJson D body)) (\<lambda>state.
     bindE (liftE (d_index D state ''response'')) (\<lambda>response.
     bindE (liftE (d_index D response ''node_data_map'')) (\<lambda>nodeMap.
     bindE (liftE (d_items D nodeMap)) (\<lambda>pairs.
       parse_nodes D config garbage now ignoreHeartbeat (ns_geo ns) pairs []))))"

text \<open>The two writes, each under its own lock: first the tree, then the list.\<close>

definition swap_tree :: "masternode_config \<Rightarrow> edge_node list \<Rightarrow> 'r network_state \<Rightarrow> 'r network_state result" where
  "swap_tree config newList ns =
     (if geo_ip_enabled config
      then bindE (deref (ns_geo ns)) (\<lambda>g.
           bindE (buildTreeData newList) (\<lambda>td. Inr (ns\<lparr>ns_geo := Some (setTreeData td g)\<rparr>)))
      else Inr ns)"

definition swap_list :: "edge_node list \<Rightarrow> 'r network_state \<Rightarrow> 'r network_state" where
  "swap_list newList ns = ns\<lparr>edgeNodes := newList\<rparr>"

definition parseStateUpdate :: "'d dynamic_lib \<Rightarrow> masternode_config \<Rightarrow> location \<Rightarrow> 64 word \<Rightarrow> string \<Rightarrow> bool \<Rightarrow>
    'r network_state \<Rightarrow> 'r network_state result" where
  "parseStateUpdate D config garbage now body ignoreHeartbeat ns =
     bindE (parse_new_list D config garbage now body ignoreHeartbeat ns) (\<lambda>newList.
     bindE (swap_tree config newList ns) (\<lambda>ns. Inr (swap_list newList ns)))"

subsection \<open>Queries\<close>

definition getEdgeNodeHostnames :: "masternode_config \<Rightarrow> 'r network_state \<Rightarrow> string list" where
  "getEdgeNodeHostnames config ns =
     foldl (\<lambda>v node. v @ [getFQDN node (pool_domain config) (cdn_subdomain config)]) [] (edgeNodes ns)"

definition setEdgeNodes :: "edge_node list \<Rightarrow> 'r network_state \<Rightarrow> 'r network_state" where
  "setEdgeNodes nodes ns = ns\<lparr>edgeNodes := nodes\<rparr>"

definition getEdgeNodes :: "'r network_state \<Rightarrow> edge_node list" where
  "getEdgeNodes ns = edgeNodes ns"

definition getNearestEdgeNodes :: "'r network_state \<Rightarrow> location \<Rightarrow> int \<Rightarrow> edge_node list result" where
  "getNearestEdgeNodes ns l n =
     bindE (deref (ns_geo ns)) (\<lambda>g.
     bindE (getNearestNodes g l n) (\<lambda>inds. mapE (vec_at (edgeNodes ns)) inds))"

definition getNearestEdgeNodes_ip :: "'r network_state \<Rightarrow> string \<Rightarrow> int \<Rightarrow> edge_node list result" where
  "getNearestEdgeNodes_ip ns addr n =
     bindE (deref (ns_geo ns)) (\<lambda>g.
     bindE (lookupCoordinates g addr) (\<lambda>l. getNearestEdgeNodes ns l n))"

text \<open>One round of the polling function, given the response of the gateway, if there was one.\<close>

definition poll_gateway :: "'d dynamic_lib \<Rightarrow> masternode_config \<Rightarrow> location \<Rightarrow> 64 word \<Rightarrow>
    (int \<times> string) option \<Rightarrow> 'r network_state \<Rightarrow> 'r network_state result" where
  "poll_gateway D config garbage now res ns =
     (case res of
        Some (status, body) \<Rightarrow>
          if status = 200 then parseStateUpdate D config garbage now body (ignore_heartbeat config) ns
          else Inr ns
      | None \<Rightarrow> Inr ns)"

subsection \<open>Which entries become edge nodes\<close>

text \<open>
  The reference: an entry whose four fields can be read is published if its heartbeat is not
  older than two minutes (or heartbeats are ignored) and it has content.
\<close>

record entry_fields =
  e_ip :: string
  e_port :: "64 word"
  e_heartbeat :: "64 word"
  e_no_content :: bool

definition read_field :: "'d dynamic_lib \<Rightarrow> ('d \<Rightarrow> cpp_exception + 'a) \<Rightarrow> 'd \<Rightarrow> string \<Rightarrow> 'a option" where
  "read_field D get value key =
     (case d_index D value key of Inl _ \<Rightarrow> None | Inr v \<Rightarrow>
      case d_index D v ''data'' of Inl _ \<Rightarrow> None | Inr w \<Rightarrow>
      case get w of Inl _ \<Rightarrow> None | Inr a \<Rightarrow> Some a)"

definition entry_of :: "'d dynamic_lib \<Rightarrow> 'd \<Rightarrow> entry_fields option" where
  "entry_of D value =
     (case (read_field D (d_getString D) value ''ip_address'', read_field D (d_asInt D) value ''content_port'',
            read_field D (d_asInt D) value ''heartbeat'', read_field D (d_empty D) value ''disk_content'') of
        (Some i, Some p, Some h, Some e) \<Rightarrow>
          Some \<lparr>e_ip = i, e_port = p, e_heartbeat = h, e_no_content = e\<rparr>
      | _ \<Rightarrow> None)"

definition fresh :: "64 word \<Rightarrow> entry_fields \<Rightarrow> bool" where
  "fresh now e \<longleftrightarrow> sint now - sint (e_heartbeat e) \<le> 120"

definition published :: "bool \<Rightarrow> 64 word \<Rightarrow> entry_fields \<Rightarrow> bool" where
  "published ignoreHeartbeat now e \<longleftrightarrow> (ignoreHeartbeat \<or> fresh now e) \<and> \<not> e_no_content e"

definition node_of :: "location \<Rightarrow> string \<Rightarrow> entry_fields \<Rightarrow> edge_node" where
  "node_of garbage addr e = EdgeNode garbage (e_ip e) (ucast (e_port e)) (map tolower addr) (ucast (e_heartbeat e))"

definition geo_location :: "'r geo \<Rightarrow> string \<Rightarrow> location" where
  "geo_location g i = (case lookupCoordinates g i of Inr l \<Rightarrow> l | Inl _ \<Rightarrow> zero_location)"

definition located :: "masternode_config \<Rightarrow> 'r geo option \<Rightarrow> edge_node \<Rightarrow> edge_node" where
  "located config geo n =
     (case geo of Some g \<Rightarrow> if geo_ip_enabled config then setLocation n (geo_location g (node_ip n)) else n
                | None \<Rightarrow> n)"

definition publish_entry :: "'d dynamic_lib \<Rightarrow> masternode_config \<Rightarrow> location \<Rightarrow> 64 word \<Rightarrow> bool \<Rightarrow>
    'r geo option \<Rightarrow> string \<times> 'd \<Rightarrow> edge_node option" where
  "publish_entry D config garbage now ignoreHeartbeat geo = (\<lambda>(addr, value).
     case entry_of D value of
       None \<Rightarrow> None
     | Some e \<Rightarrow> if published ignoreHeartbeat now e
                 then Some (located config geo (node_of garbage addr e)) else None)"

text \<open>
  What the update relies on: the accessors throw standard exceptions only, the clock and the
  heartbeats do not overflow, and with the geographic feature on there is a database whose
  lookups return.
\<close>

definition json_std :: "'d dynamic_lib \<Rightarrow> bool" where
  "json_std D \<longleftrightarrow>
     (\<forall>v k e. d_index D v k = Inl e \<longrightarrow> std_exception e) \<and>
     (\<forall>v e. d_getString D v = Inl e \<longrightarrow> std_exception e) \<and>
     (\<forall>v e. d_asInt D v = Inl e \<longrightarrow> std_exception e) \<and>
     (\<forall>v e. d_empty D v = Inl e \<longrightarrow> std_exception e)"

definition heartbeats_ok :: "'d dynamic_lib \<Rightarrow> 64 word \<Rightarrow> 'd \<Rightarrow> bool" where
  "heartbeats_ok D now value \<longleftrightarrow>
     (\<forall>e. entry_of D value = Some e \<longrightarrow>
        - (2 ^ 63) \<le> sint now - sint (e_heartbeat e) \<and> sint now - sint (e_heartbeat e) < 2 ^ 63)"

definition geo_ready :: "masternode_config \<Rightarrow> 'r geo option \<Rightarrow> bool" where
  "geo_ready config geo \<longleftrightarrow>
     (geo_ip_enabled config \<longrightarrow> (\<exists>g. geo = Some g \<and> (\<forall>i. \<exists>l. lookupCoordinates g i = Inr l)))"

lemma read_field_run:
  "bindE (data_of D itm key) (liftE \<circ> get) =
     (case read_field D get itm key of Some a \<Rightarrow> Inr a
      | None \<Rightarrow> Inl (Throws (case d_index D itm key of Inl e \<Rightarrow> e | Inr v \<Rightarrow>
                           case d_index D v ''data'' of Inl e \<Rightarrow> e | Inr w \<Rightarrow> projl (get w))))"
  by (auto simp: read_field_def data_of_def liftE_def split: sum.splits option.splits)

lemma read_field_std:
  assumes "\<forall>v k e. d_index D v k = Inl e \<longrightarrow> std_exception e" "\<forall>v e. get v = Inl e \<longrightarrow> std_exception e"
    "read_field D get itm key = None"
  shows "\<exists>e. std_exception e \<and> bindE (data_of D itm key) (liftE \<circ> get) = Inl (Throws e)"
  using assms by (fastforce simp: read_field_def data_of_def liftE_def split: sum.splits)

lemma read_field_Some:
  "read_field D get itm key = Some a \<Longrightarrow> bindE (data_of D itm key) (liftE \<circ> get) = Inr a"
  by (simp add: read_field_run)

lemma parse_entry_none:
  assumes "json_std D" "entry_of D itm = None"
  shows "\<exists>e. std_exception e \<and>
     parse_entry D config garbage now ignoreHeartbeat geo addr itm = Inl (Throws e)"
proof -
  have idx: "\<forall>v k e. d_index D v k = Inl e \<longrightarrow> std_exception e"
    and str: "\<forall>v e. d_getString D v = Inl e \<longrightarrow> std_exception e"
    and int: "\<forall>v e. d_asInt D v = Inl e \<longrightarrow> std_exception e"
    and emp: "\<forall>v e. d_empty D v = Inl e \<longrightarrow> std_exception e"
    using assms(1) by (simp_all add: json_std_def)
  note std = read_field_std [OF idx str, of itm "''ip_address''"]
    read_field_std [OF idx int, of itm "''content_port''"]
    read_field_std [OF idx int, of itm "''heartbeat''"]
    read_field_std [OF idx emp, of itm "''disk_content''"]
  show ?thesis
    apply (cases "read_field D (d_getString D) itm ''ip_address''")
     apply (drule std(1); clarsimp simp: parse_entry_def)
    apply (cases "read_field D (d_asInt D) itm ''content_port''")
     apply (drule std(2); clarsimp simp: parse_entry_def read_field_Some)
    apply (cases "read_field D (d_asInt D) itm ''heartbeat''")
     apply (drule std(3); clarsimp simp: parse_entry_def read_field_Some)
    apply (cases "read_field D (d_empty D) itm ''disk_content''")
     apply (drule std(4); clarsimp simp: parse_entry_def read_field_Some)
    using assms(2) by (simp add: entry_of_def)
qed

lemma parse_entry_some:
  assumes "entry_of D itm = Some e" "heartbeats_ok D now itm" "geo_ready config geo"
  shows "parse_entry D config garbage now ignoreHeartbeat geo addr itm =
     Inr (if published ignoreHeartbeat now e
          then Some (located config geo (EdgeNode garbage (e_ip e) (ucast (e_port e)) addr (ucast (e_heartbeat e))))
          else None)"
proof -
  have f: "read_field D (d_getString D) itm ''ip_address'' = Some (e_ip e)"
    "read_field D (d_asInt D) itm ''content_port'' = Some (e_port e)"
    "read_field D (d_asInt D) itm ''heartbeat'' = Some (e_heartbeat e)"
    "read_field D (d_empty D) itm ''disk_content'' = Some (e_no_content e)"
    using assms(1) by (auto simp: entry_of_def split: option.splits)
  have b: "sub_i64 now (e_heartbeat e) = Inr (sint now - sint (e_heartbeat e))"
    using assms(1,2) by (auto simp: heartbeats_ok_def sub_i64_def Let_def)
  have g: "\<exists>g. geo = Some g \<and> lookupCoordinates g i = Inr (geo_location g i)" if en: "geo_ip_enabled config" for i
  proof -
    obtain g l where "geo = Some g" "lookupCoordinates g i = Inr l"
      using assms(3) en unfolding geo_ready_def by blast
    then show ?thesis by (simp add: geo_location_def)
  qed
  show ?thesis
    using g [of "e_ip e"] b
    by (auto simp: parse_entry_def f [THEN read_field_Some] published_def fresh_def located_def Let_def
        EdgeNode_def split: option.splits)
qed

definition pair_ok :: "'d dynamic_lib \<Rightarrow> 64 word \<Rightarrow> 'd \<times> 'd \<Rightarrow> bool" where
  "pair_ok D now = (\<lambda>(key, itm). (\<exists>a. d_getString D key = Inr a) \<and> heartbeats_ok D now itm)"

definition key_string :: "'d dynamic_lib \<Rightarrow> 'd \<Rightarrow> string" where
  "key_string D key = (case d_getString D key of Inr a \<Rightarrow> a | Inl _ \<Rightarrow> [])"

text \<open>The reference for a whole update: the published entries, in order.\<close>

definition published_nodes :: "'d dynamic_lib \<Rightarrow> masternode_config \<Rightarrow> location \<Rightarrow> 64 word \<Rightarrow> bool \<Rightarrow>
    'r geo option \<Rightarrow> ('d \<times> 'd) list \<Rightarrow> edge_node list" where
  "published_nodes D config garbage now ignoreHeartbeat geo pairs =
     concat (map (\<lambda>(key, itm).
       case publish_entry D config garbage now ignoreHeartbeat geo (key_string D key, itm) of
         None \<Rightarrow> [] | Some n \<Rightarrow> [n]) pairs)"

lemma published_nodes_simps [simp]:
  "published_nodes D config garbage now ign geo [] = []"
  "published_nodes D config garbage now ign geo ((key, itm) # pairs) =
     (case publish_entry D config garbage now ign geo (key_string D key, itm) of
        None \<Rightarrow> [] | Some n \<Rightarrow> [n]) @ published_nodes D config garbage now ign geo pairs"
  by (simp_all add: published_nodes_def)

lemma catch_parse_entry:
  assumes "json_std D" "geo_ready config geo" "heartbeats_ok D now itm"
  shows "catch_std (parse_entry D config garbage now ign geo (map tolower addr) itm) None =
     Inr (publish_entry D config garbage now ign geo (addr, itm))"
proof (cases "entry_of D itm")
  case None
  from parse_entry_none [OF assms(1) None, of config garbage now ign geo "map tolower addr"] None show ?thesis
    by (auto simp: publish_entry_def catch_std_def)
next
  case (Some e)
  then show ?thesis using assms(2,3)
    by (simp add: parse_entry_some publish_entry_def node_of_def catch_std_def)
qed

lemma parse_nodes_eq:
  assumes "json_std D" "geo_ready config geo" "\<And>p. p \<in> set pairs \<Longrightarrow> pair_ok D now p"
  shows "parse_nodes D config garbage now ign geo pairs acc =
     Inr (acc @ published_nodes D config garbage now ign geo pairs)"
  using assms(3)
proof (induction pairs arbitrary: acc)
  case (Cons p pairs)
  obtain key itm where p: "p = (key, itm)" by (cases p)
  then obtain a where a: "d_getString D key = Inr a" and hb: "heartbeats_ok D now itm"
    using Cons.prems [of p] by (auto simp: pair_ok_def)
  have ks: "key_string D key = a" by (simp add: key_string_def a)
  have rest: "\<And>q. q \<in> set pairs \<Longrightarrow> pair_ok D now q" using Cons.prems by simp
  show ?case
    unfolding p by (simp add: a ks catch_parse_entry [OF assms(1,2) hb] Cons.IH [OF rest] split: option.split)
qed simp

definition nodes_of :: "'d dynamic_lib \<Rightarrow> string \<Rightarrow> cpp_exception + ('d \<times> 'd) list" where
  "nodes_of D body =
     (case parseJson D body of Inl e \<Rightarrow> Inl e | Inr state \<Rightarrow>
      case d_index D state ''response'' of Inl e \<Rightarrow> Inl e | Inr response \<Rightarrow>
      case d_index D response ''node_data_map'' of Inl e \<Rightarrow> Inl e | Inr nodeMap \<Rightarrow> d_items D nodeMap)"

lemma parse_new_list_eq:
  "parse_new_list D config garbage now body ign ns =
     (case nodes_of D body of Inl e \<Rightarrow> Inl (Throws e)
      | Inr pairs \<Rightarrow> parse_nodes D config garbage now ign (ns_geo ns) pairs [])"
  by (auto simp: parse_new_list_def nodes_of_def liftE_def split: sum.splits)

text \<open>The state between two updates: the tree was built over the list it is queried with.\<close>

definition ns_consistent :: "masternode_config \<Rightarrow> 'r network_state \<Rightarrow> bool" where
  "ns_consistent config ns \<longleftrightarrow>
     (geo_ip_enabled config \<longrightarrow>
        (\<exists>g. ns_geo ns = Some g \<and>
           (case treeData g of None \<Rightarrow> edgeNodes ns = []
            | Some td \<Rightarrow> tree_data_ok td \<and> td_cloud td = edgeNodes ns)))"

lemma NetworkState_consistent:
  "NetworkState open_db config = Inr (config', ns) \<Longrightarrow> ns_consistent config' ns \<and> edgeNodes ns = []"
  by (auto simp: NetworkState_def Geo_def ns_consistent_def split: if_splits sum.splits cpp_exception.splits)

lemma swap_tree_ok:
  assumes "geo_ip_enabled config" "ns_geo ns = Some g"
  shows "\<exists>td. swap_tree config newList ns = Inr (ns\<lparr>ns_geo := Some (g\<lparr>treeData := Some td\<rparr>)\<rparr>) \<and>
     tree_data_ok td \<and> td_cloud td = newList"
  using buildTreeData_ok [of newList] assms by (auto simp: swap_tree_def setTreeData_def)

lemma parseStateUpdate_list:
  assumes "json_std D" "geo_ready config (ns_geo ns)"
    and "nodes_of D body = Inr pairs" "\<And>p. p \<in> set pairs \<Longrightarrow> pair_ok D now p"
  shows "\<exists>ns'. parseStateUpdate D config garbage now body ign ns = Inr ns' \<and>
     edgeNodes ns' = published_nodes D config garbage now ign (ns_geo ns) pairs \<and>
     ns_consistent config ns' \<and>
     map_option db (ns_geo ns') = map_option db (ns_geo ns)"
proof -
  let ?l = "published_nodes D config garbage now ign (ns_geo ns) pairs"
  have l: "parse_new_list D config garbage now body ign ns = Inr ?l"
    using parse_nodes_eq [OF assms(1,2,4), of pairs garbage ign "[]"] assms(3)
    by (simp add: parse_new_list_eq)
  show ?thesis
  proof (cases "geo_ip_enabled config")
    case True
    then obtain g where g: "ns_geo ns = Some g" using assms(2) by (auto simp: geo_ready_def)
    from swap_tree_ok [OF True g, of ?l] obtain td where
      "swap_tree config ?l ns = Inr (ns\<lparr>ns_geo := Some (g\<lparr>treeData := Some td\<rparr>)\<rparr>)"
      "tree_data_ok td" "td_cloud td = ?l" by blast
    then show ?thesis using l g
      by (simp add: parseStateUpdate_def swap_list_def ns_consistent_def)
  next
    case False
    then show ?thesis using l
      by (simp add: parseStateUpdate_def swap_tree_def swap_list_def ns_consistent_def)
  qed
qed

text \<open>Any update that returns, whatever the library answered, leaves the state consistent.\<close>

lemma parseStateUpdate_consistent:
  assumes "parseStateUpdate D config garbage now body ign ns = Inr ns'"
  shows "ns_consistent config ns'"
proof -
  from assms obtain newList ns1 where s: "swap_tree config newList ns = Inr ns1" and n: "ns' = swap_list newList ns1"
    by (auto simp: parseStateUpdate_def bindE_eq_Inr)
  show ?thesis
  proof (cases "geo_ip_enabled config")
    case True
    then obtain g where g: "ns_geo ns = Some g" using s by (cases "ns_geo ns") (auto simp: swap_tree_def)
    from swap_tree_ok [OF True g, of newList] s n show ?thesis
      by (auto simp: swap_list_def ns_consistent_def)
  qed (simp add: ns_consistent_def)
qed

lemma poll_gateway_consistent:
  assumes "ns_consistent config ns" "poll_gateway D config garbage now res ns = Inr ns'"
  shows "ns_consistent config ns'"
  using assms parseStateUpdate_consistent [of D config garbage now _ _ ns ns']
  by (fastforce simp: poll_gateway_def split: option.splits if_splits)

subsection \<open>Nearest nodes\<close>

definition nodes_on_sphere :: "edge_node list \<Rightarrow> bool" where
  "nodes_on_sphere nodes \<longleftrightarrow> (\<forall>n \<in> set nodes. on_sphere (getLocation n))"

text \<open>
  The result of a query for \<open>n\<close> nodes: the indices of the \<open>min n N\<close> nearest of the \<open>N\<close> nodes,
  then the zeros the index array was filled with.
\<close>

definition padded :: "int \<Rightarrow> edge_node list \<Rightarrow> nat list \<Rightarrow> nat list" where
  "padded n nodes is = is @ replicate (nat n - min (nat n) (length nodes)) 0"

lemma mapE_vec_at_ok: "(\<And>i. i \<in> set is \<Longrightarrow> i < length xs) \<Longrightarrow> mapE (vec_at xs) is = Inr (map ((!) xs) is)"
  by (induction "is") auto

lemma getNearestEdgeNodes_eq:
  assumes geo: "ns_geo ns = Some g" "treeData g = Some td" "tree_data_ok td" "td_cloud td = edgeNodes ns"
    and n: "0 < n" and ne: "edgeNodes ns \<noteq> []"
    and sphere: "on_sphere l" "nodes_on_sphere (edgeNodes ns)"
  shows "\<exists>is. nearest_indices (node_distance l (edgeNodes ns)) (length (edgeNodes ns))
        (min (nat n) (length (edgeNodes ns))) is \<and>
     getNearestEdgeNodes ns l n = Inr (map ((!) (edgeNodes ns)) (padded n (edgeNodes ns) is))"
proof -
  let ?es = "edgeNodes ns"
  have near: "node_distance l (td_cloud td) i < DBL_MAX" if "i < length (td_cloud td)" for i
    using that sphere geo(4) by (simp add: node_distance_def nodes_on_sphere_def on_sphere_near)
  from getNearestNodes_spec [OF geo(2,3) n near] geo(4) obtain "is" where
    q: "getNearestNodes g l n = Inr (padded n ?es is)"
    and ni: "nearest_indices (node_distance l ?es) (length ?es) (min (nat n) (length ?es)) is"
    by (auto simp: padded_def)
  have "set is \<subseteq> {0..<length ?es}" using ni by (auto simp: nearest_indices_def)
  then have "i < length ?es" if "i \<in> set (padded n ?es is)" for i
    using that ne by (auto simp: padded_def)
  then have "mapE (vec_at ?es) (padded n ?es is) = Inr (map ((!) ?es) (padded n ?es is))"
    by (rule mapE_vec_at_ok)
  with geo(1) q ni show ?thesis by (auto simp: getNearestEdgeNodes_def)
qed

lemma getNearestEdgeNodes_empty:
  assumes geo: "ns_geo ns = Some g" "treeData g = Some td" "tree_data_ok td" "td_cloud td = edgeNodes ns"
    and n: "0 < n" and e: "edgeNodes ns = []"
  shows "getNearestEdgeNodes ns l n = Inl (Throws Out_of_range)"
proof -
  from getNearestNodes_spec [OF geo(2,3) n, of l] geo(4) e have
    "getNearestNodes g l n = Inr (replicate (nat n) 0)"
    by (auto simp: nearest_indices_def)
  moreover obtain m where "nat n = Suc m" using n by (cases "nat n") auto
  ultimately show ?thesis using geo(1) e by (simp add: getNearestEdgeNodes_def vec_at_def)
qed

lemma getNearestEdgeNodes_before_poll:
  assumes "ns_geo ns = Some g" "treeData g = None" "0 < n"
  shows "getNearestEdgeNodes ns l n = Inl Undefined"
  using assms by (simp add: getNearestEdgeNodes_def getNearestNodes_def)

subsection \<open>Straight lines and great circles\<close>

lemma nearest_indices_mono:
  assumes "\<And>i j. i < N \<Longrightarrow> j < N \<Longrightarrow> d i \<le> d j \<longleftrightarrow> d' i \<le> d' j" "nearest_indices d N k is"
  shows "nearest_indices d' N k is"
proof -
  have sub: "set is \<subseteq> {0..<N}" and sd: "sorted (map d is)" using assms(2) by (auto simp: nearest_indices_def)
  have "is ! i < N" if "i < length is" for i using sub nth_mem [OF that] by fastforce
  then have "sorted (map d' is)"
    using sd assms(1) by (simp add: sorted_iff_nth_mono)
  then show ?thesis
    using assms sub by (fastforce simp: nearest_indices_def)
qed

text \<open>A location that \<open>convertToCartesian\<close> returned.\<close>

definition converted :: "location \<Rightarrow> bool" where
  "converted l \<longleftrightarrow> convertToCartesian l = l"

lemma converted_on_sphere: "converted l \<Longrightarrow> on_sphere l"
  unfolding converted_def by (metis convertToCartesian_on_sphere)

lemma lookupCoordinates_is_converted: "lookupCoordinates g i = Inr l \<Longrightarrow> converted l"
  using lookupCoordinates_converted [of g i l] by (auto simp: converted_def)

lemma publish_entry_converted:
  assumes "geo_ready config geo" "geo_ip_enabled config"
    "publish_entry D config garbage now ign geo p = Some n"
  shows "converted (getLocation n)"
proof -
  obtain g where g: "geo = Some g" "\<And>i. \<exists>l. lookupCoordinates g i = Inr l"
    using assms(1,2) unfolding geo_ready_def by blast
  have "converted (geo_location g i)" for i
    using g(2) [of i] lookupCoordinates_is_converted [of g i] by (auto simp: geo_location_def)
  then show ?thesis using assms(2,3) g(1)
    by (auto simp: publish_entry_def located_def split: prod.splits option.splits if_splits)
qed

lemma published_nodes_converted:
  assumes "geo_ready config geo" "geo_ip_enabled config"
    "n \<in> set (published_nodes D config garbage now ign geo pairs)"
  shows "converted (getLocation n)"
  using assms(3) by (induction pairs)
    (auto split: option.splits dest: publish_entry_converted [OF assms(1,2), OF sym])

lemma nearest_great_circle:
  assumes "converted l" "\<And>n. n \<in> set nodes \<Longrightarrow> converted (getLocation n)"
    "nearest_indices (node_distance l nodes) (length nodes) k is"
  shows "nearest_indices (\<lambda>i. great_circle l (getLocation (nodes ! i))) (length nodes) k is"
proof (rule nearest_indices_mono [OF _ assms(3)])
  fix i j assume "i < length nodes" "j < length nodes"
  then show "node_distance l nodes i \<le> node_distance l nodes j \<longleftrightarrow>
      great_circle l (getLocation (nodes ! i)) \<le> great_circle l (getLocation (nodes ! j))"
    using assms(1,2) by (simp add: great_circle_mono node_distance_def converted_def)
qed

subsection \<open>A sample of the library parameters\<close>

text \<open>Used to show that the assumptions of the properties can hold together.\<close>

datatype sample_value = S_str string | S_int "64 word" | S_obj "(string \<times> sample_value) list"

definition sample_index :: "sample_value \<Rightarrow> string \<Rightarrow> cpp_exception + sample_value" where
  "sample_index v k = (case v of
       S_obj xs \<Rightarrow> (case map_of xs k of Some w \<Rightarrow> Inr w | None \<Rightarrow> Inl Out_of_range)
     | _ \<Rightarrow> Inl Type_error)"

definition sample_items :: "sample_value \<Rightarrow> cpp_exception + (sample_value \<times> sample_value) list" where
  "sample_items v = (case v of S_obj xs \<Rightarrow> Inr (map (map_prod S_str id) xs) | _ \<Rightarrow> Inl Type_error)"

definition sample_getString :: "sample_value \<Rightarrow> cpp_exception + string" where
  "sample_getString v = (case v of S_str s \<Rightarrow> Inr s | _ \<Rightarrow> Inl Type_error)"

definition sample_asInt :: "sample_value \<Rightarrow> cpp_exception + 64 word" where
  "sample_asInt v = (case v of S_int i \<Rightarrow> Inr i | _ \<Rightarrow> Inl Type_error)"

definition sample_empty :: "sample_value \<Rightarrow> cpp_exception + bool" where
  "sample_empty v = (case v of S_obj xs \<Rightarrow> Inr (xs = []) | S_str s \<Rightarrow> Inr (s = []) | S_int _ \<Rightarrow> Inl Type_error)"

definition sample_node :: "string \<Rightarrow> 64 word \<Rightarrow> 64 word \<Rightarrow> sample_value" where
  "sample_node addr prt hb = S_obj [
     (''ip_address'', S_obj [(''data'', S_str addr)]), (''content_port'', S_obj [(''data'', S_int prt)]),
     (''heartbeat'', S_obj [(''data'', S_int hb)]),
     (''disk_content'', S_obj [(''data'', S_obj [(''a'', S_str ''b'')])])]"

text \<open>One good node, one whose port is not a number, one that is too old.\<close>

definition sample_map :: "(string \<times> sample_value) list" where
  "sample_map = [(''0xAB'', sample_node ''1.1.1.1'' 8080 1000),
     (''0xCD'', S_obj [(''ip_address'', S_obj [(''data'', S_str ''2.2.2.2'')]),
                      (''content_port'', S_obj [(''data'', S_str ''x'')])]),
     (''0xEF'', sample_node ''3.3.3.3'' 8080 500)]"

definition sample_dynamic :: "sample_value dynamic_lib" where
  "sample_dynamic = \<lparr>
     parseJson = (\<lambda>body. if body = ''{}'' then Inl (Runtime_error ''parse'')
        else Inr (S_obj [(''response'', S_obj [(''node_data_map'', S_obj sample_map)])])),
     d_index = sample_index, d_items = sample_items, d_getString = sample_getString,
     d_asInt = sample_asInt, d_empty = sample_empty\<rparr>"

definition sample_db :: "string geo_db" where
  "sample_db = \<lparr>lookup_raw = Inr,
     get_field = (\<lambda>r path. Inr (if r = ''1.1.1.1'' then ''90'' else '''')),
     stod = (\<lambda>s. if s = ''90'' then Inr 90 else Inl Invalid_argument)\<rparr>"

definition sample_geo :: "string geo" where
  "sample_geo = \<lparr>db = Some sample_db, treeData = None\<rparr>"

definition sample_config :: masternode_config where
  "sample_config = default_config\<lparr>geo_ip_enabled := True, protected_domain := ''example.com'',
     origin_host := ''origin'', pool_domain := ''pool.com''\<rparr>"

lemma sample_json_std: "json_std sample_dynamic"
  by (auto simp: json_std_def sample_dynamic_def sample_index_def sample_getString_def sample_asInt_def
      sample_empty_def std_exception_def split: sample_value.splits option.splits)

lemma sample_geo_ready: "geo_ready config (Some sample_geo)"
  by (auto simp: geo_ready_def sample_geo_def lookupCoordinates_def lookup_try_def sample_db_def Let_def
      std_exception_def)

lemma sample_geo_ready_None: "geo_ready (config\<lparr>geo_ip_enabled := False\<rparr>) geo"
  by (simp add: geo_ready_def)

lemma sample_nodes_of:
  "nodes_of sample_dynamic ''s'' = Inr (map (map_prod S_str id) sample_map)"
  by (simp add: nodes_of_def sample_dynamic_def sample_index_def sample_items_def)

lemmas sample_defs = sample_dynamic_def sample_map_def sample_node_def sample_index_def sample_getString_def
  sample_asInt_def sample_empty_def

lemma sample_pair_ok: "p \<in> set (map (map_prod S_str id) sample_map) \<Longrightarrow> pair_ok sample_dynamic 1010 p"
  by (auto simp: pair_ok_def heartbeats_ok_def sample_defs entry_of_def read_field_def)

lemma sample_published:
  "published_nodes sample_dynamic config garbage 1010 False geo (map (map_prod S_str id) sample_map) =
     [located config geo (EdgeNode garbage ''1.1.1.1'' 8080 ''0xab'' 1000)]"
  by (simp add: sample_defs key_string_def publish_entry_def published_def fresh_def entry_of_def
      read_field_def node_of_def tolower_def char_of_def bit_0)

lemma sample_update:
  "\<exists>ns'. parseStateUpdate sample_dynamic sample_config zero_location 1010 ''s'' False (NetworkState_with sample_geo) = Inr ns' \<and>
     edgeNodes ns' = published_nodes sample_dynamic sample_config zero_location 1010 False (Some sample_geo)
        (map (map_prod S_str id) sample_map)"
  using parseStateUpdate_list [OF sample_json_std _ sample_nodes_of sample_pair_ok,
      of sample_config "NetworkState_with sample_geo" zero_location False]
    sample_geo_ready [of sample_config]
  by (auto simp: NetworkState_with_def)

subsection \<open>Properties\<close>

text \<open>
  C4: after a gateway update with the geographic feature on, asking for the \<open>n\<close> nodes nearest
  to a client address returns the \<open>min n N\<close> geographically nearest of the \<open>N\<close> nodes the update
  published, nearest first by great-circle distance, each once, and pads the result up to \<open>n\<close>
  with node 0.
\<close>

theorem nearest_nodes_after_update:
  assumes "json_std D" "geo_ready config (ns_geo ns)" "geo_ip_enabled config"
    and "nodes_of D body = Inr pairs" "\<And>p. p \<in> set pairs \<Longrightarrow> pair_ok D now p"
    and nodes: "nodes = published_nodes D config garbage now ign (ns_geo ns) pairs" "nodes \<noteq> []"
    and n: "0 < n"
  shows "\<exists>ns' g l is. parseStateUpdate D config garbage now body ign ns = Inr ns' \<and>
     ns_geo ns' = Some g \<and> lookupCoordinates g client = Inr l \<and>
     nearest_indices (\<lambda>i. great_circle l (getLocation (nodes ! i))) (length nodes)
       (min (nat n) (length nodes)) is \<and>
     getNearestEdgeNodes_ip ns' client n =
       Inr (map ((!) nodes) (is @ replicate (nat n - min (nat n) (length nodes)) 0))"
proof -
  from parseStateUpdate_list [OF assms(1,2,4,5)] nodes obtain ns' where
    u: "parseStateUpdate D config garbage now body ign ns = Inr ns'" and es: "edgeNodes ns' = nodes"
    and c: "ns_consistent config ns'" and dbs: "map_option db (ns_geo ns') = map_option db (ns_geo ns)"
    by metis
  from assms(2,3) obtain g0 where g0: "ns_geo ns = Some g0" "\<And>i. \<exists>l. lookupCoordinates g0 i = Inr l"
    unfolding geo_ready_def by blast
  with dbs obtain g where g: "ns_geo ns' = Some g" "db g = db g0" by auto
  obtain l where l: "lookupCoordinates g client = Inr l"
    using g0(2) [of client] g(2) by (auto simp: lookupCoordinates_def)
  from c g(1) assms(3) es nodes(2) obtain td where
    td: "treeData g = Some td" "tree_data_ok td" "td_cloud td = edgeNodes ns'"
    by (auto simp: ns_consistent_def split: option.splits)
  have conv: "converted (getLocation m)" if "m \<in> set nodes" for m
    using published_nodes_converted [OF assms(2,3)] that nodes(1) by blast
  have "nodes_on_sphere (edgeNodes ns')"
    using conv es by (auto simp: nodes_on_sphere_def intro: converted_on_sphere)
  from getNearestEdgeNodes_eq [OF g(1) td n _ lookupCoordinates_on_sphere [OF l] this] es nodes(2)
  obtain "is" where q: "getNearestEdgeNodes ns' l n = Inr (map ((!) nodes) (padded n nodes is))"
    and ni: "nearest_indices (node_distance l nodes) (length nodes) (min (nat n) (length nodes)) is" by auto
  have "getNearestEdgeNodes_ip ns' client n = getNearestEdgeNodes ns' l n"
    using g(1) l by (simp add: getNearestEdgeNodes_ip_def)
  with u g(1) l q nearest_great_circle [OF lookupCoordinates_is_converted [OF l] conv ni] show ?thesis
    unfolding padded_def by (intro exI conjI) auto
qed

theorem nearest_nodes_after_update_witness:
  "\<exists>ns' g l is. parseStateUpdate sample_dynamic sample_config zero_location 1010 ''s'' False
       (NetworkState_with sample_geo) = Inr ns' \<and>
     ns_geo ns' = Some g \<and> lookupCoordinates g ''1.1.1.1'' = Inr l \<and>
     nearest_indices (\<lambda>i. great_circle l (getLocation
         ([located sample_config (Some sample_geo) (EdgeNode zero_location ''1.1.1.1'' 8080 ''0xab'' 1000)] ! i))) 1 1 is \<and>
     getNearestEdgeNodes_ip ns' ''1.1.1.1'' 2 = Inr (map
       ((!) [located sample_config (Some sample_geo) (EdgeNode zero_location ''1.1.1.1'' 8080 ''0xab'' 1000)]) (is @ [0]))"
  using nearest_nodes_after_update [OF sample_json_std _ _ sample_nodes_of sample_pair_ok refl, of sample_config
      "NetworkState_with sample_geo" zero_location False 2 "''1.1.1.1''"]
    sample_geo_ready [of sample_config]
  by (simp add: NetworkState_with_def sample_config_def sample_published)

text \<open>
  C12: an update from the gateway replaces the list by exactly the entries that are well formed,
  not older than two minutes (the boundary included, unless heartbeats are ignored) and have
  content, in the order of the response, each with its lower-case address and its looked-up
  location; a malformed entry is skipped without affecting the others. The kd-tree is rebuilt
  over the same list and the database handle is kept.
\<close>

theorem parseStateUpdate_publishes:
  assumes "json_std D" "geo_ready config (ns_geo ns)"
    and "nodes_of D body = Inr pairs" "\<And>p. p \<in> set pairs \<Longrightarrow> pair_ok D now p"
  shows "\<exists>ns'. parseStateUpdate D config garbage now body ign ns = Inr ns' \<and>
     getEdgeNodes ns' = published_nodes D config garbage now ign (ns_geo ns) pairs \<and>
     ns_consistent config ns' \<and> map_option db (ns_geo ns') = map_option db (ns_geo ns)"
  using parseStateUpdate_list [OF assms] by (simp add: getEdgeNodes_def)

theorem parseStateUpdate_publishes_witness:
  "\<exists>ns'. parseStateUpdate sample_dynamic sample_config zero_location 1010 ''s'' False
       (NetworkState_with sample_geo) = Inr ns' \<and>
     getEdgeNodes ns' =
       [located sample_config (Some sample_geo) (EdgeNode zero_location ''1.1.1.1'' 8080 ''0xab'' 1000)] \<and>
     ns_consistent sample_config ns'"
  using parseStateUpdate_publishes [OF sample_json_std _ sample_nodes_of sample_pair_ok, of sample_config
      "NetworkState_with sample_geo" zero_location False] sample_geo_ready [of sample_config]
  by (auto simp: NetworkState_with_def sample_published)

text \<open>
  An update fails exactly when the body cannot be parsed or lacks the node map, with the
  exception of that step; the entries themselves never make it fail.
\<close>

theorem parseStateUpdate_fails_iff:
  assumes "json_std D" "geo_ready config (ns_geo ns)"
    and "\<And>pairs p. nodes_of D body = Inr pairs \<Longrightarrow> p \<in> set pairs \<Longrightarrow> pair_ok D now p"
  shows "parseStateUpdate D config garbage now body ign ns = Inl f \<longleftrightarrow>
     (\<exists>e. nodes_of D body = Inl e \<and> f = Throws e)"
proof (cases "nodes_of D body")
  case (Inl e)
  then show ?thesis by (auto simp: parseStateUpdate_def parse_new_list_eq)
next
  case (Inr pairs)
  from parseStateUpdate_list [OF assms(1,2) Inr assms(3) [OF Inr], of garbage ign] Inr show ?thesis by auto
qed

theorem parseStateUpdate_fails_iff_witness:
  "parseStateUpdate sample_dynamic sample_config zero_location 1010 ''{}'' False (NetworkState_with sample_geo) =
     Inl (Throws (Runtime_error ''parse''))"
  using parseStateUpdate_fails_iff [OF sample_json_std, of sample_config "NetworkState_with sample_geo" "''{}''" 1010
      zero_location False "Throws (Runtime_error ''parse'')"] sample_geo_ready [of sample_config]
  by (simp add: nodes_of_def sample_dynamic_def NetworkState_with_def)

text \<open>
  C31: a nearest-node query does not return before the tree exists: before the first successful
  update it dereferences a null pointer, and after an update that published no node it reads
  element 0 of an empty list, which throws.
\<close>

theorem nearest_nodes_unavailable:
  assumes "ns_consistent config ns" "geo_ip_enabled config" "edgeNodes ns = []" "0 < n"
  shows "getNearestEdgeNodes ns l n =
     (if \<exists>g td. ns_geo ns = Some g \<and> treeData g = Some td then Inl (Throws Out_of_range) else Inl Undefined)"
proof -
  obtain g where g: "ns_geo ns = Some g" using assms(1,2) by (auto simp: ns_consistent_def)
  show ?thesis
  proof (cases "treeData g")
    case None
    then show ?thesis using g getNearestEdgeNodes_before_poll [OF g None assms(4)] by simp
  next
    case (Some td)
    with assms(1,2) g have "tree_data_ok td" "td_cloud td = edgeNodes ns"
      by (auto simp: ns_consistent_def)
    from getNearestEdgeNodes_empty [OF g Some this assms(4,3)] g Some show ?thesis by simp
  qed
qed

theorem nearest_nodes_unavailable_witness:
  "getNearestEdgeNodes (NetworkState_with sample_geo) zero_location 4 = Inl Undefined"
  using nearest_nodes_unavailable [of sample_config "NetworkState_with sample_geo" 4 zero_location]
  by (simp add: NetworkState_with_def ns_consistent_def sample_geo_def sample_config_def)

end
