(* ===== verification/MN_Handlers.thy ===== *)
theory MN_Handlers
  imports MN_ServiceWorker MN_NetworkState
begin

text \<open>
  The request handlers that answer by themselves: \<open>RejectHandler\<close>, \<open>RedirectHandler\<close>,
  \<open>ServiceWorkerHandler\<close>, \<open>DirectHandler\<close>. Proxygen creates one per request and calls it
  back; the object deletes itself in its last callback. Each handler is a function from a
  callback and the state of the object to the next state. The callbacks are \<open>noexcept\<close>. A
  callback on a deleted object is undefined.

  The locale \<open>one_shot_handler\<close> is what the four have in common; a client of it knows what a
  whole request produces.
\<close>

datatype ('m, 'b) callback =
    C_onRequest 'm
  | C_onBody "'b option"
  | C_onUpgrade
  | C_onEOM
  | C_requestComplete
  | C_onError

record handler =
  sent :: "response list"
  deleted :: bool

definition new_handler :: handler where
  "new_handler = \<lparr>sent = [], deleted = False\<rparr>"

definition sendWithEOM :: "response list \<Rightarrow> handler \<Rightarrow> handler" where
  "sendWithEOM rs h = h\<lparr>sent := sent h @ rs\<rparr>"

definition delete_this :: "handler \<Rightarrow> handler" where
  "delete_this h = h\<lparr>deleted := True\<rparr>"

subsection \<open>RejectHandler\<close>

definition RejectHandler_onRequest :: "nat \<Rightarrow> string \<Rightarrow> 'm \<Rightarrow> response list result" where
  "RejectHandler_onRequest statusCode msg headers =
     Inr [\<lparr>status = statusCode, reason = msg, resp_headers = [], resp_body = None\<rparr>]"

definition RejectHandler :: "nat \<Rightarrow> string \<Rightarrow> ('m, 'b) callback \<Rightarrow> handler \<Rightarrow> handler result" where
  "RejectHandler statusCode msg c h =
     (if deleted h then Inl Undefined else case c of
        C_onRequest m \<Rightarrow> bindE (RejectHandler_onRequest statusCode msg m) (\<lambda>rs. Inr (sendWithEOM rs h))
      | C_onBody b \<Rightarrow> Inr h
      | C_onUpgrade \<Rightarrow> Inr h
      | C_onEOM \<Rightarrow> Inr h
      | C_requestComplete \<Rightarrow> Inr (delete_this h)
      | C_onError \<Rightarrow> Inr (delete_this h))"

subsection \<open>RedirectHandler\<close>

text \<open>The branch that answers 400 does not return.\<close>

definition RedirectHandler_onRequest :: "'m http_lib \<Rightarrow> 'u url_lib \<Rightarrow> masternode_config \<Rightarrow> 'm \<Rightarrow>
    response list result" where
  "RedirectHandler_onRequest M U config headers = noexcept
     (let host = h_rawGet M headers ''Host'';
          url = u_parse U (h_getURL M headers);
          (redirect_host, early) =
            (if u_hasHost U url then (u_getHost U url, [])
             else if host \<noteq> []
             then (case find_char (CHR '':'') host of
                     None \<Rightarrow> (host, [])
                   | Some colon \<Rightarrow> (take colon host, []))
             else ([], [\<lparr>status = 400, reason = ''Bad Request'', resp_headers = [], resp_body = None\<rparr>]))
      in bindE (substr_from (u_getPath U url) 1) (\<lambda>path.
         let redirect_url = u_build U ''https'' redirect_host (ssl_port config) path
                              (u_getQuery U url) (u_getFragment U url)
         in Inr (early @ [\<lparr>status = 307, reason = ''Temporary Redirect'',
              resp_headers = [(''Location'', u_getUrl U redirect_url)], resp_body = None\<rparr>])))"

definition RedirectHandler :: "'m http_lib \<Rightarrow> 'u url_lib \<Rightarrow> masternode_config \<Rightarrow>
    ('m, 'b) callback \<Rightarrow> handler \<Rightarrow> handler result" where
  "RedirectHandler M U config c h =
     (if deleted h then Inl Undefined else case c of
        C_onRequest m \<Rightarrow> bindE (RedirectHandler_onRequest M U config m) (\<lambda>rs. Inr (sendWithEOM rs h))
      | C_onBody b \<Rightarrow> Inr h
      | C_onUpgrade \<Rightarrow> Inr h
      | C_onEOM \<Rightarrow> Inr h
      | C_requestComplete \<Rightarrow> Inr (delete_this h)
      | C_onError \<Rightarrow> Inr (delete_this h))"

subsection \<open>ServiceWorkerHandler\<close>

definition ServiceWorkerHandler_new :: "masternode_config option \<Rightarrow> service_worker option \<Rightarrow> service_worker result" where
  "ServiceWorkerHandler_new config sw =
     bindE (check ''Config object was null'' config) (\<lambda>_. check ''Service Worker object was null'' sw)"

definition ServiceWorkerHandler_onRequest :: "service_worker \<Rightarrow> 'm \<Rightarrow> response list result" where
  "ServiceWorkerHandler_onRequest sw headers =
     Inr [\<lparr>status = 200, reason = ''OK'', resp_headers = [(''Content-Type'', ''application/javascript'')],
           resp_body = Some (getPayload sw)\<rparr>]"

definition ServiceWorkerHandler :: "service_worker \<Rightarrow> ('m, 'b) callback \<Rightarrow> handler \<Rightarrow> handler result" where
  "ServiceWorkerHandler sw c h =
     (if deleted h then Inl Undefined else case c of
        C_onRequest m \<Rightarrow> bindE (ServiceWorkerHandler_onRequest sw m) (\<lambda>rs. Inr (sendWithEOM rs h))
      | C_onBody b \<Rightarrow> Inr h
      | C_onUpgrade \<Rightarrow> Inr h
      | C_onEOM \<Rightarrow> Inr h
      | C_requestComplete \<Rightarrow> Inr (delete_this h)
      | C_onError \<Rightarrow> Inr (delete_this h))"

subsection \<open>DirectHandler\<close>

definition DirectHandler_new :: "('m, 'b) content_cache option \<Rightarrow> masternode_config option \<Rightarrow>
    (('m, 'b) content_cache \<times> masternode_config) result" where
  "DirectHandler_new cache config =
     bindE (check ''Cache object was null'' cache) (\<lambda>c.
     bindE (check ''Config object was null'' config) (\<lambda>cfg. Inr (c, cfg)))"

text \<open>The edge nodes for the client: the five nearest, or all of them.\<close>

definition direct_edge_nodes :: "'m http_lib \<Rightarrow> masternode_config \<Rightarrow> 'r network_state \<Rightarrow> 'm \<Rightarrow>
    edge_node list result" where
  "direct_edge_nodes M config ns headers =
     (if geo_ip_enabled config then getNearestEdgeNodes_ip ns (h_getClientIP M headers) 5
      else Inr (getEdgeNodes ns))"

definition DirectHandler_onRequest :: "'m http_lib \<Rightarrow> 'j json_lib \<Rightarrow> ('m, 'b) content_cache \<Rightarrow>
    masternode_config \<Rightarrow> 'r network_state option \<Rightarrow> 'm \<Rightarrow> response list result" where
  "DirectHandler_onRequest M J cache config state headers = noexcept
     (bindE (case state of
         Some ns \<Rightarrow>
           if enableP2P config
           then bindE (direct_edge_nodes M config ns headers) (\<lambda>nodes.
                let jsonRes = j_set J (j_object J) ''edgeNodes'' (j_array J)
                in Inr (foldl (\<lambda>jsonRes edge. j_set J jsonRes ''edgeNodes''
                          (j_push_back J (j_at J jsonRes ''edgeNodes'')
                            (j_string J (getFQDN edge (pool_domain config) (cdn_subdomain config)))))
                     jsonRes nodes))
           else Inr (j_object J)
       | None \<Rightarrow> Inr (j_object J)) (\<lambda>jsonRes.
       let assetMap = getAssetHashMap cache;
           jsonRes = j_set J jsonRes ''assetHashes'' (j_object J);
           jsonRes = foldl (\<lambda>jsonRes (k, v). j_set J jsonRes ''assetHashes''
                       (j_set J (j_at J jsonRes ''assetHashes'') k (j_string J v))) jsonRes assetMap
       in Inr [\<lparr>status = 200, reason = ''OK'', resp_headers = [(''Content-Type'', ''application/json'')],
                resp_body = Some (toJson J jsonRes)\<rparr>]))"

definition DirectHandler :: "'m http_lib \<Rightarrow> 'j json_lib \<Rightarrow> ('m, 'b) content_cache \<Rightarrow>
    masternode_config \<Rightarrow> 'r network_state option \<Rightarrow> ('m, 'b) callback \<Rightarrow> handler \<Rightarrow> handler result" where
  "DirectHandler M J cache config state c h =
     (if deleted h then Inl Undefined else case c of
        C_onRequest m \<Rightarrow> bindE (DirectHandler_onRequest M J cache config state m) (\<lambda>rs. Inr (sendWithEOM rs h))
      | C_onBody b \<Rightarrow> Inr h
      | C_onUpgrade \<Rightarrow> Inr h
      | C_onEOM \<Rightarrow> Inr h
      | C_requestComplete \<Rightarrow> Inr (delete_this h)
      | C_onError \<Rightarrow> Inr (delete_this h))"

subsection \<open>The life of a one-shot handler\<close>

fun run :: "(('m, 'b) callback \<Rightarrow> handler \<Rightarrow> handler result) \<Rightarrow> ('m, 'b) callback list \<Rightarrow> handler \<Rightarrow> handler result" where
  "run f [] h = Inr h"
| "run f (c # cs) h = bindE (f c h) (run f cs)"

definition middle :: "('m, 'b) callback \<Rightarrow> bool" where
  "middle c \<longleftrightarrow> (case c of C_onBody _ \<Rightarrow> True | C_onUpgrade \<Rightarrow> True | C_onEOM \<Rightarrow> True | _ \<Rightarrow> False)"

definition last_callback :: "('m, 'b) callback \<Rightarrow> bool" where
  "last_callback c \<longleftrightarrow> c = C_requestComplete \<or> c = C_onError"

locale one_shot_handler =
  fixes respond :: "'m \<Rightarrow> response list result"
    and call :: "('m, 'b) callback \<Rightarrow> handler \<Rightarrow> handler result"
  assumes call_request: "\<not> deleted h \<Longrightarrow>
      call (C_onRequest m) h = bindE (respond m) (\<lambda>rs. Inr (sendWithEOM rs h))"
    and call_middle: "\<not> deleted h \<Longrightarrow> middle c \<Longrightarrow> call c h = Inr h"
    and call_last: "\<not> deleted h \<Longrightarrow> last_callback c \<Longrightarrow> call c h = Inr (delete_this h)"
    and call_deleted: "deleted h \<Longrightarrow> call c h = Inl Undefined"
begin

lemma run_middle:
  "\<not> deleted h \<Longrightarrow> (\<And>c. c \<in> set cs \<Longrightarrow> middle c) \<Longrightarrow> run call (cs @ ds) h = run call ds h"
  by (induction cs) (simp_all add: call_middle)

text \<open>One request, from its headers to its completion or error.\<close>

lemma run_request:
  assumes "\<And>c. c \<in> set cs \<Longrightarrow> middle c" "last_callback d"
  shows "run call (C_onRequest m # cs @ [d]) new_handler =
     bindE (respond m) (\<lambda>rs. Inr \<lparr>sent = rs, deleted = True\<rparr>)"
proof -
  have "run call (cs @ [d]) (sendWithEOM rs new_handler) = Inr \<lparr>sent = rs, deleted = True\<rparr>" for rs
    using assms by (subst run_middle)
      (simp_all add: call_last sendWithEOM_def new_handler_def delete_this_def)
  then show ?thesis by (cases "respond m") (simp_all add: call_request new_handler_def)
qed

lemma run_after_last:
  assumes "\<not> deleted h" "last_callback d"
  shows "run call (d # c # cs) h = Inl Undefined"
  using assms by (simp add: call_last call_deleted delete_this_def)

end

lemmas callback_defs = middle_def last_callback_def

interpretation reject: one_shot_handler "RejectHandler_onRequest code msg" "RejectHandler code msg" for code msg
  by unfold_locales (auto simp: RejectHandler_def callback_defs split: callback.splits)

interpretation redirect: one_shot_handler "RedirectHandler_onRequest M U config" "RedirectHandler M U config" for M U config
  by unfold_locales (auto simp: RedirectHandler_def callback_defs split: callback.splits)

interpretation service_worker: one_shot_handler "ServiceWorkerHandler_onRequest sw" "ServiceWorkerHandler sw" for sw
  by unfold_locales (auto simp: ServiceWorkerHandler_def callback_defs split: callback.splits)

interpretation direct: one_shot_handler "DirectHandler_onRequest M J cache config state" "DirectHandler M J cache config state"
    for M J cache config state
  by unfold_locales (auto simp: DirectHandler_def callback_defs split: callback.splits)

subsection \<open>What the JSON library promises\<close>

record 'j json_view =
  is_object :: "'j \<Rightarrow> bool"
  member :: "'j \<Rightarrow> string \<Rightarrow> 'j option"
  is_array :: "'j \<Rightarrow> bool"
  elements :: "'j \<Rightarrow> 'j list"

definition json_ok :: "'j json_lib \<Rightarrow> 'j json_view \<Rightarrow> bool" where
  "json_ok J V \<longleftrightarrow>
     is_object V (j_object J) \<and> (\<forall>k. member V (j_object J) k = None) \<and>
     (\<forall>j k v. is_object V j \<longrightarrow> is_object V (j_set J j k v) \<and> member V (j_set J j k v) = (member V j)(k \<mapsto> v)) \<and>
     (\<forall>j k v. is_object V j \<longrightarrow> member V j k = Some v \<longrightarrow> j_at J j k = v) \<and>
     is_array V (j_array J) \<and> elements V (j_array J) = [] \<and>
     (\<forall>a x. is_array V a \<longrightarrow> is_array V (j_push_back J a x) \<and> elements V (j_push_back J a x) = elements V a @ [x])"

lemma json_push_loop:
  assumes J: "json_ok J V" and o: "is_object V jo" "member V jo k = Some a" "is_array V a"
  shows "\<exists>a'. let j = foldl (\<lambda>j x. j_set J j k (j_push_back J (j_at J j k) (f x))) jo xs in
     is_object V j \<and> member V j = (member V jo)(k \<mapsto> a') \<and> is_array V a' \<and> elements V a' = elements V a @ map f xs"
  using o
proof (induction xs arbitrary: jo a)
  case Nil
  then show ?case by (intro exI [of _ a]) (simp add: fun_upd_idem)
next
  case (Cons x xs)
  let ?a = "j_push_back J a (f x)" and ?j = "j_set J jo k (j_push_back J (j_at J jo k) (f x))"
  have "is_object V ?j" "member V ?j = (member V jo)(k \<mapsto> ?a)" "is_array V ?a" "elements V ?a = elements V a @ [f x]"
    using J Cons.prems by (simp_all add: json_ok_def)
  with Cons.IH [of ?j ?a] show ?case by (simp add: Let_def fun_upd_same del: fun_upd_apply)
qed

lemma json_set_loop:
  assumes J: "json_ok J V" and o: "is_object V jo" "member V jo k = Some p" "is_object V p"
  shows "\<exists>p'. let j = foldl (\<lambda>j (x, y). j_set J j k (j_set J (j_at J j k) x (f y))) jo xys in
     is_object V j \<and> member V j = (member V jo)(k \<mapsto> p') \<and> is_object V p' \<and>
     member V p' = foldl (\<lambda>m (x, y). m(x \<mapsto> f y)) (member V p) xys"
  using o
proof (induction xys arbitrary: jo p)
  case Nil
  then show ?case by (intro exI [of _ p]) (simp add: fun_upd_idem)
next
  case (Cons xy xys)
  obtain x y where xy: "xy = (x, y)" by (cases xy)
  let ?p = "j_set J p x (f y)" and ?j = "j_set J jo k (j_set J (j_at J jo k) x (f y))"
  have "is_object V ?j" "member V ?j = (member V jo)(k \<mapsto> ?p)" "is_object V ?p" "member V ?p = (member V p)(x \<mapsto> f y)"
    using J Cons.prems by (simp_all add: json_ok_def)
  with Cons.IH [of ?j ?p] show ?case by (simp add: Let_def xy fun_upd_same del: fun_upd_apply)
qed

lemma foldl_upd_distinct:
  "distinct_keys xys \<Longrightarrow> foldl (\<lambda>m (x, y). m(x \<mapsto> f y)) m xys u =
     (case map_find xys u of Some y \<Rightarrow> Some (f y) | None \<Rightarrow> m u)"
proof (induction xys arbitrary: m)
  case (Cons xy xys)
  obtain x y where xy: "xy = (x, y)" by (cases xy)
  have "map_of xys x = None" using Cons.prems by (simp add: xy distinct_keys_def map_of_eq_None_iff)
  then show ?case using Cons by (simp add: xy distinct_keys_def map_find_def split: option.splits)
qed (simp add: map_find_def)

lemma getAssetHashMap_distinct: "distinct_keys (getAssetHashMap c)"
proof -
  have "getAssetHashMap c = foldl (\<lambda>m (k, v). fst (map_insert k v m)) [] (map (\<lambda>(u, r). (u, getHash r)) (routes c))"
    unfolding getAssetHashMap_def by (simp add: foldl_map split_def)
  then show ?thesis using hash_map.fold_inv [of "[]"] by (simp add: distinct_keys_def)
qed

subsection \<open>The reply of DirectHandler\<close>

text \<open>The nodes a reply reports: none at all (no such member) without the p2p network.\<close>

definition reported_nodes :: "'m http_lib \<Rightarrow> masternode_config \<Rightarrow> 'r network_state option \<Rightarrow> 'm \<Rightarrow>
    edge_node list option result" where
  "reported_nodes M config state headers =
     (case state of
        Some ns \<Rightarrow> if enableP2P config then bindE (direct_edge_nodes M config ns headers) (\<lambda>ns. Inr (Some ns))
                   else Inr None
      | None \<Rightarrow> Inr None)"

definition node_names :: "masternode_config \<Rightarrow> edge_node list \<Rightarrow> string list" where
  "node_names config nodes = map (\<lambda>n. getFQDN n (pool_domain config) (cdn_subdomain config)) nodes"

definition with_nodes :: "'j json_lib \<Rightarrow> masternode_config \<Rightarrow> edge_node list option \<Rightarrow> 'j" where
  "with_nodes J config nodes =
     (case nodes of
        None \<Rightarrow> j_object J
      | Some ns \<Rightarrow> foldl (\<lambda>j n. j_set J j ''edgeNodes'' (j_push_back J (j_at J j ''edgeNodes'')
                     (j_string J (getFQDN n (pool_domain config) (cdn_subdomain config)))))
                    (j_set J (j_object J) ''edgeNodes'' (j_array J)) ns)"

definition with_hashes :: "'j json_lib \<Rightarrow> ('m, 'b) content_cache \<Rightarrow> 'j \<Rightarrow> 'j" where
  "with_hashes J cache j = foldl (\<lambda>j (k, v). j_set J j ''assetHashes'' (j_set J (j_at J j ''assetHashes'') k (j_string J v)))
     (j_set J j ''assetHashes'' (j_object J)) (getAssetHashMap cache)"

lemma DirectHandler_onRequest_eq:
  "DirectHandler_onRequest M J cache config state headers =
     (case reported_nodes M config state headers of
        Inl f \<Rightarrow> noexcept (Inl f)
      | Inr nodes \<Rightarrow> Inr [\<lparr>status = 200, reason = ''OK'', resp_headers = [(''Content-Type'', ''application/json'')],
          resp_body = Some (toJson J (with_hashes J cache (with_nodes J config nodes)))\<rparr>])"
proof (cases state)
  case None
  then show ?thesis
    by (simp add: DirectHandler_onRequest_def reported_nodes_def with_nodes_def with_hashes_def Let_def)
next
  case (Some ns)
  then show ?thesis
    by (cases "direct_edge_nodes M config ns headers")
      (simp_all add: DirectHandler_onRequest_def reported_nodes_def with_nodes_def with_hashes_def Let_def)
qed

lemma with_nodes_members:
  assumes "json_ok J V"
  shows "is_object V (with_nodes J config nodes) \<and>
     (case nodes of
        None \<Rightarrow> member V (with_nodes J config nodes) ''edgeNodes'' = None
      | Some ns \<Rightarrow> \<exists>a. member V (with_nodes J config nodes) ''edgeNodes'' = Some a \<and>
                       elements V a = map (j_string J) (node_names config ns))"
proof (cases nodes)
  case None
  then show ?thesis using assms by (simp add: with_nodes_def json_ok_def)
next
  case (Some ns)
  let ?j = "j_set J (j_object J) ''edgeNodes'' (j_array J)"
  have "is_object V ?j" "member V ?j ''edgeNodes'' = Some (j_array J)" "is_array V (j_array J)"
    "elements V (j_array J) = []" using assms by (simp_all add: json_ok_def)
  with json_push_loop [OF assms this(1-3), of "\<lambda>n. j_string J (getFQDN n (pool_domain config) (cdn_subdomain config))" ns]
  show ?thesis by (auto simp: Some with_nodes_def node_names_def Let_def comp_def)
qed

lemma with_hashes_members:
  assumes J: "json_ok J V" and o: "is_object V j" and d: "distinct_keys (routes cache)"
  shows "\<exists>hs. member V (with_hashes J cache j) = (member V j)(''assetHashes'' \<mapsto> hs) \<and>
     member V hs = (\<lambda>u. map_option (\<lambda>r. j_string J (getHash r)) (getCachedRoute cache u))"
proof -
  let ?j = "j_set J j ''assetHashes'' (j_object J)"
  have j: "is_object V ?j" "member V ?j ''assetHashes'' = Some (j_object J)" "is_object V (j_object J)"
    "member V ?j = (member V j)(''assetHashes'' \<mapsto> j_object J)" and e: "member V (j_object J) = Map.empty"
    using J o by (simp_all add: json_ok_def fun_eq_iff)
  from json_set_loop [OF J j(1-3), of "j_string J" "getAssetHashMap cache"] j(4) e obtain hs where
    m: "member V (with_hashes J cache j) = (member V j)(''assetHashes'' \<mapsto> hs)"
    and h: "member V hs = foldl (\<lambda>m (x, y). m(x \<mapsto> j_string J y)) Map.empty (getAssetHashMap cache)"
    by (auto simp: with_hashes_def Let_def)
  have "member V hs u = map_option (\<lambda>r. j_string J (getHash r)) (getCachedRoute cache u)" for u
    unfolding h by (subst foldl_upd_distinct [OF getAssetHashMap_distinct])
      (simp add: getAssetHashMap_find [OF d] split: option.splits)
  with m show ?thesis by blast
qed

subsection \<open>The life of a redirection\<close>

lemma redirect_run:
  assumes "u_getPath U (u_parse U (h_getURL M m)) = CHR ''/'' # path"
    and "u_hasHost U (u_parse U (h_getURL M m)) \<or> h_rawGet M m ''Host'' \<noteq> []"
    and "\<And>c. c \<in> set cs \<Longrightarrow> middle c" "last_callback d"
  shows "run (RedirectHandler M U config) (C_onRequest m # cs @ [d]) new_handler =
     (let url = u_parse U (h_getURL M m);
          target = (if u_hasHost U url then u_getHost U url
                    else takeWhile (\<lambda>c. c \<noteq> CHR '':'') (h_rawGet M m ''Host''))
      in Inr \<lparr>sent = [\<lparr>status = 307, reason = ''Temporary Redirect'',
             resp_headers = [(''Location'', u_getUrl U (u_build U ''https'' target (ssl_port config) path
               (u_getQuery U url) (u_getFragment U url)))], resp_body = None\<rparr>], deleted = True\<rparr>)"
proof -
  have t: "(case find_char (CHR '':'') s of None \<Rightarrow> (s, []) | Some i \<Rightarrow> (take i s, [])) =
      (takeWhile (\<lambda>c. c \<noteq> CHR '':'') s, [])" for s
  proof (cases "CHR '':'' \<in> set s")
    case True
    then obtain i where "find_char (CHR '':'') s = Some i" by (cases "find_char (CHR '':'') s") simp_all
    then show ?thesis by (simp add: find_char_Some)
  next
    case False
    then have "takeWhile (\<lambda>c. c \<noteq> CHR '':'') s = s" by (auto simp: takeWhile_eq_all_conv)
    moreover have "find_char (CHR '':'') s = None" using False by simp
    ultimately show ?thesis by (simp only: option.simps)
  qed
  have r: "run (RedirectHandler M U config) (C_onRequest m # cs @ [d]) new_handler =
      bindE (RedirectHandler_onRequest M U config m) (\<lambda>rs. Inr \<lparr>sent = rs, deleted = True\<rparr>)"
    by (rule redirect.run_request) (use assms(3,4) in auto)
  show ?thesis
    using assms(1,2) unfolding r by (auto simp: RedirectHandler_onRequest_def t substr_from_def Let_def)
qed

lemma direct_reply:
  assumes "json_ok J V" "distinct_keys (routes cache)" "reported_nodes M config state m = Inr nodes"
  shows "\<exists>j hs. DirectHandler_onRequest M J cache config state m =
       Inr [\<lparr>status = 200, reason = ''OK'', resp_headers = [(''Content-Type'', ''application/json'')],
             resp_body = Some (toJson J j)\<rparr>] \<and>
     member V j ''assetHashes'' = Some hs \<and>
     (\<forall>u. member V hs u = map_option (\<lambda>r. j_string J (getHash r)) (getCachedRoute cache u)) \<and>
     map_option (elements V) (member V j ''edgeNodes'') =
       map_option (\<lambda>ns. map (j_string J) (node_names config ns)) nodes"
proof -
  let ?n = "with_nodes J config nodes"
  have n: "is_object V ?n" "map_option (elements V) (member V ?n ''edgeNodes'') =
      map_option (\<lambda>ns. map (j_string J) (node_names config ns)) nodes"
    using with_nodes_members [OF assms(1), of config nodes] by (auto split: option.splits)
  from with_hashes_members [OF assms(1) n(1) assms(2)] obtain hs where
    "member V (with_hashes J cache ?n) = (member V ?n)(''assetHashes'' \<mapsto> hs)"
    "member V hs = (\<lambda>u. map_option (\<lambda>r. j_string J (getHash r)) (getCachedRoute cache u))" by blast
  with n(2) show ?thesis
    by (intro exI [of _ "with_hashes J cache ?n"] exI [of _ hs]) (simp add: DirectHandler_onRequest_eq assms(3))
qed

subsection \<open>Properties\<close>

text \<open>
  An insecure request is answered over its whole life by exactly one response, a 307 to
  the same path, query and fragment over https on the TLS port, at the host of the request URL,
  or else at the Host header without its port; and the handler is deleted at the end.
\<close>

theorem redirect_preserves_target:
  assumes "u_getPath U (u_parse U (h_getURL M m)) = CHR ''/'' # path"
    and "u_hasHost U (u_parse U (h_getURL M m)) \<or> h_rawGet M m ''Host'' \<noteq> []"
    and "\<And>c. c \<in> set cs \<Longrightarrow> middle c" "last_callback d"
  shows "run (RedirectHandler M U config) (C_onRequest m # cs @ [d]) new_handler =
     (let url = u_parse U (h_getURL M m);
          target = (if u_hasHost U url then u_getHost U url
                    else takeWhile (\<lambda>c. c \<noteq> CHR '':'') (h_rawGet M m ''Host''))
      in Inr \<lparr>sent = [\<lparr>status = 307, reason = ''Temporary Redirect'',
             resp_headers = [(''Location'', u_getUrl U (u_build U ''https'' target (ssl_port config) path
               (u_getQuery U url) (u_getFragment U url)))], resp_body = None\<rparr>], deleted = True\<rparr>)"
  using redirect_run [OF assms] .

theorem redirect_preserves_target_witness:
  "run (RedirectHandler sample_http sample_urls sample_config)
     [C_onRequest (\<lparr>s_method = GET, s_url = ''/a'', s_secure = False, s_headers = [(''Host'', ''h:80'')]\<rparr>), C_onBody (None :: nat option),
      C_onEOM, C_requestComplete] new_handler =
   Inr \<lparr>sent = [\<lparr>status = 307, reason = ''Temporary Redirect'',
       resp_headers = [(''Location'', ''https://h:443/a'')], resp_body = None\<rparr>], deleted = True\<rparr>"
proof -
  let ?m = "\<lparr>s_method = GET, s_url = ''/a'', s_secure = False, s_headers = [(''Host'', ''h:80'')]\<rparr>"
  have mid: "\<And>c. c \<in> set [C_onBody (None :: nat option), C_onEOM] \<Longrightarrow> middle c" by (auto simp: middle_def)
  have port: "ssl_port sample_config = 443" by (simp add: sample_config_def default_config_def)
  have "run (RedirectHandler sample_http sample_urls sample_config)
      (C_onRequest ?m # [C_onBody (None :: nat option), C_onEOM] @ [C_requestComplete]) new_handler =
    Inr \<lparr>sent = [\<lparr>status = 307, reason = ''Temporary Redirect'',
       resp_headers = [(''Location'', ''https://h:443/a'')], resp_body = None\<rparr>], deleted = True\<rparr>"
    by (subst redirect_preserves_target [of sample_urls sample_http ?m "''a''"
          "[C_onBody (None :: nat option), C_onEOM]" C_requestComplete sample_config, OF _ _ mid])
      (simp_all add: last_callback_def sample_header_def port sample_location)
  then show ?thesis by (simp only: append.simps)
qed



text \<open>
  The answer to a direct request is a JSON object whose \<open>assetHashes\<close> maps exactly the
  cached URLs to the hashes of their content, and whose \<open>edgeNodes\<close> lists the names of the
  nodes in the order found; without the p2p network there is no such member.
\<close>

theorem direct_reply_contents:
  assumes "json_ok J V" "distinct_keys (routes cache)" "reported_nodes M config state m = Inr nodes"
  shows "\<exists>j hs. DirectHandler_onRequest M J cache config state m =
       Inr [\<lparr>status = 200, reason = ''OK'', resp_headers = [(''Content-Type'', ''application/json'')],
             resp_body = Some (toJson J j)\<rparr>] \<and>
     member V j ''assetHashes'' = Some hs \<and>
     (\<forall>u. member V hs u = map_option (\<lambda>r. j_string J (getHash r)) (getCachedRoute cache u)) \<and>
     map_option (elements V) (member V j ''edgeNodes'') =
       map_option (\<lambda>ns. map (j_string J) (node_names config ns)) nodes"
  using direct_reply [OF assms] .

datatype sample_json = SJ_object "(string \<times> sample_json) list" | SJ_array "sample_json list" | SJ_string string

definition sample_json_lib :: "sample_json json_lib" where
  "sample_json_lib = \<lparr>j_object = SJ_object [], j_array = SJ_array [], j_string = SJ_string,
     j_at = (\<lambda>j k. case j of SJ_object xs \<Rightarrow> (case map_of xs k of Some v \<Rightarrow> v | None \<Rightarrow> j) | _ \<Rightarrow> j),
     j_set = (\<lambda>j k v. case j of SJ_object xs \<Rightarrow> SJ_object ((k, v) # xs) | _ \<Rightarrow> j),
     j_push_back = (\<lambda>j v. case j of SJ_array xs \<Rightarrow> SJ_array (xs @ [v]) | _ \<Rightarrow> j),
     toJson = (\<lambda>_. ''{}'')\<rparr>"

definition sample_json_view :: "sample_json json_view" where
  "sample_json_view = \<lparr>is_object = (\<lambda>j. case j of SJ_object _ \<Rightarrow> True | _ \<Rightarrow> False),
     member = (\<lambda>j. case j of SJ_object xs \<Rightarrow> map_of xs | _ \<Rightarrow> Map.empty),
     is_array = (\<lambda>j. case j of SJ_array _ \<Rightarrow> True | _ \<Rightarrow> False),
     elements = (\<lambda>j. case j of SJ_array xs \<Rightarrow> xs | _ \<Rightarrow> [])\<rparr>"

lemma sample_json_ok: "json_ok sample_json_lib sample_json_view"
  by (auto simp: sample_json_lib_def json_ok_def sample_json_view_def split: sample_json.splits)

theorem direct_reply_contents_witness:
  "\<exists>j hs. DirectHandler_onRequest sample_http sample_json_lib
       ((ContentCache 1024 ''d/'' False Map.empty)\<lparr>routes := [(''/a'', CachedRoute sample_buf sample_cache_lib ''/a'' [''x''] (sample_request ''/a''))]\<rparr>)
       (sample_config\<lparr>enableP2P := True, geo_ip_enabled := False\<rparr>) (Some (NetworkState_with sample_geo)) (sample_request ''/'') =
       Inr [\<lparr>status = 200, reason = ''OK'', resp_headers = [(''Content-Type'', ''application/json'')],
             resp_body = Some (toJson sample_json_lib j)\<rparr>] \<and>
     member sample_json_view j ''assetHashes'' = Some hs \<and>
     member sample_json_view hs ''/a'' = Some (SJ_string ''x'')"
proof -
  let ?c = "(ContentCache 1024 ''d/'' False Map.empty)\<lparr>routes := [(''/a'', CachedRoute sample_buf sample_cache_lib ''/a'' [''x''] (sample_request ''/a''))]\<rparr>"
  let ?config = "sample_config\<lparr>enableP2P := True, geo_ip_enabled := False\<rparr>"
  have d: "distinct_keys (routes ?c)" by (simp add: distinct_keys_def)
  have r: "reported_nodes sample_http ?config (Some (NetworkState_with sample_geo)) (sample_request ''/'') = Inr (Some [])"
    by (simp add: reported_nodes_def direct_edge_nodes_def getEdgeNodes_def NetworkState_with_def)
  have "map_option (\<lambda>r. SJ_string (getHash r)) (getCachedRoute ?c ''/a'') = Some (SJ_string ''x'')"
    by (simp add: getCachedRoute_def map_find_def content_hash_def sample_cache_lib_def sample_buf_def)
  moreover have "j_string sample_json_lib = SJ_string" by (simp add: sample_json_lib_def)
  ultimately show ?thesis using direct_reply_contents [OF sample_json_ok d r] by metis
qed

text \<open>
  C32: with geographic routing on and no edge node known, a direct request never gets an
  answer: before the first update of the network state it follows a null pointer, after an
  update without nodes the exception of \<open>at\<close> terminates the process.
\<close>

theorem direct_request_without_nodes:
  assumes "enableP2P config" "geo_ip_enabled config" "geo_ready config (ns_geo ns)"
    and "ns_consistent config ns" "edgeNodes ns = []"
  shows "DirectHandler_onRequest M J cache config (Some ns) m =
     Inl (if map_option treeData (ns_geo ns) = Some None then Undefined else Aborts ''terminate'')"
proof -
  obtain g where g: "ns_geo ns = Some g" "\<And>i. \<exists>l. lookupCoordinates g i = Inr l"
    using assms(2,3) unfolding geo_ready_def by blast
  obtain l where l: "lookupCoordinates g (h_getClientIP M m) = Inr l" using g(2) by blast
  show ?thesis
  proof (cases "treeData g")
    case None
    with g(1) l assms show ?thesis
      by (simp add: DirectHandler_onRequest_eq reported_nodes_def direct_edge_nodes_def
          getNearestEdgeNodes_ip_def getNearestEdgeNodes_before_poll)
  next
    case (Some td)
    with assms(2,4) g(1) have "tree_data_ok td" "td_cloud td = edgeNodes ns" by (auto simp: ns_consistent_def)
    from getNearestEdgeNodes_empty [OF g(1) Some this _ assms(5), of 5 l] Some g(1) l assms(1,2) show ?thesis
      by (simp add: DirectHandler_onRequest_eq reported_nodes_def direct_edge_nodes_def getNearestEdgeNodes_ip_def)
  qed
qed

theorem direct_request_without_nodes_witness:
  "DirectHandler_onRequest sample_http sample_json_lib (ContentCache 1024 ''d/'' True Map.empty :: (sample_msg, string list) content_cache)
     (sample_config\<lparr>enableP2P := True\<rparr>) (Some (NetworkState_with sample_geo)) (sample_request ''/'') = Inl Undefined"
  using direct_request_without_nodes [of "sample_config\<lparr>enableP2P := True\<rparr>" "NetworkState_with sample_geo"
      sample_http sample_json_lib "ContentCache 1024 ''d/'' True Map.empty" "sample_request ''/''"]
    sample_geo_ready [of "sample_config\<lparr>enableP2P := True\<rparr>"]
  by (simp add: NetworkState_with_def ns_consistent_def sample_geo_def sample_config_def)

end
