(* ===== verification/MN_Proxy.thy ===== *)
theory MN_Proxy
  imports MN_Handlers
begin

text \<open>
  \<open>ProxyHandler.h\<close> and \<open>ProxyHandler.cpp\<close>: a request that is answered from the cache or else
  fetched from the origin server, relayed and cached.

  The object is a record with the members that change. What it does to the client, to the
  connector and to the transaction with the origin is a list of effects. Each callback is a
  function on the object, or on the object and the shared cache. The library's state,
  which decides what callback can come next, is \<open>lib\<close> below; other request handlers may add
  routes to the cache between any two callbacks.
\<close>

datatype ('m, 'b) effect =
    E_respond response
  | E_sendAbort
  | E_pauseIngress
  | E_resumeIngress
  | E_connect string "16 word"
  | E_origin_sendHeaders 'm
  | E_origin_sendBody "'b option"
  | E_origin_sendEOM
  | E_origin_sendAbort
  | E_origin_pauseIngress
  | E_origin_resumeIngress

text \<open>A transaction is known by a number.\<close>

record ('m, 'b) proxy =
  request :: "'m option"
  originTxn :: "nat option"
  contentBody :: "'b option"
  contentHeaders :: "'m option"
  clientTerminated :: bool
  px_deleted :: bool
  effects :: "('m, 'b) effect list"

text \<open>The constructor arguments and the libraries; the service worker pointer may be null.\<close>

record ('m, 'b, 'u, 't, 'n) proxy_env =
  pe_http :: "'m http_lib"
  pe_url :: "'u url_lib"
  pe_buf :: "'b buf_lib"
  pe_cache :: cache_lib
  pe_html :: "('t, 'n) html_lib"
  pe_addr_fails :: "string \<Rightarrow> 16 word \<Rightarrow> bool"
  pe_config :: masternode_config
  pe_sw :: "service_worker option"

definition ProxyHandler :: "('m, 'b) proxy" where
  "ProxyHandler = \<lparr>request = None, originTxn = None, contentBody = None, contentHeaders = None,
     clientTerminated = False, px_deleted = False, effects = []\<rparr>"

definition emit :: "('m, 'b) effect list \<Rightarrow> ('m, 'b) proxy \<Rightarrow> ('m, 'b) proxy" where
  "emit es p = p\<lparr>effects := effects p @ es\<rparr>"

definition checkForShutdown :: "('m, 'b) proxy \<Rightarrow> bool \<times> ('m, 'b) proxy" where
  "checkForShutdown p =
     (if clientTerminated p \<and> originTxn p = None then (True, p\<lparr>px_deleted := True\<rparr>) else (False, p))"

definition abortDownstream :: "('m, 'b) proxy \<Rightarrow> ('m, 'b) proxy" where
  "abortDownstream p = (if \<not> clientTerminated p then emit [E_sendAbort] p else p)"

subsection \<open>The client side\<close>

text \<open>The answer for a cached route.\<close>

definition cached_content :: "('m, 'b, 'u, 't, 'n) proxy_env \<Rightarrow> ('m, 'b) cached_route \<Rightarrow> 'b result" where
  "cached_content E r =
     (let content = getContent (pe_buf E) r in
      if enableServiceWorker (pe_config E) \<and>
         contains ''text/html'' (h_rawGet (pe_http E) (getHeaders r) ''Content-Type'')
      then bindE (deref (pe_sw E)) (\<lambda>sw.
           let injected_body = injectServiceWorker (pe_html E) (pe_buf E) sw (getContent (pe_buf E) r)
           in Inr (if injected_body \<noteq> [] then copyBuffer (pe_buf E) injected_body else content))
      else Inr content)"

definition cached_response :: "('m, 'b, 'u, 't, 'n) proxy_env \<Rightarrow> ('m, 'b) cached_route \<Rightarrow> 'b \<Rightarrow> response" where
  "cached_response E r content =
     (let get = h_getSingleOrEmpty (pe_http E) (getHeaders r) in
      \<lparr>status = 200, reason = ''OK'',
       resp_headers = [(''Content-Type'', get ''Content-Type''), (''Cache-Control'', get ''Cache-Control''),
         (''ETag'', get ''ETag''), (''Expires'', get ''Expires''), (''Last-Modified'', get ''Last-Modified'')],
       resp_body = Some (chain_bytes (pe_buf E) (clone (pe_buf E) content))\<rparr>)"

definition bad_gateway :: response where
  "bad_gateway = \<lparr>status = 503, reason = ''Bad Gateway'', resp_headers = [], resp_body = None\<rparr>"

definition fetch_from_origin :: "('m, 'b, 'u, 't, 'n) proxy_env \<Rightarrow> 'm \<Rightarrow> ('m, 'b) proxy \<Rightarrow> ('m, 'b) proxy" where
  "fetch_from_origin E m p =
     (let p = p\<lparr>request := Some (h_stripPerHopHeaders (pe_http E) m)\<rparr>;
          host = origin_host (pe_config E); prt = origin_port (pe_config E)
      in if pe_addr_fails E host prt then emit [E_respond bad_gateway] p
         else emit [E_pauseIngress, E_connect host prt] p)"

definition ProxyHandler_onRequest :: "('m, 'b, 'u, 't, 'n) proxy_env \<Rightarrow> 'm \<Rightarrow> ('m, 'b) content_cache \<Rightarrow>
    ('m, 'b) proxy \<Rightarrow> ('m, 'b) proxy result" where
  "ProxyHandler_onRequest E headers cache p =
     (let p = p\<lparr>request := Some headers\<rparr>;
          url = u_parse (pe_url E) (h_getURL (pe_http E) headers)
      in case (if h_getMethod (pe_http E) headers = GET
               then getCachedRoute cache (u_getUrl (pe_url E) url) else None) of
           Some r \<Rightarrow> bindE (cached_content E r) (\<lambda>content.
                       Inr (emit [E_respond (cached_response E r content)] p))
         | None \<Rightarrow> Inr (fetch_from_origin E headers p))"

definition ProxyHandler_onBody :: "'b option \<Rightarrow> ('m, 'b) proxy \<Rightarrow> ('m, 'b) proxy" where
  "ProxyHandler_onBody body p = (if originTxn p \<noteq> None then emit [E_origin_sendBody body] p else p)"

definition ProxyHandler_onEOM :: "('m, 'b) proxy \<Rightarrow> ('m, 'b) proxy" where
  "ProxyHandler_onEOM p = (if originTxn p \<noteq> None then emit [E_origin_sendEOM] p else p)"

definition ProxyHandler_requestComplete :: "('m, 'b, 'u, 't, 'n) proxy_env \<Rightarrow> ('m, 'b) content_cache \<Rightarrow>
    ('m, 'b) proxy \<Rightarrow> (('m, 'b) proxy \<times> ('m, 'b) content_cache) result" where
  "ProxyHandler_requestComplete E cache p = noexcept
     (bindE (deref (request p)) (\<lambda>m.
      bindE (case (if h_getMethod (pe_http E) m = GET then contentBody p else None, contentHeaders p) of
               (Some b, Some h) \<Rightarrow>
                 let url = u_parse (pe_url E) (h_getURL (pe_http E) m)
                 in bindE (addCachedRoute (pe_buf E) (pe_cache E) (u_getUrl (pe_url E) url)
                             (cloneCoalesced (pe_buf E) b) h cache) (\<lambda>(_, cache). Inr cache)
             | _ \<Rightarrow> Inr cache) (\<lambda>cache.
        let p = p\<lparr>clientTerminated := True\<rparr> in Inr (snd (checkForShutdown p), cache))))"

definition ProxyHandler_onError :: "('m, 'b) proxy \<Rightarrow> ('m, 'b) proxy" where
  "ProxyHandler_onError p =
     (let p = p\<lparr>clientTerminated := True\<rparr>;
          p = (if originTxn p \<noteq> None then emit [E_origin_sendAbort] p else p)
      in snd (checkForShutdown p))"

subsection \<open>The origin side\<close>

text \<open>\<open>newTransaction\<close> sets the transaction through \<open>originSetTransaction\<close> and returns it; it may
  return null.\<close>

definition originSetTransaction :: "nat option \<Rightarrow> ('m, 'b) proxy \<Rightarrow> ('m, 'b) proxy" where
  "originSetTransaction txn p = p\<lparr>originTxn := txn\<rparr>"

definition connectSuccess :: "('m, 'b, 'u, 't, 'n) proxy_env \<Rightarrow> nat option \<Rightarrow> ('m, 'b) proxy \<Rightarrow>
    ('m, 'b) proxy result" where
  "connectSuccess E txn p =
     (let p = originSetTransaction txn p; p = p\<lparr>originTxn := txn\<rparr> in
      bindE (deref (request p)) (\<lambda>m.
        let (removed, m) = h_remove (pe_http E) ''Accept-Encoding'' m; p = p\<lparr>request := Some m\<rparr> in
        bindE (deref (originTxn p)) (\<lambda>_. Inr (emit [E_origin_sendHeaders m, E_resumeIngress] p))))"

definition connectError :: "('m, 'b) proxy \<Rightarrow> ('m, 'b) proxy" where
  "connectError p =
     (if \<not> clientTerminated p then emit [E_respond bad_gateway] p
      else snd (checkForShutdown (abortDownstream p)))"

definition originDetachTransaction :: "('m, 'b) proxy \<Rightarrow> ('m, 'b) proxy" where
  "originDetachTransaction p = snd (checkForShutdown (p\<lparr>originTxn := None\<rparr>))"

definition originOnHeadersComplete :: "'m \<Rightarrow> ('m, 'b) proxy \<Rightarrow> ('m, 'b) proxy" where
  "originOnHeadersComplete msg p = (if clientTerminated p then p else p\<lparr>contentHeaders := Some msg\<rparr>)"

definition originOnBody :: "'b buf_lib \<Rightarrow> 'b \<Rightarrow> ('m, 'b) proxy \<Rightarrow> ('m, 'b) proxy" where
  "originOnBody B chain p =
     (if clientTerminated p then p
      else case contentBody p of
             Some b \<Rightarrow> p\<lparr>contentBody := Some (prependChain B b (clone B chain))\<rparr>
           | None \<Rightarrow> p\<lparr>contentBody := Some (clone B chain)\<rparr>)"

definition relayed_response :: "('m, 'b, 'u, 't, 'n) proxy_env \<Rightarrow> 'm \<Rightarrow> 'b \<Rightarrow> response" where
  "relayed_response E h b =
     \<lparr>status = 200, reason = ''OK'', resp_headers = [(''Content-Type'', h_rawGet (pe_http E) h ''Content-Type'')],
      resp_body = Some (chain_bytes (pe_buf E) (clone (pe_buf E) b))\<rparr>"

definition originOnEOM :: "('m, 'b, 'u, 't, 'n) proxy_env \<Rightarrow> ('m, 'b) proxy \<Rightarrow> ('m, 'b) proxy" where
  "originOnEOM E p =
     (case (contentHeaders p, contentBody p) of
        (Some h, Some b) \<Rightarrow> if \<not> clientTerminated p then emit [E_respond (relayed_response E h b)] p else p
      | _ \<Rightarrow> p)"

definition originOnError :: "('m, 'b) proxy \<Rightarrow> ('m, 'b) proxy" where
  "originOnError p = abortDownstream p"

definition originOnEgressPaused :: "('m, 'b) proxy \<Rightarrow> ('m, 'b) proxy" where
  "originOnEgressPaused p =
     (if \<not> clientTerminated p \<and> originTxn p \<noteq> None then emit [E_origin_pauseIngress] p else p)"

definition originOnEgressResumed :: "('m, 'b) proxy \<Rightarrow> ('m, 'b) proxy" where
  "originOnEgressResumed p =
     (if \<not> clientTerminated p \<and> originTxn p \<noteq> None then emit [E_origin_resumeIngress] p else p)"

lemmas [handler_defs] = emit_def checkForShutdown_def abortDownstream_def fetch_from_origin_def
  ProxyHandler_onBody_def ProxyHandler_onEOM_def ProxyHandler_onError_def originSetTransaction_def
  connectSuccess_def connectError_def originDetachTransaction_def originOnHeadersComplete_def
  originOnBody_def originOnEOM_def originOnError_def originOnEgressPaused_def originOnEgressResumed_def

subsection \<open>The callbacks as a state machine\<close>

datatype ('m, 'b) px_event =
    X_onRequest 'm
  | X_onBody "'b option"
  | X_onUpgrade
  | X_onEOM
  | X_requestComplete
  | X_onError
  | X_connectSuccess "nat option"
  | X_connectError
  | X_originDetach
  | X_originHeaders 'm
  | X_originBody 'b
  | X_originChunk
  | X_originTrailers
  | X_originEOM
  | X_originUpgrade
  | X_originError
  | X_originEgressPaused
  | X_originEgressResumed
  | X_originPushed

definition px_handle :: "('m, 'b, 'u, 't, 'n) proxy_env \<Rightarrow> ('m, 'b) px_event \<Rightarrow>
    ('m, 'b) proxy \<times> ('m, 'b) content_cache \<Rightarrow> (('m, 'b) proxy \<times> ('m, 'b) content_cache) result" where
  "px_handle E ev = (\<lambda>(p, c).
     if px_deleted p then Inl Undefined else
     case ev of
       X_onRequest m \<Rightarrow> bindE (ProxyHandler_onRequest E m c p) (\<lambda>p. Inr (p, c))
     | X_onBody b \<Rightarrow> Inr (ProxyHandler_onBody b p, c)
     | X_onUpgrade \<Rightarrow> Inr (p, c)
     | X_onEOM \<Rightarrow> Inr (ProxyHandler_onEOM p, c)
     | X_requestComplete \<Rightarrow> ProxyHandler_requestComplete E c p
     | X_onError \<Rightarrow> Inr (ProxyHandler_onError p, c)
     | X_connectSuccess txn \<Rightarrow> bindE (connectSuccess E txn p) (\<lambda>p. Inr (p, c))
     | X_connectError \<Rightarrow> Inr (connectError p, c)
     | X_originDetach \<Rightarrow> Inr (originDetachTransaction p, c)
     | X_originHeaders h \<Rightarrow> Inr (originOnHeadersComplete h p, c)
     | X_originBody b \<Rightarrow> Inr (originOnBody (pe_buf E) b p, c)
     | X_originChunk \<Rightarrow> Inr (p, c)
     | X_originTrailers \<Rightarrow> Inr (p, c)
     | X_originEOM \<Rightarrow> Inr (originOnEOM E p, c)
     | X_originUpgrade \<Rightarrow> Inr (p, c)
     | X_originError \<Rightarrow> Inr (originOnError p, c)
     | X_originEgressPaused \<Rightarrow> Inr (originOnEgressPaused p, c)
     | X_originEgressResumed \<Rightarrow> Inr (originOnEgressResumed p, c)
     | X_originPushed \<Rightarrow> Inr (p, c))"

text \<open>
  What proxygen promises about the order of callbacks: the request comes first and once; a
  connection that was asked for succeeds, with a transaction, or fails, once; the origin's
  callbacks come while the transaction is attached, its end of message once and last but for
  errors; the client's completion or error comes once; a deleted handler is not called.
\<close>

datatype lib = L_fresh | L_idle | L_connecting | L_streaming | L_origin_done

definition asked_to_connect :: "('m, 'b) proxy \<Rightarrow> bool" where
  "asked_to_connect p \<longleftrightarrow> (\<exists>h prt. E_connect h prt \<in> set (effects p))"

definition allowed :: "lib \<Rightarrow> ('m, 'b) proxy \<Rightarrow> ('m, 'b) px_event \<Rightarrow> bool" where
  "allowed st p ev \<longleftrightarrow> \<not> px_deleted p \<and>
     (case ev of
        X_onRequest _ \<Rightarrow> st = L_fresh
      | X_onBody _ \<Rightarrow> st \<noteq> L_fresh \<and> \<not> clientTerminated p
      | X_onUpgrade \<Rightarrow> st \<noteq> L_fresh \<and> \<not> clientTerminated p
      | X_onEOM \<Rightarrow> st \<noteq> L_fresh \<and> \<not> clientTerminated p
      | X_requestComplete \<Rightarrow> st \<noteq> L_fresh \<and> \<not> clientTerminated p
      | X_onError \<Rightarrow> st \<noteq> L_fresh \<and> \<not> clientTerminated p
      | X_connectSuccess txn \<Rightarrow> st = L_connecting \<and> txn \<noteq> None
      | X_connectError \<Rightarrow> st = L_connecting
      | X_originDetach \<Rightarrow> st = L_streaming \<or> st = L_origin_done
      | X_originError \<Rightarrow> st = L_streaming \<or> st = L_origin_done
      | X_originEgressPaused \<Rightarrow> st = L_streaming \<or> st = L_origin_done
      | X_originEgressResumed \<Rightarrow> st = L_streaming \<or> st = L_origin_done
      | _ \<Rightarrow> st = L_streaming)"

definition next_lib :: "lib \<Rightarrow> ('m, 'b) px_event \<Rightarrow> ('m, 'b) proxy \<Rightarrow> lib" where
  "next_lib st ev p =
     (case ev of
        X_onRequest _ \<Rightarrow> if asked_to_connect p then L_connecting else L_idle
      | X_connectSuccess _ \<Rightarrow> L_streaming
      | X_connectError \<Rightarrow> L_idle
      | X_originDetach \<Rightarrow> L_idle
      | X_originEOM \<Rightarrow> L_origin_done
      | X_originError \<Rightarrow> L_origin_done
      | _ \<Rightarrow> st)"

type_synonym ('m, 'b) px_state = "lib \<times> ('m, 'b) proxy \<times> ('m, 'b) content_cache"

inductive px_trace :: "('m, 'b, 'u, 't, 'n) proxy_env \<Rightarrow> ('m, 'b) content_cache \<Rightarrow> ('m, 'b) px_event list \<Rightarrow>
    ('m, 'b) px_state \<Rightarrow> bool" for E c0 where
  px_init: "px_trace E c0 [] (L_fresh, ProxyHandler, c0)"
| px_callback: "px_trace E c0 evs (st, p, c) \<Longrightarrow> allowed st p ev \<Longrightarrow> px_handle E ev (p, c) = Inr (p', c') \<Longrightarrow>
     px_trace E c0 (evs @ [ev]) (next_lib st ev p', p', c')"
| px_other: "px_trace E c0 evs (st, p, c) \<Longrightarrow>
     addCachedRoute (pe_buf E) (pe_cache E) url b h c = Inr (ok, c') \<Longrightarrow> px_trace E c0 evs (st, p, c')"

subsection \<open>The invariant of the handler\<close>

definition responses :: "('m, 'b) proxy \<Rightarrow> response list" where
  "responses p = concat (map (\<lambda>e. case e of E_respond r \<Rightarrow> [r] | _ \<Rightarrow> []) (effects p))"

definition lifetime_ok :: "lib \<Rightarrow> ('m, 'b) proxy \<Rightarrow> bool" where
  "lifetime_ok st p \<longleftrightarrow>
     (originTxn p \<noteq> None \<longleftrightarrow> st = L_streaming \<or> st = L_origin_done) \<and>
     (px_deleted p \<longleftrightarrow> clientTerminated p \<and> originTxn p = None) \<and>
     (request p = None \<longleftrightarrow> st = L_fresh) \<and>
     (st = L_fresh \<longrightarrow> \<not> clientTerminated p \<and> effects p = []) \<and>
     ((contentBody p \<noteq> None \<or> contentHeaders p \<noteq> None) \<longrightarrow> st \<noteq> L_fresh \<and> st \<noteq> L_connecting) \<and>
     length (responses p) \<le> 1 \<and>
     (st = L_fresh \<or> st = L_connecting \<or> st = L_streaming \<longrightarrow> responses p = [])"

lemma responses_emit [simp]:
  "responses (emit es p) = responses p @ concat (map (\<lambda>e. case e of E_respond r \<Rightarrow> [r] | _ \<Rightarrow> []) es)"
  by (simp add: responses_def emit_def)

lemma emit_sel [simp]:
  "request (emit es p) = request p" "originTxn (emit es p) = originTxn p" "contentBody (emit es p) = contentBody p"
  "contentHeaders (emit es p) = contentHeaders p" "clientTerminated (emit es p) = clientTerminated p"
  "px_deleted (emit es p) = px_deleted p" "effects (emit es p) = effects p @ es"
  by (simp_all add: emit_def)

lemma responses_upd [simp]:
  "responses (p\<lparr>request := x1\<rparr>) = responses p" "responses (p\<lparr>originTxn := x2\<rparr>) = responses p"
  "responses (p\<lparr>contentBody := x3\<rparr>) = responses p" "responses (p\<lparr>contentHeaders := x4\<rparr>) = responses p"
  "responses (p\<lparr>clientTerminated := x5\<rparr>) = responses p" "responses (p\<lparr>px_deleted := x6\<rparr>) = responses p"
  by (simp_all add: responses_def)

lemma onRequest_cases:
  assumes "ProxyHandler_onRequest E m c p = Inr p'"
  obtains (hit) r content where "h_getMethod (pe_http E) m = GET"
      "getCachedRoute c (u_getUrl (pe_url E) (u_parse (pe_url E) (h_getURL (pe_http E) m))) = Some r"
      "cached_content E r = Inr content"
      "p' = emit [E_respond (cached_response E r content)] (p\<lparr>request := Some m\<rparr>)"
    | (refused) "p' = emit [E_respond bad_gateway] (p\<lparr>request := Some (h_stripPerHopHeaders (pe_http E) m)\<rparr>)"
      "pe_addr_fails E (origin_host (pe_config E)) (origin_port (pe_config E))"
    | (fetch) "p' = emit [E_pauseIngress, E_connect (origin_host (pe_config E)) (origin_port (pe_config E))]
        (p\<lparr>request := Some (h_stripPerHopHeaders (pe_http E) m)\<rparr>)"
  using assms
  by (auto simp: ProxyHandler_onRequest_def Let_def fetch_from_origin_def bindE_eq_Inr
      split: option.splits if_splits)

lemma onRequest_lifetime:
  assumes "lifetime_ok L_fresh p" "ProxyHandler_onRequest E m c p = Inr p'"
  shows "lifetime_ok (next_lib L_fresh (X_onRequest m) p') p'"
proof -
  have p: "originTxn p = None" "\<not> px_deleted p" "\<not> clientTerminated p" "effects p = []" "responses p = []"
    "contentBody p = None" "contentHeaders p = None"
    using assms(1) by (auto simp: lifetime_ok_def)
  from assms(2) show ?thesis
    by (cases rule: onRequest_cases) (use p in \<open>auto simp: lifetime_ok_def next_lib_def asked_to_connect_def\<close>)
qed

lemma requestComplete_cases:
  assumes "ProxyHandler_requestComplete E c p = Inr (p', c')"
  obtains (cached) m b h ok where "request p = Some m" "h_getMethod (pe_http E) m = GET"
      "contentBody p = Some b" "contentHeaders p = Some h"
      "addCachedRoute (pe_buf E) (pe_cache E) (u_getUrl (pe_url E) (u_parse (pe_url E) (h_getURL (pe_http E) m)))
         (cloneCoalesced (pe_buf E) b) h c = Inr (ok, c')"
      "p' = snd (checkForShutdown (p\<lparr>clientTerminated := True\<rparr>))"
    | (uncached) m where "request p = Some m" "c' = c"
      "h_getMethod (pe_http E) m \<noteq> GET \<or> contentBody p = None \<or> contentHeaders p = None"
      "p' = snd (checkForShutdown (p\<lparr>clientTerminated := True\<rparr>))"
  using assms
  by (cases "request p")
    (auto simp: ProxyHandler_requestComplete_def Let_def bindE_eq_Inr split: option.splits if_splits)

lemma checkForShutdown_sel [simp]:
  "request (snd (checkForShutdown p)) = request p" "originTxn (snd (checkForShutdown p)) = originTxn p"
  "contentBody (snd (checkForShutdown p)) = contentBody p" "contentHeaders (snd (checkForShutdown p)) = contentHeaders p"
  "clientTerminated (snd (checkForShutdown p)) = clientTerminated p" "effects (snd (checkForShutdown p)) = effects p"
  "px_deleted (snd (checkForShutdown p)) \<longleftrightarrow> px_deleted p \<or> (clientTerminated p \<and> originTxn p = None)"
  "responses (snd (checkForShutdown p)) = responses p"
  by (auto simp: checkForShutdown_def)

lemma connectSuccess_cases:
  assumes "connectSuccess E txn p = Inr p'"
  obtains m t where "request p = Some m" "txn = Some t"
    "p' = emit [E_origin_sendHeaders (snd (h_remove (pe_http E) ''Accept-Encoding'' m)), E_resumeIngress]
       (p\<lparr>originTxn := Some t, request := Some (snd (h_remove (pe_http E) ''Accept-Encoding'' m))\<rparr>)"
  using assms
  by (cases "request p"; cases txn)
    (auto simp: connectSuccess_def originSetTransaction_def Let_def split: prod.splits)

lemma px_handle_simps:
  assumes "\<not> px_deleted p"
  shows "px_handle E (X_onBody bo) (p, c) = Inr (ProxyHandler_onBody bo p, c)"
    "px_handle E X_onEOM (p, c) = Inr (ProxyHandler_onEOM p, c)"
    "px_handle E X_onError (p, c) = Inr (ProxyHandler_onError p, c)"
    "px_handle E X_connectError (p, c) = Inr (connectError p, c)"
    "px_handle E X_originDetach (p, c) = Inr (originDetachTransaction p, c)"
    "px_handle E (X_originHeaders h) (p, c) = Inr (originOnHeadersComplete h p, c)"
    "px_handle E (X_originBody b) (p, c) = Inr (originOnBody (pe_buf E) b p, c)"
    "px_handle E X_originEOM (p, c) = Inr (originOnEOM E p, c)"
    "px_handle E X_originError (p, c) = Inr (originOnError p, c)"
    "px_handle E X_originEgressPaused (p, c) = Inr (originOnEgressPaused p, c)"
    "px_handle E X_originEgressResumed (p, c) = Inr (originOnEgressResumed p, c)"
    "ev \<in> {X_onUpgrade, X_originChunk, X_originTrailers, X_originUpgrade, X_originPushed} \<Longrightarrow>
       px_handle E ev (p, c) = Inr (p, c)"
    "px_handle E (X_onRequest m) (p, c) = bindE (ProxyHandler_onRequest E m c p) (\<lambda>p. Inr (p, c))"
    "px_handle E (X_connectSuccess txn) (p, c) = bindE (connectSuccess E txn p) (\<lambda>p. Inr (p, c))"
    "px_handle E X_requestComplete (p, c) = ProxyHandler_requestComplete E c p"
  using assms by (auto simp: px_handle_def)

lemmas lifetime_defs = lifetime_ok_def next_lib_def

lemma px_handle_lifetime:
  assumes ok: "lifetime_ok st p" and al: "allowed st p ev" and h: "px_handle E ev (p, c) = Inr (p', c')"
  shows "lifetime_ok (next_lib st ev p') p'"
proof -
  have nd: "\<not> px_deleted p" using al by (simp add: allowed_def)
  have pure: "lifetime_ok (next_lib st ev p') p'"
    if "ev \<in> {X_onUpgrade, X_originChunk, X_originTrailers, X_originUpgrade, X_originPushed}"
    using h ok that by (auto simp: px_handle_simps(12) [OF nd that] next_lib_def)
  show ?thesis
  proof (cases ev)
    case (X_onRequest m)
    with al have st: "st = L_fresh" by (simp add: allowed_def)
    from h X_onRequest have "ProxyHandler_onRequest E m c p = Inr p'"
      by (auto simp: px_handle_simps [OF nd] bindE_eq_Inr)
    with ok st X_onRequest show ?thesis by (simp add: onRequest_lifetime)
  next
    case X_requestComplete
    with h have r: "ProxyHandler_requestComplete E c p = Inr (p', c')" by (simp add: px_handle_simps [OF nd])
    then have "p' = snd (checkForShutdown (p\<lparr>clientTerminated := True\<rparr>))" by (auto elim: requestComplete_cases)
    moreover have "st \<noteq> L_fresh" using al X_requestComplete by (simp add: allowed_def)
    ultimately show ?thesis using ok nd X_requestComplete by (auto simp: lifetime_defs)
  next
    case (X_connectSuccess txn)
    with h have c: "connectSuccess E txn p = Inr p'" by (simp add: px_handle_simps [OF nd] bindE_eq_Inr)
    have "st = L_connecting" using al X_connectSuccess by (simp add: allowed_def)
    with c show ?thesis
      by (elim connectSuccess_cases) (use ok nd X_connectSuccess in \<open>auto simp: lifetime_defs\<close>)
  next
    case (X_onBody bo)
    with al h have "p' = ProxyHandler_onBody bo p" "st \<noteq> L_fresh"
      by (simp_all add: px_handle_simps [OF nd] allowed_def)
    with ok nd X_onBody show ?thesis by (auto simp: lifetime_defs ProxyHandler_onBody_def)
  next
    case X_onEOM
    with al h have "p' = ProxyHandler_onEOM p" "st \<noteq> L_fresh"
      by (simp_all add: px_handle_simps [OF nd] allowed_def)
    with ok nd X_onEOM show ?thesis by (auto simp: lifetime_defs ProxyHandler_onEOM_def)
  next
    case X_onError
    with al h have "p' = ProxyHandler_onError p" "st \<noteq> L_fresh"
      by (simp_all add: px_handle_simps [OF nd] allowed_def)
    with ok nd X_onError show ?thesis by (auto simp: lifetime_defs ProxyHandler_onError_def Let_def)
  next
    case X_connectError
    with al h have "p' = connectError p" "st = L_connecting"
      by (simp_all add: px_handle_simps [OF nd] allowed_def)
    with ok nd X_connectError show ?thesis by (auto simp: lifetime_defs connectError_def abortDownstream_def)
  next
    case X_originDetach
    with al h have "p' = originDetachTransaction p" "st = L_streaming \<or> st = L_origin_done"
      by (simp_all add: px_handle_simps [OF nd] allowed_def)
    with ok nd X_originDetach show ?thesis by (auto simp: lifetime_defs originDetachTransaction_def)
  next
    case (X_originHeaders hdr)
    with al h have "p' = originOnHeadersComplete hdr p" "st = L_streaming"
      by (simp_all add: px_handle_simps [OF nd] allowed_def)
    with ok nd X_originHeaders show ?thesis by (auto simp: lifetime_defs originOnHeadersComplete_def)
  next
    case (X_originBody b)
    with al h have "p' = originOnBody (pe_buf E) b p" "st = L_streaming"
      by (simp_all add: px_handle_simps [OF nd] allowed_def)
    with ok nd X_originBody show ?thesis by (auto simp: lifetime_defs originOnBody_def split: option.splits)
  next
    case X_originEOM
    with al h have "p' = originOnEOM E p" "st = L_streaming"
      by (simp_all add: px_handle_simps [OF nd] allowed_def)
    with ok nd X_originEOM show ?thesis by (auto simp: lifetime_defs originOnEOM_def split: option.splits)
  next
    case X_originError
    with al h have "p' = originOnError p" "st = L_streaming \<or> st = L_origin_done"
      by (simp_all add: px_handle_simps [OF nd] allowed_def)
    with ok nd X_originError show ?thesis by (auto simp: lifetime_defs originOnError_def abortDownstream_def)
  next
    case X_originEgressPaused
    with al h have "p' = originOnEgressPaused p" "st = L_streaming \<or> st = L_origin_done"
      by (simp_all add: px_handle_simps [OF nd] allowed_def)
    with ok nd X_originEgressPaused show ?thesis by (auto simp: lifetime_defs originOnEgressPaused_def)
  next
    case X_originEgressResumed
    with al h have "p' = originOnEgressResumed p" "st = L_streaming \<or> st = L_origin_done"
      by (simp_all add: px_handle_simps [OF nd] allowed_def)
    with ok nd X_originEgressResumed show ?thesis by (auto simp: lifetime_defs originOnEgressResumed_def)
  qed (use pure in simp_all)
qed

lemma px_trace_lifetime: "px_trace E c0 evs (st, p, c) \<Longrightarrow> lifetime_ok st p"
proof (induction evs "(st, p, c)" arbitrary: st p c rule: px_trace.induct)
  case px_init
  then show ?case by (simp add: lifetime_ok_def ProxyHandler_def responses_def)
next
  case (px_callback evs st p c ev p' c')
  then show ?case by (auto intro: px_handle_lifetime)
qed

end
