(* ===== verification/MN_Relay.thy ===== *)
theory MN_Relay
  imports MN_Proxy
begin

text \<open>
  What the proxy handler of \<open>ProxyHandler.cpp\<close> relays and caches, as a function of the trace of
  its callbacks: the response is the concatenation of what the origin sent, the completed
  request stores it, and the next request for the URL is answered from it. The last sections
  show that no callback fails and that every handler can reach its deletion.
\<close>

subsection \<open>What is relayed\<close>

text \<open>The bytes and the headers the origin has sent in a run.\<close>

definition received :: "'b buf_lib \<Rightarrow> ('m, 'b) px_event list \<Rightarrow> string" where
  "received B evs = concat (map (\<lambda>ev. case ev of X_originBody b \<Rightarrow> chain_bytes B b | _ \<Rightarrow> []) evs)"

definition is_body :: "('m, 'b) px_event \<Rightarrow> bool" where
  "is_body ev \<longleftrightarrow> (case ev of X_originBody _ \<Rightarrow> True | _ \<Rightarrow> False)"

definition has_body :: "('m, 'b) px_event list \<Rightarrow> bool" where
  "has_body evs \<longleftrightarrow> list_ex is_body evs"

lemma has_body_simps [simp]: "\<not> has_body []" "has_body (evs @ [ev]) \<longleftrightarrow> has_body evs \<or> is_body ev"
    "has_body [ev] \<longleftrightarrow> is_body ev"
  by (simp_all add: has_body_def)

definition origin_headers :: "('m, 'b) px_event list \<Rightarrow> 'm option" where
  "origin_headers evs = foldl (\<lambda>h ev. case ev of X_originHeaders m \<Rightarrow> Some m | _ \<Rightarrow> h) None evs"

text \<open>The response to a run in which the origin has finished: none without headers or body.\<close>

definition relayed :: "('m, 'b, 'u, 't, 'n) proxy_env \<Rightarrow> ('m, 'b) px_event list \<Rightarrow> response list" where
  "relayed E evs =
     (case origin_headers evs of
        None \<Rightarrow> []
      | Some h \<Rightarrow> if has_body evs
                  then [\<lparr>status = 200, reason = ''OK'',
                         resp_headers = [(''Content-Type'', h_rawGet (pe_http E) h ''Content-Type'')],
                         resp_body = Some (received (pe_buf E) evs)\<rparr>]
                  else [])"

lemma received_snoc [simp]:
  "received B (evs @ [ev]) = received B evs @ (case ev of X_originBody b \<Rightarrow> chain_bytes B b | _ \<Rightarrow> [])"
  "origin_headers (evs @ [ev]) = (case ev of X_originHeaders m \<Rightarrow> Some m | _ \<Rightarrow> origin_headers evs)"
  by (simp_all add: received_def origin_headers_def split: px_event.split)

lemma received_Nil [simp]: "received B [] = []" "origin_headers [] = None" "origin_headers [X_onRequest m] = None"
  by (simp_all add: received_def origin_headers_def)

definition http_ok :: "'m http_lib \<Rightarrow> bool" where
  "http_ok M \<longleftrightarrow>
     (\<forall>m. h_getURL M (h_stripPerHopHeaders M m) = h_getURL M m \<and> h_getMethod M (h_stripPerHopHeaders M m) = h_getMethod M m) \<and>
     (\<forall>k m. h_getURL M (snd (h_remove M k m)) = h_getURL M m \<and> h_getMethod M (snd (h_remove M k m)) = h_getMethod M m)"

definition same_target :: "'m http_lib \<Rightarrow> 'm \<Rightarrow> 'm \<Rightarrow> bool" where
  "same_target M m m' \<longleftrightarrow> h_getURL M m' = h_getURL M m \<and> h_getMethod M m' = h_getMethod M m"

definition relay_ok :: "('m, 'b, 'u, 't, 'n) proxy_env \<Rightarrow> ('m, 'b) px_event list \<Rightarrow> lib \<Rightarrow> ('m, 'b) proxy \<Rightarrow> bool" where
  "relay_ok E evs st p \<longleftrightarrow>
     (\<not> clientTerminated p \<longrightarrow>
        map_option (chain_bytes (pe_buf E)) (contentBody p) =
          (if has_body evs then Some (received (pe_buf E) evs) else None) \<and>
        contentHeaders p = origin_headers evs) \<and>
     (X_originEOM \<in> set evs \<longrightarrow> st = L_origin_done \<or> st = L_idle) \<and>
     (X_originEOM \<in> set evs \<longrightarrow> \<not> clientTerminated p \<longrightarrow> responses p = relayed E evs) \<and>
     (\<forall>m. X_onRequest m \<in> set evs \<longrightarrow> (\<exists>m'. request p = Some m' \<and> same_target (pe_http E) m m')) \<and>
     (st = L_fresh \<longrightarrow> evs = [])"

lemma same_target_refl [simp]: "same_target M m m"
  by (simp add: same_target_def)

lemma same_target_trans: "same_target M a b \<Longrightarrow> same_target M b c \<Longrightarrow> same_target M a c"
  by (simp add: same_target_def)

text \<open>The callbacks that leave alone what the relay depends on.\<close>

definition quiet_event :: "('m, 'b) px_event \<Rightarrow> bool" where
  "quiet_event ev \<longleftrightarrow> (case ev of X_onRequest _ \<Rightarrow> False | X_originHeaders _ \<Rightarrow> False | X_originBody _ \<Rightarrow> False
     | X_originEOM \<Rightarrow> False | X_connectError \<Rightarrow> False | _ \<Rightarrow> True)"

definition quiet_change :: "'m http_lib \<Rightarrow> ('m, 'b) proxy \<Rightarrow> ('m, 'b) proxy \<Rightarrow> bool" where
  "quiet_change M p p' \<longleftrightarrow>
     contentBody p' = contentBody p \<and> contentHeaders p' = contentHeaders p \<and> responses p' = responses p \<and>
     (clientTerminated p \<longrightarrow> clientTerminated p') \<and>
     (\<forall>m. request p = Some m \<longrightarrow> (\<exists>m'. request p' = Some m' \<and> same_target M m m'))"

lemma quiet_refl [simp]: "quiet_change M p p"
  by (simp add: quiet_change_def)

lemma px_handle_quiet:
  assumes M: "http_ok (pe_http E)" and al: "allowed st p ev" and q: "quiet_event ev"
    and h: "px_handle E ev (p, c) = Inr (p', c')"
  shows "quiet_change (pe_http E) p p'"
proof -
  have nd: "\<not> px_deleted p" using al by (simp add: allowed_def)
  note step = h [unfolded px_handle_simps [OF nd]]
  show ?thesis
  proof (cases ev)
    case X_requestComplete
    with h have "ProxyHandler_requestComplete E c p = Inr (p', c')" by (simp add: px_handle_simps [OF nd])
    then show ?thesis by (elim requestComplete_cases) (simp_all add: quiet_change_def)
  next
    case (X_connectSuccess txn)
    with h have "connectSuccess E txn p = Inr p'" by (auto simp: px_handle_simps [OF nd] bindE_eq_Inr)
    then show ?thesis using M
      by (elim connectSuccess_cases) (auto simp: quiet_change_def http_ok_def same_target_def)
  qed (use q h nd in \<open>auto simp: quiet_event_def quiet_change_def px_handle_simps ProxyHandler_onBody_def
      ProxyHandler_onEOM_def ProxyHandler_onError_def originDetachTransaction_def originOnError_def
      abortDownstream_def originOnEgressPaused_def originOnEgressResumed_def Let_def\<close>)
qed

lemma relay_quiet:
  assumes r: "relay_ok E evs st p" and q: "quiet_event ev" and al: "allowed st p ev"
    and ch: "quiet_change (pe_http E) p p'"
  shows "relay_ok E (evs @ [ev]) (next_lib st ev p') p'"
proof -
  have body: "\<not> is_body ev" "ev \<noteq> X_originEOM" "\<And>m. ev \<noteq> X_onRequest m" "received (pe_buf E) (evs @ [ev]) = received (pe_buf E) evs"
    "origin_headers (evs @ [ev]) = origin_headers evs"
    using q by (auto simp: quiet_event_def is_body_def split: px_event.splits)
  then have rel: "relayed E (evs @ [ev]) = relayed E evs" by (auto simp: relayed_def split: option.splits)
  have lib: "X_originEOM \<in> set evs \<Longrightarrow> next_lib st ev p' = L_origin_done \<or> next_lib st ev p' = L_idle"
    using r q al by (auto simp: relay_ok_def next_lib_def quiet_event_def allowed_def split: px_event.splits)
  have fresh: "next_lib st ev p' \<noteq> L_fresh"
    using q al by (auto simp: next_lib_def quiet_event_def allowed_def split: px_event.splits)
  have req: "\<exists>m'. request p' = Some m' \<and> same_target (pe_http E) m m'" if rq: "X_onRequest m \<in> set evs" for m
  proof -
    obtain m1 where m1: "request p = Some m1" "same_target (pe_http E) m m1"
      using r rq unfolding relay_ok_def by blast
    then obtain m2 where "request p' = Some m2" "same_target (pe_http E) m1 m2"
      using ch unfolding quiet_change_def by blast
    with m1(2) show ?thesis by (blast intro: same_target_trans)
  qed
  show ?thesis
    using r ch body rel lib fresh req by (auto simp: relay_ok_def quiet_change_def)
qed

lemma relay_request:
  assumes M: "http_ok (pe_http E)" and r: "relay_ok E evs L_fresh p" and l: "lifetime_ok L_fresh p"
    and h: "ProxyHandler_onRequest E m c p = Inr p'"
  shows "relay_ok E (evs @ [X_onRequest m]) (next_lib L_fresh (X_onRequest m) p') p'"
proof -
  have e: "evs = []" using r by (simp add: relay_ok_def)
  have p: "contentBody p = None" "contentHeaders p = None" using l by (auto simp: lifetime_ok_def)
  have st: "next_lib L_fresh (X_onRequest m) p' \<noteq> L_fresh" by (simp add: next_lib_def)
  from h show ?thesis
    by (cases rule: onRequest_cases)
      (use M p st in \<open>auto simp: e relay_ok_def is_body_def http_ok_def same_target_def\<close>)
qed

lemma relay_body:
  assumes B: "buf_ok (pe_buf E)" and r: "relay_ok E evs L_streaming p"
  shows "relay_ok E (evs @ [X_originBody b]) L_streaming (originOnBody (pe_buf E) b p)"
proof -
  have n: "X_originEOM \<notin> set evs" using r by (auto simp: relay_ok_def)
  have c: "chain_bytes (pe_buf E) (clone (pe_buf E) x) = chain_bytes (pe_buf E) x"
    "chain_bytes (pe_buf E) (prependChain (pe_buf E) x y) = chain_bytes (pe_buf E) x @ chain_bytes (pe_buf E) y" for x y
    using B by (simp_all add: buf_ok_def)
  have z: "received (pe_buf E) evs = []" if "\<not> has_body evs"
    using that by (induction evs) (auto simp: received_def has_body_def is_body_def split: px_event.splits)
  show ?thesis
  proof (cases "clientTerminated p")
    case True
    with r n show ?thesis by (auto simp: relay_ok_def originOnBody_def is_body_def)
  next
    case False
    with r n z show ?thesis
      by (auto simp: relay_ok_def originOnBody_def is_body_def c split: option.splits if_splits)
  qed
qed

lemma relay_headers:
  assumes r: "relay_ok E evs L_streaming p"
  shows "relay_ok E (evs @ [X_originHeaders hdr]) L_streaming (originOnHeadersComplete hdr p)"
proof -
  have n: "X_originEOM \<notin> set evs" using r by (auto simp: relay_ok_def)
  have b: "is_body (X_originHeaders hdr) = False" by (simp add: is_body_def)
  show ?thesis using r n by (auto simp: relay_ok_def originOnHeadersComplete_def b)
qed

lemma relay_eom:
  assumes B: "buf_ok (pe_buf E)" and r: "relay_ok E evs L_streaming p" and l: "lifetime_ok L_streaming p"
  shows "relay_ok E (evs @ [X_originEOM]) L_origin_done (originOnEOM E p)"
proof -
  have b: "is_body X_originEOM = False" by (simp add: is_body_def)
  have c: "chain_bytes (pe_buf E) (clone (pe_buf E) x) = chain_bytes (pe_buf E) x" for x
    using B by (simp add: buf_ok_def)
  have none: "responses p = []" using l by (simp add: lifetime_ok_def)
  show ?thesis
  proof (cases "clientTerminated p")
    case True
    with r show ?thesis by (auto simp: relay_ok_def originOnEOM_def b split: option.splits)
  next
    case False
    with r none show ?thesis
      by (auto simp: relay_ok_def originOnEOM_def relayed_response_def relayed_def b c split: option.splits if_splits)
  qed
qed

lemma relay_connect_error:
  assumes r: "relay_ok E evs L_connecting p" and l: "lifetime_ok L_connecting p" and nd: "\<not> px_deleted p"
  shows "relay_ok E (evs @ [X_connectError]) L_idle (connectError p)"
proof -
  have n: "X_originEOM \<notin> set evs" using r by (auto simp: relay_ok_def)
  have t: "\<not> clientTerminated p" using l nd by (auto simp: lifetime_ok_def)
  have b: "is_body X_connectError = False" by (simp add: is_body_def)
  show ?thesis using r n t by (auto simp: relay_ok_def connectError_def b)
qed

lemma px_trace_relay:
  assumes M: "http_ok (pe_http E)" and B: "buf_ok (pe_buf E)"
  shows "px_trace E c0 evs (st, p, c) \<Longrightarrow> relay_ok E evs st p"
proof (induction evs "(st, p, c)" arbitrary: st p c rule: px_trace.induct)
  case px_init
  then show ?case by (simp add: relay_ok_def ProxyHandler_def)
next
  case (px_callback evs st p c ev p' c')
  note l = px_trace_lifetime [OF px_callback.hyps(1)] and al = px_callback.hyps(3) and h = px_callback.hyps(4)
  have nd: "\<not> px_deleted p" using al by (simp add: allowed_def)
  note simps = px_handle_simps [OF nd] allowed_def next_lib_def
  show ?case
  proof (cases "quiet_event ev")
    case True
    show ?thesis by (rule relay_quiet [OF px_callback.hyps(2) True al px_handle_quiet [OF M al True h]])
  next
    case False
    then consider m where "ev = X_onRequest m" | hdr where "ev = X_originHeaders hdr" | b where "ev = X_originBody b"
      | "ev = X_originEOM" | "ev = X_connectError"
      by (auto simp: quiet_event_def split: px_event.splits)
    then show ?thesis
    proof cases
      case 1
      then have "st = L_fresh" "ProxyHandler_onRequest E m c p = Inr p'"
        using al h by (auto simp: simps bindE_eq_Inr)
      with relay_request [OF M] px_callback.hyps(2) l 1 show ?thesis by blast
    next
      case 2
      then show ?thesis using al h relay_headers px_callback.hyps(2) by (auto simp: simps)
    next
      case 3
      then show ?thesis using al h relay_body [OF B] px_callback.hyps(2) by (auto simp: simps)
    next
      case 4
      then show ?thesis using al h relay_eom [OF B] px_callback.hyps(2) l by (auto simp: simps)
    next
      case 5
      then show ?thesis using al h relay_connect_error px_callback.hyps(2) l nd by (auto simp: simps)
    qed
  qed
qed

subsection \<open>From one request to the next\<close>

definition cache_key :: "('m, 'b, 'u, 't, 'n) proxy_env \<Rightarrow> 'm \<Rightarrow> string" where
  "cache_key E m = u_getUrl (pe_url E) (u_parse (pe_url E) (h_getURL (pe_http E) m))"

text \<open>The page served for cached bytes: with the service worker in it, when that applies and
  works.\<close>

definition served_page :: "('m, 'b, 'u, 't, 'n) proxy_env \<Rightarrow> service_worker \<Rightarrow> 'm \<Rightarrow> string \<Rightarrow> string" where
  "served_page E sw h body =
     (let injected = inject_page (pe_html E) sw body in
      if enableServiceWorker (pe_config E) \<and> contains ''text/html'' (h_rawGet (pe_http E) h ''Content-Type'') \<and>
         injected \<noteq> []
      then injected else body)"

definition holds_page :: "('m, 'b, 'u, 't, 'n) proxy_env \<Rightarrow> ('m, 'b) content_cache \<Rightarrow> string \<Rightarrow> 'm \<Rightarrow> string \<Rightarrow> bool" where
  "holds_page E c key h body \<longleftrightarrow> (\<exists>r. getCachedRoute c key = Some r \<and> getHeaders r = h \<and>
     chain_bytes (pe_buf E) (route_content r) = body \<and> data_bytes (pe_buf E) (route_content r) = body)"

lemma holds_page_kept:
  "holds_page E c key h body \<Longrightarrow> add_routes B L rs c = Inr c' \<Longrightarrow> holds_page E c' key h body"
proof (induction rs arbitrary: c)
  case (Cons t rs)
  obtain url b hd1 where t: "t = (url, b, hd1)" by (cases t)
  then obtain ok c1 where a: "addCachedRoute B L url b hd1 c = Inr (ok, c1)" and r: "add_routes B L rs c1 = Inr c'"
    using Cons.prems(2) by (auto simp: bindE_eq_Inr)
  from Cons.prems(1) obtain x where "getCachedRoute c key = Some x" by (auto simp: holds_page_def)
  then have "getCachedRoute c1 key = getCachedRoute c key"
    using addCachedRoute_find(1) [OF a, of key] addCachedRoute_find(2) [OF a] by auto
  then have "holds_page E c1 key h body" using Cons.prems(1) by (simp add: holds_page_def)
  with Cons.IH r show ?case by blast
qed simp

lemma onRequest_hit:
  assumes B: "buf_ok (pe_buf E)" and sw: "pe_sw E = Some sw" and g: "h_getMethod (pe_http E) m = GET"
    and page: "holds_page E c (cache_key E m) h body"
  shows "\<exists>r. ProxyHandler_onRequest E m c p = Inr (emit [E_respond r] (p\<lparr>request := Some m\<rparr>)) \<and>
     status r = 200 \<and> resp_body r = Some (served_page E sw h body) \<and>
     resp_headers r = map (\<lambda>k. (k, h_getSingleOrEmpty (pe_http E) h k))
       [''Content-Type'', ''Cache-Control'', ''ETag'', ''Expires'', ''Last-Modified'']"
proof -
  obtain r where r: "getCachedRoute c (cache_key E m) = Some r" "getHeaders r = h"
    "chain_bytes (pe_buf E) (route_content r) = body" "data_bytes (pe_buf E) (route_content r) = body"
    using page by (auto simp: holds_page_def)
  have B1: "chain_bytes (pe_buf E) (clone (pe_buf E) x) = chain_bytes (pe_buf E) x"
    "data_bytes (pe_buf E) (clone (pe_buf E) x) = data_bytes (pe_buf E) x"
    "chain_bytes (pe_buf E) (copyBuffer (pe_buf E) s) = s" for x s
    using B by (simp_all add: buf_ok_def)
  have inj: "injectServiceWorker (pe_html E) (pe_buf E) sw (getContent (pe_buf E) r) = inject_page (pe_html E) sw body"
    by (rule inject_of_coalesced) (simp add: getContent_def B1 r)
  have "\<exists>x. cached_content E r = Inr x \<and> chain_bytes (pe_buf E) x = served_page E sw h body"
    using sw inj by (simp add: cached_content_def served_page_def Let_def r B1 getContent_def)
  then obtain x where x: "cached_content E r = Inr x" "chain_bytes (pe_buf E) x = served_page E sw h body" by blast
  have "ProxyHandler_onRequest E m c p = Inr (emit [E_respond (cached_response E r x)] (p\<lparr>request := Some m\<rparr>))"
    using g r(1) x(1) by (simp add: ProxyHandler_onRequest_def cache_key_def)
  moreover have "status (cached_response E r x) = 200"
    "resp_body (cached_response E r x) = Some (served_page E sw h body)"
    "resp_headers (cached_response E r x) = map (\<lambda>k. (k, h_getSingleOrEmpty (pe_http E) h k))
       [''Content-Type'', ''Cache-Control'', ''ETag'', ''Expires'', ''Last-Modified'']"
    by (simp_all add: cached_response_def Let_def B1 x(2) r(2))
  ultimately show ?thesis by blast
qed

lemma requestComplete_stores:
  assumes M: "http_ok (pe_http E)" and B: "buf_ok (pe_buf E)" and t: "px_trace E c0 evs (st, p, c)"
    and m: "X_onRequest m \<in> set evs" "h_getMethod (pe_http E) m = GET"
    and e: "X_originEOM \<in> set evs" and h: "origin_headers evs = Some hdr" and b: "has_body evs"
    and al: "\<not> clientTerminated p" and new: "getCachedRoute c (cache_key E m) = None"
    and done1: "ProxyHandler_requestComplete E c p = Inr (p', c')"
  shows "holds_page E c' (cache_key E m) hdr (received (pe_buf E) evs)"
proof -
  have r: "relay_ok E evs st p" using px_trace_relay [OF M B t] .
  obtain m' where m': "request p = Some m'" "same_target (pe_http E) m m'"
    using r m(1) unfolding relay_ok_def by blast
  obtain x where x: "contentBody p = Some x" "chain_bytes (pe_buf E) x = received (pe_buf E) evs"
    and hd1: "contentHeaders p = Some hdr"
    using r al b h by (auto simp: relay_ok_def)
  have key: "u_getUrl (pe_url E) (u_parse (pe_url E) (h_getURL (pe_http E) m')) = cache_key E m"
    using m'(2) by (simp add: cache_key_def same_target_def)
  from done1 show ?thesis
  proof (cases rule: requestComplete_cases)
    case (cached m1 b1 h1 ok)
    then have a: "addCachedRoute (pe_buf E) (pe_cache E) (cache_key E m) (cloneCoalesced (pe_buf E) x) hdr c = Inr (ok, c')"
      using m'(1) x(1) hd1 key by simp
    show ?thesis
      using addCachedRoute_find [OF a] new x(2) B
      by (auto simp: holds_page_def getHeaders_def CachedRoute_def buf_ok_def)
  next
    case (uncached m1)
    then show ?thesis using m' m(2) x hd1 by (simp add: same_target_def)
  qed
qed

subsection \<open>No request is stuck\<close>

definition env_ok :: "('m, 'b, 'u, 't, 'n) proxy_env \<Rightarrow> bool" where
  "env_ok E \<longleftrightarrow> (enableServiceWorker (pe_config E) \<longrightarrow> pe_sw E \<noteq> None) \<and>
     (\<forall>ks k. refuses (pe_cache E) ks k = None) \<and> (\<forall>f. open_fails (pe_cache E) f = None)"

lemma addCachedRoute_total:
  assumes "\<And>ks k. refuses L ks k = None" "\<And>f. open_fails L f = None"
  shows "\<exists>ok c'. addCachedRoute B L url b h c = Inr (ok, c')"
  by (cases "map_insert url (CachedRoute B L url (clone B b) h) (routes c)")
    (auto simp: addCachedRoute_def Let_def assms)

lemma px_handle_total:
  assumes ok: "env_ok E" and l: "lifetime_ok st p" and al: "allowed st p ev"
  shows "\<exists>p' c'. px_handle E ev (p, c) = Inr (p', c')"
proof -
  have nd: "\<not> px_deleted p" using al by (simp add: allowed_def)
  show ?thesis
  proof (cases ev)
    case (X_onRequest m)
    have "\<exists>x. cached_content E r = Inr x" for r
      using ok by (cases "pe_sw E") (auto simp: cached_content_def env_ok_def Let_def)
    then have "\<exists>p'. ProxyHandler_onRequest E m c p = Inr p'"
      by (auto simp: ProxyHandler_onRequest_def Let_def split: option.splits) (metis bindE_simps(1))
    then show ?thesis using X_onRequest by (auto simp: px_handle_simps [OF nd])
  next
    case X_requestComplete
    then obtain m where m: "request p = Some m" using l al by (cases "request p") (auto simp: lifetime_ok_def allowed_def)
    have add: "\<exists>c' ok. addCachedRoute (pe_buf E) (pe_cache E) url b h c = Inr (ok, c')" for url b h
      using ok addCachedRoute_total by (metis env_ok_def)
    then have "\<exists>p' c'. ProxyHandler_requestComplete E c p = Inr (p', c')"
      by (auto simp: ProxyHandler_requestComplete_def m Let_def bindE_eq_Inr split: option.splits)
    then show ?thesis using X_requestComplete by (simp add: px_handle_simps [OF nd])
  next
    case (X_connectSuccess txn)
    then obtain m t where "request p = Some m" "txn = Some t"
      using l al by (cases "request p") (auto simp: lifetime_ok_def allowed_def)
    then show ?thesis using X_connectSuccess
      by (simp add: px_handle_simps [OF nd] connectSuccess_def originSetTransaction_def Let_def split_def)
  qed (simp_all add: px_handle_simps [OF nd])
qed

subsection \<open>A sample run\<close>

definition sample_html :: "(string, unit) html_lib" where
  "sample_html = \<lparr>myhtml_parse = (\<lambda>s. (True, s)), tree_get_node_head = (\<lambda>_. Some ()),
     node_create = (\<lambda>t _. (t, ())), node_text_set = (\<lambda>_ s t. s @ t), node_append_child = (\<lambda>_ _ t. t),
     serialization = id\<rparr>"

definition sample_env :: "(sample_msg, string list, string \<times> string, string, unit) proxy_env" where
  "sample_env = \<lparr>pe_http = sample_http, pe_url = sample_urls, pe_buf = sample_buf,
     pe_cache = sample_cache_lib\<lparr>refuses := \<lambda>_ _. None\<rparr>, pe_html = sample_html,
     pe_addr_fails = (\<lambda>_ _. False), pe_config = sample_config, pe_sw = Some \<lparr>payload = ''p'', inject_script = ''sw''\<rparr>\<rparr>"

definition sample_page_headers :: sample_msg where
  "sample_page_headers = \<lparr>s_method = Other_method, s_url = '''', s_secure = False, s_headers = [(''Content-Type'', ''text/html'')]\<rparr>"

definition sample_run :: "(sample_msg, string list) px_event list" where
  "sample_run = [X_onRequest (sample_request ''/a''), X_onEOM, X_connectSuccess (Some 1), X_originHeaders sample_page_headers,
     X_originBody [''<h'', ''t''], X_originBody [''ml>''], X_originEOM, X_originDetach]"

lemma sample_env_oks: "http_ok (pe_http sample_env)" "buf_ok (pe_buf sample_env)" "env_ok sample_env"
  by (simp_all add: sample_env_def sample_buf_ok http_ok_def sample_http_def env_ok_def sample_cache_lib_def)

text \<open>The states a list of callbacks leads to, when all are allowed.\<close>

fun px_run :: "('m, 'b, 'u, 't, 'n) proxy_env \<Rightarrow> ('m, 'b) px_event list \<Rightarrow> ('m, 'b) px_state \<Rightarrow> ('m, 'b) px_state option" where
  "px_run E [] s = Some s"
| "px_run E (ev # evs) (st, p, c) =
     (if allowed st p ev
      then case px_handle E ev (p, c) of Inr (p', c') \<Rightarrow> px_run E evs (next_lib st ev p', p', c') | Inl _ \<Rightarrow> None
      else None)"

lemma px_run_trace:
  "px_trace E c0 evs0 s \<Longrightarrow> px_run E evs s = Some s' \<Longrightarrow> px_trace E c0 (evs0 @ evs) s'"
proof (induction evs arbitrary: evs0 s)
  case (Cons ev evs)
  obtain st p c where s: "s = (st, p, c)" by (cases s)
  from Cons.prems(2) s obtain p' c' where a: "allowed st p ev" "px_handle E ev (p, c) = Inr (p', c')"
    and r: "px_run E evs (next_lib st ev p', p', c') = Some s'"
    by (auto split: if_splits sum.splits)
  from px_callback [OF Cons.prems(1) [unfolded s] a] have "px_trace E c0 (evs0 @ [ev]) (next_lib st ev p', p', c')" .
  from Cons.IH [OF this r] show ?case by simp
qed simp

lemmas run_defs = px_handle_def allowed_def next_lib_def asked_to_connect_def ProxyHandler_onRequest_def
  ProxyHandler_def fetch_from_origin_def ProxyHandler_onEOM_def connectSuccess_def originSetTransaction_def
  originOnHeadersComplete_def originOnBody_def originOnEOM_def originDetachTransaction_def checkForShutdown_def emit_def
  sample_env_def sample_run_def sample_request_def sample_buf_def

definition sample_cache :: "(sample_msg, string list) content_cache" where
  "sample_cache = ContentCache 1024 ''d/'' False Map.empty"

lemma sample_cache_miss: "getCachedRoute sample_cache u = None"
  by (simp add: sample_cache_def)

lemma sample_run_ends:
  "\<exists>p. px_trace sample_env sample_cache sample_run (L_idle, p, sample_cache) \<and> \<not> clientTerminated p \<and>
     \<not> px_deleted p"
proof -
  have "\<exists>p. px_run sample_env sample_run (L_fresh, ProxyHandler, sample_cache) = Some (L_idle, p, sample_cache) \<and>
     \<not> clientTerminated p \<and> \<not> px_deleted p"
    by (simp add: run_defs sample_cache_miss Let_def sample_http_def)
  then obtain p where r: "px_run sample_env sample_run (L_fresh, ProxyHandler, sample_cache) = Some (L_idle, p, sample_cache)"
    and p: "\<not> clientTerminated p" "\<not> px_deleted p" by blast
  from px_run_trace [OF px_init r] p show ?thesis by auto
qed

lemma sample_run_facts:
  "X_onRequest (sample_request ''/a'') \<in> set sample_run" "X_originEOM \<in> set sample_run" "has_body sample_run"
  "origin_headers sample_run = Some sample_page_headers" "received sample_buf sample_run = ''<html>''"
  by (simp_all add: sample_run_def has_body_def is_body_def origin_headers_def received_def sample_buf_def)

subsection \<open>Properties\<close>

text \<open>
  C3: from a cache miss to the next hit. When the origin's answer to a GET request, of
  headers and body, has been relayed and the request completes, the next GET for that URL is
  answered at once, whatever other routes were cached meanwhile and without contacting the
  origin: with status 200, the relayed bytes (or these bytes with the service worker injected)
  and the origin's caching headers.
\<close>

theorem miss_then_hit:
  assumes "http_ok (pe_http E)" "buf_ok (pe_buf E)" "pe_sw E = Some sw"
    and "px_trace E c0 evs (st, p, c)" "X_onRequest m \<in> set evs" "h_getMethod (pe_http E) m = GET"
    and "X_originEOM \<in> set evs" "origin_headers evs = Some hdr" "has_body evs" "\<not> clientTerminated p"
    and "getCachedRoute c (cache_key E m) = None" "ProxyHandler_requestComplete E c p = Inr (p', c')"
    and "add_routes (pe_buf E) (pe_cache E) others c' = Inr c2"
    and "h_getMethod (pe_http E) m2 = GET" "cache_key E m2 = cache_key E m"
  shows "\<exists>r1 r2 p2. responses p' = [r1] \<and> resp_body r1 = Some (received (pe_buf E) evs) \<and>
     ProxyHandler_onRequest E m2 c2 ProxyHandler = Inr p2 \<and> effects p2 = [E_respond r2] \<and> status r2 = 200 \<and>
     resp_body r2 = Some (served_page E sw hdr (received (pe_buf E) evs)) \<and>
     resp_headers r2 = map (\<lambda>k. (k, h_getSingleOrEmpty (pe_http E) hdr k))
       [''Content-Type'', ''Cache-Control'', ''ETag'', ''Expires'', ''Last-Modified'']"
proof -
  have "relay_ok E evs st p" using px_trace_relay [OF assms(1,2,4)] .
  then have "responses p = relayed E evs" using assms(7,10) by (simp add: relay_ok_def)
  moreover have "responses p' = responses p" using assms(12) by (elim requestComplete_cases) simp_all
  ultimately have r1: "\<exists>r1. responses p' = [r1] \<and> resp_body r1 = Some (received (pe_buf E) evs)"
    using assms(8,9) by (simp add: relayed_def)
  have "holds_page E c' (cache_key E m) hdr (received (pe_buf E) evs)"
    using requestComplete_stores [OF assms(1,2,4,5,6,7,8,9,10,11,12)] .
  then have "holds_page E c2 (cache_key E m2) hdr (received (pe_buf E) evs)"
    using holds_page_kept assms(13,15) by metis
  from onRequest_hit [OF assms(2,3,14) this, of ProxyHandler] r1 show ?thesis
    by (fastforce simp: emit_def ProxyHandler_def)
qed

theorem miss_then_hit_witness:
  "\<exists>p p' c' r2 p2. px_trace sample_env sample_cache sample_run (L_idle, p, sample_cache) \<and>
     ProxyHandler_requestComplete sample_env sample_cache p = Inr (p', c') \<and>
     ProxyHandler_onRequest sample_env (sample_request ''/a'') c' ProxyHandler = Inr p2 \<and> effects p2 = [E_respond r2] \<and>
     resp_body r2 = Some ''sw<html>''"
proof -
  obtain p where p: "px_trace sample_env sample_cache sample_run (L_idle, p, sample_cache)" "\<not> clientTerminated p" "\<not> px_deleted p"
    using sample_run_ends by blast
  then have "\<exists>p' c'. px_handle sample_env X_requestComplete (p, sample_cache) = Inr (p', c')"
    by (intro px_handle_total [OF sample_env_oks(3) px_trace_lifetime [OF p(1)]]) (simp add: allowed_def)
  then obtain p' c' where d: "ProxyHandler_requestComplete sample_env sample_cache p = Inr (p', c')"
    using p(3) by (auto simp: px_handle_simps)
  have sw: "pe_sw sample_env = Some \<lparr>payload = ''p'', inject_script = ''sw''\<rparr>" and g: "h_getMethod (pe_http sample_env) (sample_request ''/a'') = GET"
    by (simp_all add: sample_env_def sample_request_def)
  have page: "served_page sample_env \<lparr>payload = ''p'', inject_script = ''sw''\<rparr> sample_page_headers ''<html>'' = ''sw<html>''"
    by (simp add: served_page_def inject_page_def injectServiceWorker_def sample_env_def sample_html_def sample_config_def
        default_config_def sample_page_headers_def sample_header_def)
  have e: "pe_buf sample_env = sample_buf" by (simp add: sample_env_def)
  from miss_then_hit [OF sample_env_oks(1,2) sw p(1) sample_run_facts(1) g sample_run_facts(2,4,3) p(2) sample_cache_miss d _ g refl, of "[]" c']
    p(1) d show ?thesis
    by (fastforce simp: e sample_run_facts(5) page)
qed

text \<open>
  C6: the life of the proxy handler. In every run the client gets at most one response, and
  the object is deleted exactly when the client is done and no transaction with the origin is
  attached: never earlier, when it could still be called back, and never later.
\<close>

theorem proxy_lifetime:
  assumes "px_trace E c0 evs (st, p, c)"
  shows "length (responses p) \<le> 1 \<and>
     (px_deleted p \<longleftrightarrow> clientTerminated p \<and> originTxn p = None) \<and>
     (originTxn p \<noteq> None \<longleftrightarrow> st = L_streaming \<or> st = L_origin_done)"
  using px_trace_lifetime [OF assms] by (simp add: lifetime_ok_def)

theorem proxy_lifetime_witness:
  "\<exists>p. px_trace sample_env sample_cache sample_run (L_idle, p, sample_cache) \<and> length (responses p) \<le> 1"
  using sample_run_ends proxy_lifetime by blast

text \<open>
  C7: what is relayed. Once the origin has finished and while the client waits, the client
  has been sent exactly the bytes of all the origin's body callbacks, in order, with status 200
  and the origin's content type; and nothing at all, not even an error, when the origin sent
  no headers or no body.
\<close>

theorem proxy_relays:
  assumes "http_ok (pe_http E)" "buf_ok (pe_buf E)" "px_trace E c0 evs (st, p, c)"
    and "X_originEOM \<in> set evs" "\<not> clientTerminated p"
  shows "responses p =
     (case origin_headers evs of
        None \<Rightarrow> []
      | Some h \<Rightarrow> if has_body evs
                  then [\<lparr>status = 200, reason = ''OK'',
                         resp_headers = [(''Content-Type'', h_rawGet (pe_http E) h ''Content-Type'')],
                         resp_body = Some (received (pe_buf E) evs)\<rparr>]
                  else [])"
  using px_trace_relay [OF assms(1,2,3)] assms(4,5) by (simp add: relay_ok_def relayed_def)

theorem proxy_relays_witness:
  "\<exists>p. px_trace sample_env sample_cache sample_run (L_idle, p, sample_cache) \<and>
     map resp_body (responses p) = [Some ''<html>'']"
proof -
  obtain p where p: "px_trace sample_env sample_cache sample_run (L_idle, p, sample_cache)" "\<not> clientTerminated p"
    using sample_run_ends by blast
  have e: "pe_buf sample_env = sample_buf" by (simp add: sample_env_def)
  from proxy_relays [OF sample_env_oks(1,2) p(1) sample_run_facts(2) p(2)] p(1) show ?thesis
    by (auto simp: e sample_run_facts)
qed

text \<open>
  No callback of the proxy handler goes wrong. In every reachable state every callback
  the library may make returns: no null pointer is followed and no deleted object is used,
  provided the service worker exists when it is enabled, and the cache can store.
\<close>

theorem proxy_callbacks_return:
  assumes "env_ok E" "px_trace E c0 evs (st, p, c)" "allowed st p ev"
  shows "\<exists>s. px_handle E ev (p, c) = Inr s"
  using px_handle_total [OF assms(1) px_trace_lifetime [OF assms(2)] assms(3)] by fast

theorem proxy_callbacks_return_witness:
  "\<exists>s. px_handle sample_env (X_onRequest (sample_request ''/a'')) (ProxyHandler, sample_cache) = Inr s"
  by (rule proxy_callbacks_return [OF sample_env_oks(3) px_init]) (simp add: allowed_def ProxyHandler_def)

text \<open>
  C27: no request is kept forever. From every reachable state after the request, the handler
  gets to its deletion by the events that are always possible: the client going away and the
  transaction detaching.
\<close>

theorem proxy_can_finish:
  assumes "px_trace E c0 evs (st, p, c)" "st \<noteq> L_fresh"
  shows "\<exists>evs' st' p'. set evs' \<subseteq> {X_onError, X_originDetach} \<and>
     px_trace E c0 (evs @ evs') (st', p', c) \<and> px_deleted p'"
proof (cases "px_deleted p")
  case True
  with assms(1) show ?thesis by (metis append_Nil2 empty_subsetI list.set(1))
next
  case False
  have l: "lifetime_ok st p" using px_trace_lifetime [OF assms(1)] .
  have det: "\<exists>st' p'. px_trace E c0 (evs1 @ [X_originDetach]) (st', p', c) \<and> px_deleted p'"
    if t: "px_trace E c0 evs1 (st, p1, c)" "clientTerminated p1" "originTxn p1 \<noteq> None" for evs1 p1
  proof -
    have "lifetime_ok st p1" using px_trace_lifetime [OF t(1)] .
    with t(2,3) have "allowed st p1 X_originDetach" "\<not> px_deleted p1" by (auto simp: lifetime_ok_def allowed_def)
    with px_callback [OF t(1) this(1)] have
      "px_trace E c0 (evs1 @ [X_originDetach]) (next_lib st X_originDetach (originDetachTransaction p1), originDetachTransaction p1, c)"
      by (simp add: px_handle_simps)
    moreover have "px_deleted (originDetachTransaction p1)" using t(2) by (simp add: originDetachTransaction_def)
    ultimately show ?thesis by blast
  qed
  show ?thesis
  proof (cases "clientTerminated p")
    case True
    with l False have "originTxn p \<noteq> None" by (auto simp: lifetime_ok_def)
    from det [OF assms(1) True this] show ?thesis by (intro exI [of _ "[X_originDetach]"]) auto
  next
    case alive: False
    then have al: "allowed st p X_onError" using False assms(2) by (simp add: allowed_def)
    let ?p = "ProxyHandler_onError p"
    from px_callback [OF assms(1) al] False have t: "px_trace E c0 (evs @ [X_onError]) (st, ?p, c)"
      by (simp add: px_handle_simps next_lib_def)
    have gone: "clientTerminated ?p" by (simp add: ProxyHandler_onError_def Let_def)
    show ?thesis
    proof (cases "originTxn p")
      case None
      then have "px_deleted ?p" by (simp add: ProxyHandler_onError_def Let_def)
      with t show ?thesis by (intro exI [of _ "[X_onError]"]) auto
    next
      case (Some txn)
      then have "originTxn ?p \<noteq> None" by (simp add: ProxyHandler_onError_def Let_def)
      from det [OF t gone this] show ?thesis by (intro exI [of _ "[X_onError, X_originDetach]"]) auto
    qed
  qed
qed

theorem proxy_can_finish_witness:
  "\<exists>evs st p. px_trace sample_env sample_cache (sample_run @ evs) (st, p, sample_cache) \<and> px_deleted p"
  using sample_run_ends proxy_can_finish [of sample_env sample_cache sample_run L_idle] by blast

text \<open>
  A failed connection is always answered. When \<open>connectError\<close> comes, the client is still
  waiting and has not been answered, so that it gets the 503 response and the branch of
  \<open>connectError\<close> that aborts is never taken.
\<close>

theorem connect_error_answers:
  assumes "px_trace E c0 evs (L_connecting, p, c)" "allowed L_connecting p X_connectError"
  shows "connectError p = emit [E_respond bad_gateway] p \<and> responses (connectError p) = [bad_gateway]"
proof -
  have "lifetime_ok L_connecting p" using px_trace_lifetime [OF assms(1)] .
  with assms(2) have "\<not> clientTerminated p" "responses p = []" by (auto simp: lifetime_ok_def allowed_def)
  then show ?thesis by (simp add: connectError_def)
qed

theorem connect_error_answers_witness:
  "\<exists>p. px_trace sample_env sample_cache [X_onRequest (sample_request ''/a'')] (L_connecting, p, sample_cache) \<and>
     responses (connectError p) = [bad_gateway]"
proof -
  have "\<exists>p. px_run sample_env [X_onRequest (sample_request ''/a'')] (L_fresh, ProxyHandler, sample_cache) =
      Some (L_connecting, p, sample_cache) \<and> \<not> px_deleted p"
    by (simp add: run_defs sample_cache_miss Let_def sample_http_def)
  then obtain p where r: "px_run sample_env [X_onRequest (sample_request ''/a'')] (L_fresh, ProxyHandler, sample_cache) =
      Some (L_connecting, p, sample_cache)" and nd: "\<not> px_deleted p" by blast
  from px_run_trace [OF px_init r] have t: "px_trace sample_env sample_cache [X_onRequest (sample_request ''/a'')] (L_connecting, p, sample_cache)"
    by simp
  from connect_error_answers [OF t] nd t show ?thesis by (auto simp: allowed_def)
qed

end
