(* ===== verification/MN_Router.thy ===== *)
theory MN_Router
  imports MN_Relay
begin

text \<open>
  \<open>Router.h\<close> and \<open>Router.cpp\<close>: the factory that decides which handler gets a request. The
  pointers it shares with the other components are options; \<open>'c\<close> and \<open>'s\<close> stand for the cache
  and the network state it passes on. The thread-local timer is null before \<open>onServerStart\<close>
  and after \<open>onServerStop\<close>.
\<close>

record ('c, 's) router =
  r_cache :: "'c option"
  r_config :: "masternode_config option"
  r_state :: "'s option"
  r_sw :: "service_worker option"
  r_timer :: bool

datatype ('c, 's) handler_choice =
    H_Reject nat string
  | H_Redirect masternode_config
  | H_Direct 'c masternode_config "'s option"
  | H_ServiceWorker masternode_config service_worker
  | H_Proxy bool 'c masternode_config "service_worker option"

definition Router :: "masternode_config option \<Rightarrow> 's option \<Rightarrow> 'c option \<Rightarrow> service_worker option \<Rightarrow>
    ('c, 's) router result" where
  "Router config state cache sw =
     bindE (check ''Config object was null'' config) (\<lambda>_.
     bindE (check ''Cache object was null'' cache) (\<lambda>_.
       Inr \<lparr>r_cache = cache, r_config = config, r_state = state, r_sw = sw, r_timer = False\<rparr>))"

definition onServerStart :: "('c, 's) router \<Rightarrow> ('c, 's) router" where
  "onServerStart R = R\<lparr>r_timer := True\<rparr>"

definition onServerStop :: "('c, 's) router \<Rightarrow> ('c, 's) router" where
  "onServerStop R = R\<lparr>r_timer := False\<rparr>"

definition requestIsValid :: "masternode_config \<Rightarrow> string \<Rightarrow> bool" where
  "requestIsValid config host =
     (if host = protected_domain config then True
      else if ssl_enabled config \<and>
              host = protected_domain config @ '':'' @ to_string (unat (ssl_port config)) then True
      else if host = protected_domain config @ '':'' @ to_string (unat (port config)) then True
      else False)"

definition DIRECT_HEADER_NAME :: string where
  "DIRECT_HEADER_NAME = ''Gladius-Masternode-Direct''"

text \<open>The chosen handler, and the message, which now has a Host header.\<close>

definition Router_onRequest :: "'m http_lib \<Rightarrow> ('c, 's) router \<Rightarrow> 'm \<Rightarrow>
    (('c, 's) handler_choice \<times> 'm) result" where
  "Router_onRequest M R m =
     (let m = h_ensureHostHeader M m;
          host = h_getSingleOrEmpty M m ''Host''
      in bindE (deref (r_config R)) (\<lambda>config.
         if \<not> requestIsValid config host then Inr (H_Reject 400 ''Bad Request'', m)
         else if upgrade_insecure config \<and> \<not> h_isSecure M m then Inr (H_Redirect config, m)
         else if h_rawExists M m DIRECT_HEADER_NAME
         then bindE (check ''Cache object was null'' (r_cache R)) (\<lambda>cache. Inr (H_Direct cache config (r_state R), m))
         else if enableServiceWorker config \<and> r_sw R \<noteq> None \<and> h_getURL M m = ''/gladius-service-worker.js''
         then bindE (ServiceWorkerHandler_new (Some config) (r_sw R)) (\<lambda>sw. Inr (H_ServiceWorker config sw, m))
         else bindE (deref (r_cache R)) (\<lambda>cache. Inr (H_Proxy (r_timer R) cache config (r_sw R), m))))"

subsection \<open>Which hosts are served\<close>

lemma append_port_neq: "pd @ CHR '':'' # xs \<noteq> pd"
  by simp

lemma host_port_eq: "pd @ '':'' @ to_string a = pd @ '':'' @ to_string b \<longleftrightarrow> a = b"
  by (simp only: same_append_eq to_string_inject)

lemma requestIsValid_disj:
  "requestIsValid config host \<longleftrightarrow>
     host = protected_domain config \<or>
     (ssl_enabled config \<and> host = protected_domain config @ '':'' @ to_string (unat (ssl_port config))) \<or>
     host = protected_domain config @ '':'' @ to_string (unat (port config))"
  unfolding requestIsValid_def by argo

lemma port_string_eq:
  "(pd @ '':'' @ to_string (unat p) = pd @ '':'' @ to_string (unat q)) = (p = q)" for p q :: "16 word"
  by (simp only: host_port_eq) (rule word_unat_eq_iff [symmetric])

lemma requestIsValid_port:
  "requestIsValid config (protected_domain config @ '':'' @ to_string (unat p)) \<longleftrightarrow>
     p = port config \<or> (ssl_enabled config \<and> p = ssl_port config)"
proof -
  have n: "(pd @ '':'' @ s = pd) = False" for pd s :: string by simp
  show ?thesis by (simp only: requestIsValid_disj port_string_eq n) argo
qed

lemma requestIsValid_iff:
  "requestIsValid config host \<longleftrightarrow>
     host = protected_domain config \<or>
     (\<exists>p. host = protected_domain config @ '':'' @ to_string (unat p) \<and>
          (p = port config \<or> (ssl_enabled config \<and> p = ssl_port config)))"
  unfolding requestIsValid_disj by blast


text \<open>A router that its constructor returned and the server may have started.\<close>

definition router_ok :: "('c, 's) router \<Rightarrow> bool" where
  "router_ok R \<longleftrightarrow> r_cache R \<noteq> None \<and> r_config R \<noteq> None"

lemma Router_ok: "Router config state cache sw = Inr R \<Longrightarrow> router_ok R \<and> r_config R = config \<and>
    r_cache R = cache \<and> r_state R = state \<and> r_sw R = sw"
  by (cases config; cases cache) (auto simp: Router_def router_ok_def)

lemma router_lifecycle [simp]:
  "router_ok (onServerStart R) = router_ok R" "router_ok (onServerStop R) = router_ok R"
  "r_timer (onServerStart R)" "\<not> r_timer (onServerStop R)"
  by (simp_all add: onServerStart_def onServerStop_def router_ok_def)


subsection \<open>Properties\<close>

lemma routed_cases:
  assumes "Router_onRequest M R m = Inr (h, m')" "r_config R = Some config"
  obtains (reject) "h = H_Reject 400 ''Bad Request''" "\<not> requestIsValid config (h_getSingleOrEmpty M m' ''Host'')"
  | (redirect) "h = H_Redirect config" "requestIsValid config (h_getSingleOrEmpty M m' ''Host'')"
      "upgrade_insecure config" "\<not> h_isSecure M m'"
  | (direct) cache where "h = H_Direct cache config (r_state R)" "requestIsValid config (h_getSingleOrEmpty M m' ''Host'')"
      "upgrade_insecure config \<longrightarrow> h_isSecure M m'" "h_rawExists M m' DIRECT_HEADER_NAME" "r_cache R = Some cache"
  | (script) sw where "h = H_ServiceWorker config sw" "requestIsValid config (h_getSingleOrEmpty M m' ''Host'')"
      "upgrade_insecure config \<longrightarrow> h_isSecure M m'" "\<not> h_rawExists M m' DIRECT_HEADER_NAME"
      "enableServiceWorker config" "r_sw R = Some sw" "h_getURL M m' = ''/gladius-service-worker.js''"
  | (fetch) cache where "h = H_Proxy (r_timer R) cache config (r_sw R)" "requestIsValid config (h_getSingleOrEmpty M m' ''Host'')"
      "upgrade_insecure config \<longrightarrow> h_isSecure M m'" "\<not> h_rawExists M m' DIRECT_HEADER_NAME" "r_cache R = Some cache"
      "\<not> (enableServiceWorker config \<and> r_sw R \<noteq> None \<and> h_getURL M m' = ''/gladius-service-worker.js'')"
proof -
  have "m' = h_ensureHostHeader M m"
    using assms by (auto simp: Router_onRequest_def Let_def bindE_eq_Inr split: if_splits)
  with assms show ?thesis
    by (cases "r_cache R"; cases "r_sw R")
      (auto simp: Router_onRequest_def Let_def ServiceWorkerHandler_new_def split: if_splits
        intro: reject redirect direct script fetch)
qed

text \<open>
  C9: the masternode is no open proxy. In the configuration \<open>main\<close> builds from any flags, a
  request that any handler but the rejecting and the redirecting one gets has the protected
  domain as its host, alone or with a port; the port is that of a listener of the server, and
  when the upgrade is on and a certificate is configured the request came over TLS.
\<close>

theorem only_protected_domain_served:
  assumes "r_config R = Some (main_config f)" "Router_onRequest M R m = Inr (h, m')"
    and "h \<noteq> H_Reject 400 ''Bad Request''" "h \<noteq> H_Redirect (main_config f)"
  shows "(h_getSingleOrEmpty M m' ''Host'' = FLAGS_protected_domain f \<or>
          (\<exists>b \<in> set (IPs (main_config f)). h_getSingleOrEmpty M m' ''Host'' =
             FLAGS_protected_domain f @ '':'' @ to_string (unat (bind_port b)))) \<and>
         (FLAGS_upgrade_insecure f \<and> ssl_configured f \<longrightarrow> h_isSecure M m')"
proof -
  let ?host = "h_getSingleOrEmpty M m' ''Host''"
  have pd: "protected_domain (main_config f) = FLAGS_protected_domain f"
    by (simp add: main_config_def setup_ssl_def default_config_def Let_def)
  have served: "\<exists>b \<in> set (IPs (main_config f)). bind_port b = p"
    if "p = port (main_config f) \<or> (ssl_enabled (main_config f) \<and> p = ssl_port (main_config f))" for p
    using that by (auto simp: main_config_ssl main_config_ports main_config_IPs)
  have valid: "requestIsValid (main_config f) ?host \<and> (upgrade_insecure (main_config f) \<longrightarrow> h_isSecure M m')"
    using assms(3,4) by (cases rule: routed_cases [OF assms(2,1)]) simp_all
  then have "?host = FLAGS_protected_domain f \<or>
      (\<exists>b \<in> set (IPs (main_config f)). ?host = FLAGS_protected_domain f @ '':'' @ to_string (unat (bind_port b)))"
    unfolding requestIsValid_iff pd using served by metis
  with valid show ?thesis by (simp add: main_config_ssl)
qed

definition sample_router :: "flags \<Rightarrow> (unit, unit) router" where
  "sample_router f = \<lparr>r_cache = Some (), r_config = Some (main_config f), r_state = None, r_sw = None, r_timer = True\<rparr>"

definition sample_flags :: flags where
  "sample_flags = default_flags\<lparr>FLAGS_protected_domain := ''example.com'', FLAGS_cert_path := ''c'', FLAGS_key_path := ''k''\<rparr>"

lemma sample_flags_sel [simp]: "ssl_configured sample_flags" "FLAGS_upgrade_insecure sample_flags"
  "FLAGS_protected_domain sample_flags = ''example.com''" "FLAGS_ssl_port sample_flags = 443" "FLAGS_port sample_flags = 80"
  "FLAGS_origin_host sample_flags = ''0.0.0.0''" "FLAGS_enable_service_worker sample_flags" "\<not> FLAGS_enable_p2p sample_flags"
  by (simp_all add: sample_flags_def default_flags_def ssl_configured_def)

lemma main_config_domain [simp]: "protected_domain (main_config f) = FLAGS_protected_domain f"
  by (simp add: main_config_def setup_ssl_def default_config_def Let_def)

theorem only_protected_domain_served_witness:
  "\<exists>h. Router_onRequest sample_http (sample_router sample_flags) ((sample_request ''/a'')\<lparr>s_secure := True\<rparr>) =
     Inr (h, (sample_request ''/a'')\<lparr>s_secure := True\<rparr>) \<and> h_isSecure sample_http ((sample_request ''/a'')\<lparr>s_secure := True\<rparr>)"
proof -
  let ?m = "(sample_request ''/a'')\<lparr>s_secure := True\<rparr>"
  have "Router_onRequest sample_http (sample_router sample_flags) ?m = Inr (H_Proxy True () (main_config sample_flags) None, ?m)"
    by (simp add: Router_onRequest_def sample_router_def sample_request_def requestIsValid_def sample_header_def DIRECT_HEADER_NAME_def)
  with only_protected_domain_served [of "sample_router sample_flags" sample_flags sample_http ?m _ ?m] show ?thesis
    by (fastforce simp: sample_router_def)
qed



end
