(* ===== verification/MN_Polling.thy ===== *)
theory MN_Polling
  imports MN_NetworkState
begin

text \<open>
  The polling thread of \<open>NetworkState\<close> against the threads that answer requests. The tree and
  the list of edge nodes are two objects under two locks: an update replaces the tree, then the
  list (\<open>parseStateUpdate\<close>), and a query searches the tree, then reads the list once per index
  under a lock of its own (\<open>getNearestEdgeNodes\<close>). The step relation interleaves these
  critical sections; the threads that query are numbered.
\<close>

datatype poller = P_idle | P_tree_swapped "edge_node list"

datatype reader =
    R_idle
  | R_reading "nat list" "edge_node list"
  | R_done "edge_node list"
  | R_failed fault

record 'r system =
  sys_ns :: "'r network_state"
  sys_poller :: poller
  sys_readers :: "nat \<Rightarrow> reader"

definition sys_init :: "'r network_state \<Rightarrow> 'r system" where
  "sys_init ns = \<lparr>sys_ns = ns, sys_poller = P_idle, sys_readers = (\<lambda>_. R_idle)\<rparr>"

definition set_reader :: "nat \<Rightarrow> reader \<Rightarrow> 'r system \<Rightarrow> 'r system" where
  "set_reader i r s = s\<lparr>sys_readers := (sys_readers s)(i := r)\<rparr>"

text \<open>The polling thread.\<close>

inductive poll_step :: "masternode_config \<Rightarrow> 'r system \<Rightarrow> 'r system \<Rightarrow> bool" for config where
  poll_tree: "sys_poller s = P_idle \<Longrightarrow> swap_tree config newList (sys_ns s) = Inr ns \<Longrightarrow>
     poll_step config s (s\<lparr>sys_ns := ns, sys_poller := P_tree_swapped newList\<rparr>)"
| poll_list: "sys_poller s = P_tree_swapped newList \<Longrightarrow>
     poll_step config s (s\<lparr>sys_ns := swap_list newList (sys_ns s), sys_poller := P_idle\<rparr>)"

text \<open>The thread \<open>i\<close>, one critical section at a time.\<close>

inductive read_step :: "nat \<Rightarrow> location \<Rightarrow> int \<Rightarrow> 'r system \<Rightarrow> 'r system \<Rightarrow> bool" for i l n where
  read_tree: "sys_readers s i = R_idle \<Longrightarrow> bindE (deref (ns_geo (sys_ns s))) (\<lambda>g. getNearestNodes g l n) = Inr is \<Longrightarrow>
     read_step i l n s (set_reader i (R_reading is []) s)"
| read_tree_fail: "sys_readers s i = R_idle \<Longrightarrow> bindE (deref (ns_geo (sys_ns s))) (\<lambda>g. getNearestNodes g l n) = Inl f \<Longrightarrow>
     read_step i l n s (set_reader i (R_failed f) s)"
| read_next: "sys_readers s i = R_reading (j # is) nodes \<Longrightarrow> vec_at (edgeNodes (sys_ns s)) j = Inr m \<Longrightarrow>
     read_step i l n s (set_reader i (R_reading is (nodes @ [m])) s)"
| read_fail: "sys_readers s i = R_reading (j # is) nodes \<Longrightarrow> vec_at (edgeNodes (sys_ns s)) j = Inl f \<Longrightarrow>
     read_step i l n s (set_reader i (R_failed f) s)"
| read_done: "sys_readers s i = R_reading [] nodes \<Longrightarrow>
     read_step i l n s (set_reader i (R_done nodes) s)"

inductive_cases poll_step_cases: "poll_step config s t"
inductive_cases read_step_cases: "read_step i l n s t"

definition step :: "masternode_config \<Rightarrow> 'r system \<Rightarrow> 'r system \<Rightarrow> bool" where
  "step config s t \<longleftrightarrow> poll_step config s t \<or> (\<exists>i l n. read_step i l n s t)"

abbreviation steps :: "masternode_config \<Rightarrow> 'r system \<Rightarrow> 'r system \<Rightarrow> bool" where
  "steps config \<equiv> (step config)\<^sup>*\<^sup>*"


text \<open>Both objects agree whenever no update is half done; during one, the tree is the new one.\<close>

definition sys_consistent :: "masternode_config \<Rightarrow> 'r system \<Rightarrow> bool" where
  "sys_consistent config s \<longleftrightarrow>
     (case sys_poller s of
        P_idle \<Rightarrow> ns_consistent config (sys_ns s)
      | P_tree_swapped newList \<Rightarrow> ns_consistent config (swap_list newList (sys_ns s)))"

lemma read_step_ns:
  assumes "read_step i l n s t"
  shows "sys_ns t = sys_ns s" "sys_poller t = sys_poller s"
    "\<And>k. k \<noteq> i \<Longrightarrow> sys_readers t k = sys_readers s k"
  using assms by (auto elim!: read_step_cases simp: set_reader_def)

lemma sys_init_consistent: "ns_consistent config ns \<Longrightarrow> sys_consistent config (sys_init ns)"
  by (simp add: sys_consistent_def sys_init_def)

lemma swap_tree_consistent:
  assumes "swap_tree config newList ns = Inr ns'"
  shows "ns_consistent config (swap_list newList ns')"
proof (cases "geo_ip_enabled config")
  case True
  then obtain g where g: "ns_geo ns = Some g" using assms by (cases "ns_geo ns") (auto simp: swap_tree_def)
  from swap_tree_ok [OF True g, of newList] assms show ?thesis
    by (auto simp: swap_list_def ns_consistent_def)
qed (simp add: ns_consistent_def)

lemma poll_step_consistent: "poll_step config s t \<Longrightarrow> sys_consistent config s \<Longrightarrow> sys_consistent config t"
  by (auto simp: sys_consistent_def swap_tree_consistent elim!: poll_step_cases)

lemma read_step_consistent: "read_step i l n s t \<Longrightarrow> sys_consistent config s \<Longrightarrow> sys_consistent config t"
  by (simp add: sys_consistent_def read_step_ns(1,2) split: poller.splits)

lemma step_consistent: "step config s t \<Longrightarrow> sys_consistent config s \<Longrightarrow> sys_consistent config t"
  by (auto simp: step_def intro: poll_step_consistent read_step_consistent)

lemma steps_consistent: "steps config s t \<Longrightarrow> sys_consistent config s \<Longrightarrow> sys_consistent config t"
  by (induction rule: rtranclp_induct) (auto intro: step_consistent)

subsection \<open>A query that no update interrupts\<close>

lemma set_reader_sel [simp]:
  "sys_ns (set_reader i r s) = sys_ns s"
  "sys_poller (set_reader i r s) = sys_poller s"
  "sys_readers (set_reader i r s) i = r"
  by (simp_all add: set_reader_def)

lemma set_reader_set_reader [simp]: "set_reader i r (set_reader i r' s) = set_reader i r s"
  by (simp add: set_reader_def)

lemma read_loop:
  assumes "sys_readers s i = R_reading is nodes" "mapE (vec_at (edgeNodes (sys_ns s))) is = Inr ms"
  shows "(read_step i l n)\<^sup>*\<^sup>* s (set_reader i (R_done (nodes @ ms)) s)"
  using assms
proof (induction "is" arbitrary: s nodes ms)
  case Nil
  then show ?case using read_done [of s i nodes l n] by (simp add: r_into_rtranclp)
next
  case (Cons j js)
  then obtain m ms' where m: "vec_at (edgeNodes (sys_ns s)) j = Inr m"
    and ms': "mapE (vec_at (edgeNodes (sys_ns s))) js = Inr ms'" "ms = m # ms'"
    by (auto simp: bindE_eq_Inr)
  let ?s = "set_reader i (R_reading js (nodes @ [m])) s"
  have "read_step i l n s ?s" using Cons.prems(1) m by (rule read_next)
  moreover have "(read_step i l n)\<^sup>*\<^sup>* ?s (set_reader i (R_done ((nodes @ [m]) @ ms')) ?s)"
    using ms'(1) by (intro Cons.IH) simp_all
  ultimately show ?case by (simp add: ms'(2) converse_rtranclp_into_rtranclp)
qed

lemma read_alone:
  assumes "sys_readers s i = R_idle" "getNearestEdgeNodes (sys_ns s) l n = Inr ms"
  shows "(read_step i l n)\<^sup>*\<^sup>* s (set_reader i (R_done ms) s)"
proof -
  from assms(2) obtain "is" where is1: "bindE (deref (ns_geo (sys_ns s))) (\<lambda>g. getNearestNodes g l n) = Inr is"
    and is2: "mapE (vec_at (edgeNodes (sys_ns s))) is = Inr ms"
    by (auto simp: getNearestEdgeNodes_def bindE_eq_Inr)
  let ?s = "set_reader i (R_reading is []) s"
  have "read_step i l n s ?s" using assms(1) is1 by (rule read_tree)
  moreover have "(read_step i l n)\<^sup>*\<^sup>* ?s (set_reader i (R_done ([] @ ms)) ?s)"
    using is2 by (intro read_loop) simp_all
  ultimately show ?thesis by (simp add: converse_rtranclp_into_rtranclp)
qed

subsection \<open>A query in the middle of an update\<close>




subsection \<open>Properties\<close>

text \<open>
  C13: under every interleaving of updates and queries, whenever no update is half done the
  kd-tree was built over exactly the list of edge nodes it is used to index, and during one
  it was built over the list that is about to be installed.
\<close>

theorem interleaving_consistent:
  assumes "NetworkState open_db config0 = Inr (config, ns)" "steps config (sys_init ns) s"
  shows "sys_consistent config s"
  using assms steps_consistent sys_init_consistent NetworkState_consistent by blast

theorem interleaving_consistent_witness:
  "sys_consistent sample_config ((sys_init (NetworkState_with sample_geo)) :: string system)"
  using interleaving_consistent [of "\<lambda>_. Inr sample_db" sample_config sample_config "NetworkState_with sample_geo"
      "sys_init (NetworkState_with sample_geo)"]
  by (simp add: NetworkState_def Geo_def NetworkState_with_def sample_geo_def sample_config_def)

text \<open>
  A query whose steps no update interrupts ends with the result of \<open>getNearestEdgeNodes\<close>
  on the state it started in, and leaves the state alone.
\<close>

theorem uninterrupted_query:
  assumes "sys_readers s i = R_idle" "getNearestEdgeNodes (sys_ns s) l n = Inr ms"
  shows "\<exists>t. (read_step i l n)\<^sup>*\<^sup>* s t \<and> sys_readers t i = R_done ms \<and> sys_ns t = sys_ns s"
  using read_alone [OF assms] by (metis set_reader_sel(1,3))

definition sample_nodes :: "nat \<Rightarrow> edge_node list" where
  "sample_nodes k = replicate k (EdgeNode (convertToCartesian zero_location) ''1.1.1.1'' 8080 ''0xab'' 1000)"

lemma sample_nodes_on_sphere: "nodes_on_sphere (sample_nodes k)"
  by (simp add: nodes_on_sphere_def sample_nodes_def getLocation_def EdgeNode_def)

definition sample_ns :: "string network_state" where
  "sample_ns = (case swap_tree sample_config (sample_nodes 1) (NetworkState_with sample_geo) of
       Inr ns \<Rightarrow> swap_list (sample_nodes 1) ns | Inl _ \<Rightarrow> NetworkState_with sample_geo)"

lemma sample_ns_facts:
  "\<exists>g td. ns_geo sample_ns = Some g \<and> treeData g = Some td \<and> tree_data_ok td \<and> td_cloud td = edgeNodes sample_ns"
  "edgeNodes sample_ns = sample_nodes 1"
  using swap_tree_ok [of sample_config "NetworkState_with sample_geo" sample_geo "sample_nodes 1"]
  by (auto simp: sample_ns_def NetworkState_with_def swap_list_def sample_config_def)

lemma sample_query: "\<exists>ms. getNearestEdgeNodes sample_ns (convertToCartesian zero_location) 1 = Inr ms"
proof -
  from sample_ns_facts obtain g td where f: "ns_geo sample_ns = Some g" "treeData g = Some td" "tree_data_ok td"
    "td_cloud td = edgeNodes sample_ns" "edgeNodes sample_ns \<noteq> []" by (auto simp: sample_nodes_def)
  show ?thesis
    using getNearestEdgeNodes_eq [OF f(1-4) _ f(5), of 1 "convertToCartesian zero_location"]
      sample_nodes_on_sphere [of 1] sample_ns_facts(2) by auto
qed

theorem uninterrupted_query_witness:
  "\<exists>ms t. (read_step 0 (convertToCartesian zero_location) 1)\<^sup>*\<^sup>* (sys_init sample_ns) t \<and>
     getNearestEdgeNodes sample_ns (convertToCartesian zero_location) 1 = Inr ms \<and> sys_readers t 0 = R_done ms"
  using uninterrupted_query [of "sys_init sample_ns" 0 "convertToCartesian zero_location" 1] sample_query
  by (fastforce simp: sys_init_def)



end
