(* ===== verification/MN_Server.thy ===== *)
theory MN_Server
  imports MN_Router MN_Polling
begin

text \<open>
  \<open>Masternode.h\<close> and \<open>Masternode.cpp\<close>: the object that owns the network state, the content
  cache, the service worker and the router, and the running server: polling rounds, new
  requests and the callbacks of all proxy handlers, in any order.

  The configuration is one shared object, which only the constructor of the network state
  changes. The router points to the cache and the state of the masternode (\<open>Cache_ptr\<close>,
  \<open>State_ptr\<close>). Starting proxygen's server on a list of bindings is a parameter: it throws, or
  returns whether the server came up; the threads of a server that came up have run
  \<open>onServerStart\<close>.
\<close>

datatype cache_ptr = Cache_ptr
datatype state_ptr = State_ptr

record ('m, 'b, 'r) masternode =
  mn_bound :: "ip_binding list option"
  mn_running :: bool
  mn_config :: masternode_config
  mn_state :: "'r network_state option"
  mn_cache :: "('m, 'b) content_cache"
  mn_sw :: "service_worker option"
  mn_router :: "(cache_ptr, state_ptr) router"
  mn_polling :: bool

definition Masternode :: "(string \<Rightarrow> cpp_exception + 'r geo_db) \<Rightarrow> (string \<Rightarrow> string option) \<Rightarrow>
    (string \<rightharpoonup> string) \<Rightarrow> masternode_config option \<Rightarrow> ('m, 'b, 'r) masternode result" where
  "Masternode open_db readFile fs config =
     bindE (check ''Config object was null'' config) (\<lambda>config.
     bindE (if enableP2P config
            then bindE (NetworkState open_db config) (\<lambda>(config, ns). Inr (config, Some ns))
            else Inr (config, None)) (\<lambda>(config, state).
     let cache = ContentCache (unat (maxRoutesToCache config)) (cache_directory config) (enableP2P config) fs in
     bindE (if enableServiceWorker config
            then bindE (ServiceWorker readFile (service_worker_path config)) (\<lambda>sw. Inr (Some sw))
            else Inr None) (\<lambda>sw.
     bindE (Router (Some config) (map_option (\<lambda>_. State_ptr) state) (Some Cache_ptr) sw) (\<lambda>router.
       Inr \<lparr>mn_bound = None, mn_running = False, mn_config = config, mn_state = state, mn_cache = cache,
            mn_sw = sw, mn_router = router, mn_polling = False\<rparr>))))"

definition Masternode_start :: "(ip_binding list \<Rightarrow> cpp_exception + bool) \<Rightarrow> ('m, 'b, 'r) masternode \<Rightarrow>
    ('m, 'b, 'r) masternode result" where
  "Masternode_start server_start S =
     (let S = (if enableP2P (mn_config S) \<and> mn_state S \<noteq> None then S\<lparr>mn_polling := True\<rparr> else S);
          S = S\<lparr>mn_bound := Some (IPs (mn_config S))\<rparr>
      in bindE (liftE (server_start (IPs (mn_config S)))) (\<lambda>up.
           Inr (if up then S\<lparr>mn_running := True, mn_router := onServerStart (mn_router S)\<rparr> else S)))"

definition Masternode_stop :: "('m, 'b, 'r) masternode \<Rightarrow> ('m, 'b, 'r) masternode" where
  "Masternode_stop S = S\<lparr>mn_running := False, mn_router := onServerStop (mn_router S)\<rparr>"

subsection \<open>What the constructor establishes\<close>

definition mn_ok :: "('m, 'b, 'r) masternode \<Rightarrow> bool" where
  "mn_ok S \<longleftrightarrow>
     (mn_state S \<noteq> None \<longleftrightarrow> enableP2P (mn_config S)) \<and>
     (mn_sw S \<noteq> None \<longleftrightarrow> enableServiceWorker (mn_config S)) \<and>
     cc_write_to_disk (mn_cache S) = enableP2P (mn_config S) \<and>
     r_cache (mn_router S) = Some Cache_ptr \<and> r_config (mn_router S) = Some (mn_config S) \<and>
     r_state (mn_router S) = map_option (\<lambda>_. State_ptr) (mn_state S) \<and> r_sw (mn_router S) = mn_sw S \<and>
     (\<forall>ns. mn_state S = Some ns \<longrightarrow> ns_consistent (mn_config S) ns) \<and>
     (mn_polling S \<longrightarrow> enableP2P (mn_config S))"

lemma NetworkState_config:
  "NetworkState open_db config = Inr (config', ns) \<Longrightarrow> config' = config \<or> config' = config\<lparr>geo_ip_enabled := False\<rparr>"
  by (auto simp: NetworkState_def split: if_splits sum.splits cpp_exception.splits)

lemma Masternode_ok:
  assumes "Masternode open_db readFile fs config = Inr S"
  shows "mn_ok S \<and> routes (mn_cache S) = [] \<and> \<not> mn_running S \<and> \<not> mn_polling S"
proof -
  from assms obtain c0 c1 st sw R where c: "config = Some c0"
    and st: "(if enableP2P c0 then bindE (NetworkState open_db c0) (\<lambda>(config, ns). Inr (config, Some ns)) else Inr (c0, None)) = Inr (c1, st)"
    and sw: "(if enableServiceWorker c1 then bindE (ServiceWorker readFile (service_worker_path c1)) (\<lambda>sw. Inr (Some sw)) else Inr None) = Inr sw"
    and R: "Router (Some c1) (map_option (\<lambda>_. State_ptr) st) (Some Cache_ptr) sw = Inr R"
    and S: "S = \<lparr>mn_bound = None, mn_running = False, mn_config = c1, mn_state = st,
        mn_cache = ContentCache (unat (maxRoutesToCache c1)) (cache_directory c1) (enableP2P c1) fs,
        mn_sw = sw, mn_router = R, mn_polling = False\<rparr>"
    unfolding Masternode_def by (cases config) (auto simp: bindE_eq_Inr Let_def)
  have "(st \<noteq> None \<longleftrightarrow> enableP2P c1) \<and> (\<forall>ns. st = Some ns \<longrightarrow> ns_consistent c1 ns)"
  proof (cases "enableP2P c0")
    case True
    with st obtain ns where n: "NetworkState open_db c0 = Inr (c1, ns)" "st = Some ns" by (auto simp: bindE_eq_Inr)
    with True NetworkState_config [OF n(1)] NetworkState_consistent [OF n(1)] show ?thesis by auto
  qed (use st in auto)
  moreover have "sw \<noteq> None \<longleftrightarrow> enableServiceWorker c1" using sw by (auto simp: bindE_eq_Inr split: if_splits)
  ultimately show ?thesis using Router_ok [OF R] by (auto simp: S mn_ok_def ContentCache_def)
qed

lemma Masternode_start_ok: "mn_ok S \<Longrightarrow> Masternode_start srv S = Inr S' \<Longrightarrow> mn_ok S' \<and> mn_cache S' = mn_cache S \<and>
    mn_config S' = mn_config S \<and> mn_sw S' = mn_sw S \<and> mn_state S' = mn_state S"
  by (auto simp: Masternode_start_def Let_def bindE_eq_Inr mn_ok_def onServerStart_def split: if_splits)

lemma Masternode_stop_ok: "mn_ok S \<Longrightarrow> mn_ok (Masternode_stop S)"
  by (simp add: Masternode_stop_def mn_ok_def onServerStop_def)

subsection \<open>Properties\<close>

text \<open>
  C30: when the masternode cannot be constructed: without a configuration, when the enabled
  service worker's file cannot be read, or when opening the geographic database fails otherwise
  than by a system error. A system error only switches geographic routing off.
\<close>

theorem Masternode_fails_iff:
  "((\<exists>e. Masternode open_db readFile fs config = Inl e) \<longleftrightarrow>
      (case config of
         None \<Rightarrow> True
       | Some c \<Rightarrow>
           (enableP2P c \<and> geo_ip_enabled c \<and>
              (\<exists>e. open_db (geoip_path c @ ''GeoLite2-City.mmdb'') = Inl e \<and> e \<noteq> System_error)) \<or>
           (enableServiceWorker c \<and> readFile (service_worker_path c) = None))) \<and>
   (\<forall>c S. config = Some c \<and> enableP2P c \<and> geo_ip_enabled c \<and>
      open_db (geoip_path c @ ''GeoLite2-City.mmdb'') = Inl System_error \<and> Masternode open_db readFile fs config = Inr S \<longrightarrow>
      mn_config S = c\<lparr>geo_ip_enabled := False\<rparr> \<and> map_option ns_geo (mn_state S) = Some None)"
proof (intro conjI)
  have sw: "ServiceWorker readFile path = (case readFile path of
      None \<Rightarrow> Inl (Aborts (''Could not read service worker javascript file: '' @ path))
    | Some s \<Rightarrow> Inr \<lparr>payload = s, inject_script = INJECT_SCRIPT\<rparr>)" for path by (simp add: ServiceWorker_def)
  note defs = Masternode_def NetworkState_def Geo_def Router_def Let_def sw
  show "(\<exists>e. Masternode open_db readFile fs config = Inl e) \<longleftrightarrow>
      (case config of
         None \<Rightarrow> True
       | Some c \<Rightarrow>
           (enableP2P c \<and> geo_ip_enabled c \<and>
              (\<exists>e. open_db (geoip_path c @ ''GeoLite2-City.mmdb'') = Inl e \<and> e \<noteq> System_error)) \<or>
           (enableServiceWorker c \<and> readFile (service_worker_path c) = None))"
  proof (cases config)
    case (Some c)
    then show ?thesis
      by (cases "open_db (geoip_path c @ ''GeoLite2-City.mmdb'')"; cases "readFile (service_worker_path c)")
        (auto simp: defs split: cpp_exception.splits)
  qed (simp add: defs)
  show "\<forall>c S. config = Some c \<and> enableP2P c \<and> geo_ip_enabled c \<and>
      open_db (geoip_path c @ ''GeoLite2-City.mmdb'') = Inl System_error \<and> Masternode open_db readFile fs config = Inr S \<longrightarrow>
      mn_config S = c\<lparr>geo_ip_enabled := False\<rparr> \<and> map_option ns_geo (mn_state S) = Some None"
    by (auto simp: defs split: option.splits if_splits)
qed

theorem Masternode_fails_iff_witness:
  "\<exists>e. Masternode (\<lambda>_. Inl System_error) (\<lambda>_. None) Map.empty (Some (main_config default_flags)) =
     (Inl e :: (sample_msg, string list, string) masternode result)"
  using Masternode_fails_iff [of "\<lambda>_. Inl System_error" "\<lambda>_. None" Map.empty "Some (main_config default_flags)"]
  by (simp add: main_config_def setup_ssl_def default_config_def default_flags_def ssl_configured_def Let_def)

end
