(* ===== verification/MN_System.thy ===== *)
theory MN_System
  imports MN_Server
begin

text \<open>
  The running masternode: requests arrive and are routed, the callbacks of all proxy handlers
  come in any order allowed for each, and the poller replaces the network state between them.
  One step is one callback or one polling round; the critical sections inside a polling round
  are the subject of \<open>MN_Polling\<close>. The handlers that answer at once change no shared state.
\<close>

subsection \<open>The state and its steps\<close>

record ('m, 'b, 'u, 't, 'n, 'd) server_libs =
  sl_http :: "'m http_lib"
  sl_url :: "'u url_lib"
  sl_buf :: "'b buf_lib"
  sl_cache :: cache_lib
  sl_html :: "('t, 'n) html_lib"
  sl_addr_fails :: "string \<Rightarrow> 16 word \<Rightarrow> bool"
  sl_dynamic :: "'d dynamic_lib"
  sl_start :: "ip_binding list \<Rightarrow> cpp_exception + bool"

text \<open>The environment of the proxy handler that the router creates.\<close>

definition new_proxy_env :: "('m, 'b, 'u, 't, 'n, 'd) server_libs \<Rightarrow> masternode_config \<Rightarrow> service_worker option \<Rightarrow>
    ('m, 'b, 'u, 't, 'n) proxy_env" where
  "new_proxy_env Ls config sw = \<lparr>pe_http = sl_http Ls, pe_url = sl_url Ls, pe_buf = sl_buf Ls,
     pe_cache = sl_cache Ls, pe_html = sl_html Ls, pe_addr_fails = sl_addr_fails Ls, pe_config = config, pe_sw = sw\<rparr>"

type_synonym ('m, 'b, 'u, 't, 'n) live_handler =
  "('m, 'b, 'u, 't, 'n) proxy_env \<times> ('m, 'b) px_event list \<times> lib \<times> ('m, 'b) proxy"

record ('m, 'b, 'r, 'u, 't, 'n) world =
  w_mn :: "('m, 'b, 'r) masternode"
  w_live :: "nat \<Rightarrow> ('m, 'b, 'u, 't, 'n) live_handler option"

definition set_cache :: "('m, 'b) content_cache \<Rightarrow> ('m, 'b, 'r) masternode \<Rightarrow> ('m, 'b, 'r) masternode" where
  "set_cache c S = S\<lparr>mn_cache := c\<rparr>"

inductive server_step :: "('m, 'b, 'u, 't, 'n, 'd) server_libs \<Rightarrow> ('m, 'b, 'r, 'u, 't, 'n) world \<Rightarrow>
    ('m, 'b, 'r, 'u, 't, 'n) world \<Rightarrow> bool" for Ls where
  sv_start: "\<not> mn_running (w_mn W) \<Longrightarrow> Masternode_start (sl_start Ls) (w_mn W) = Inr S \<Longrightarrow>
     server_step Ls W (W\<lparr>w_mn := S\<rparr>)"
| sv_stop: "mn_running (w_mn W) \<Longrightarrow> server_step Ls W (W\<lparr>w_mn := Masternode_stop (w_mn W)\<rparr>)"
| sv_poll: "mn_polling (w_mn W) \<Longrightarrow> mn_state (w_mn W) = Some ns \<Longrightarrow>
     poll_gateway (sl_dynamic Ls) (mn_config (w_mn W)) garbage now res ns = Inr ns' \<Longrightarrow>
     server_step Ls W (W\<lparr>w_mn := (w_mn W)\<lparr>mn_state := Some ns'\<rparr>\<rparr>)"
| sv_request: "mn_running (w_mn W) \<Longrightarrow> w_live W i = None \<Longrightarrow>
     Router_onRequest (sl_http Ls) (mn_router (w_mn W)) m = Inr (H_Proxy timer cache config sw, m') \<Longrightarrow>
     E = new_proxy_env Ls config sw \<Longrightarrow>
     px_handle E (X_onRequest m') (ProxyHandler, mn_cache (w_mn W)) = Inr (p', c') \<Longrightarrow>
     server_step Ls W \<lparr>w_mn = set_cache c' (w_mn W),
       w_live = (w_live W)(i \<mapsto> (E, [X_onRequest m'], next_lib L_fresh (X_onRequest m') p', p'))\<rparr>"
| sv_callback: "w_live W i = Some (E, evs, st, p) \<Longrightarrow> allowed st p ev \<Longrightarrow>
     px_handle E ev (p, mn_cache (w_mn W)) = Inr (p', c') \<Longrightarrow>
     server_step Ls W \<lparr>w_mn = set_cache c' (w_mn W),
       w_live = (w_live W)(i \<mapsto> (E, evs @ [ev], next_lib st ev p', p'))\<rparr>"

inductive server_reach :: "('m, 'b, 'u, 't, 'n, 'd) server_libs \<Rightarrow> ('m, 'b, 'r) masternode \<Rightarrow>
    ('m, 'b, 'r, 'u, 't, 'n) world \<Rightarrow> bool" for Ls S0 where
  sv_init: "server_reach Ls S0 \<lparr>w_mn = S0, w_live = Map.empty\<rparr>"
| sv_next: "server_reach Ls S0 W \<Longrightarrow> server_step Ls W W' \<Longrightarrow> server_reach Ls S0 W'"

subsection \<open>Callbacks and the shared cache\<close>

text \<open>What a callback does to the cache is at most one insertion.\<close>

lemma px_handle_cache:
  assumes "px_handle E ev (p, c) = Inr (p', c')"
  shows "c' = c \<or> (\<exists>url b h ok. addCachedRoute (pe_buf E) (pe_cache E) url b h c = Inr (ok, c'))"
proof (cases "ev = X_requestComplete")
  case True
  with assms have "ProxyHandler_requestComplete E c p = Inr (p', c')" by (simp add: px_handle_def split: if_splits)
  then show ?thesis by (cases rule: requestComplete_cases) blast+
next
  case False
  with assms show ?thesis by (auto simp: px_handle_def bindE_eq_Inr split: if_splits px_event.splits)
qed

lemma px_handle_cache_ok:
  assumes "buf_ok (pe_buf E)" "cache_ok (pe_buf E) (pe_cache E) c" "px_handle E ev (p, c) = Inr (p', c')"
  shows "cache_ok (pe_buf E) (pe_cache E) c' \<and> cc_write_to_disk c' = cc_write_to_disk c"
  using px_handle_cache [OF assms(3)] addCachedRoute_ok [OF assms(1,2)] addCachedRoute_config assms(2) by metis

text \<open>The traces of one handler absorb what the others do.\<close>

lemma px_trace_other:
  assumes "px_trace E c0 evs (st, p, c)" "px_handle E2 ev (p2, c) = Inr (p2', c')"
    and "pe_buf E2 = pe_buf E" "pe_cache E2 = pe_cache E"
  shows "px_trace E c0 evs (st, p, c')"
  using px_handle_cache [OF assms(2)] px_other [OF assms(1)] assms(1,3,4) by metis

subsection \<open>The invariant\<close>

definition live_ok :: "('m, 'b, 'u, 't, 'n, 'd) server_libs \<Rightarrow> ('m, 'b, 'r) masternode \<Rightarrow>
    ('m, 'b, 'u, 't, 'n) live_handler \<Rightarrow> bool" where
  "live_ok Ls S = (\<lambda>(E, evs, st, p). E = new_proxy_env Ls (mn_config S) (mn_sw S) \<and>
     (\<exists>c0. px_trace E c0 evs (st, p, mn_cache S)))"

definition world_ok :: "('m, 'b, 'u, 't, 'n, 'd) server_libs \<Rightarrow> ('m, 'b, 'r, 'u, 't, 'n) world \<Rightarrow> bool" where
  "world_ok Ls W \<longleftrightarrow> mn_ok (w_mn W) \<and> cache_ok (sl_buf Ls) (sl_cache Ls) (mn_cache (w_mn W)) \<and>
     (\<forall>i h. w_live W i = Some h \<longrightarrow> live_ok Ls (w_mn W) h)"

lemma world_okD: "world_ok Ls W \<Longrightarrow> w_live W i = Some h \<Longrightarrow> live_ok Ls (w_mn W) h"
  unfolding world_ok_def by blast

lemma live_ok_cong:
  "mn_config S' = mn_config S \<Longrightarrow> mn_sw S' = mn_sw S \<Longrightarrow> mn_cache S' = mn_cache S \<Longrightarrow> live_ok Ls S' h = live_ok Ls S h"
  by (simp add: live_ok_def)

lemma new_proxy_env_sel [simp]:
  "pe_buf (new_proxy_env Ls config sw) = sl_buf Ls" "pe_cache (new_proxy_env Ls config sw) = sl_cache Ls"
  "pe_config (new_proxy_env Ls config sw) = config" "pe_sw (new_proxy_env Ls config sw) = sw"
  "pe_http (new_proxy_env Ls config sw) = sl_http Ls"
  by (simp_all add: new_proxy_env_def)

lemma set_cache_sel [simp]:
  "mn_cache (set_cache c S) = c" "mn_config (set_cache c S) = mn_config S" "mn_sw (set_cache c S) = mn_sw S"
  "mn_state (set_cache c S) = mn_state S" "mn_running (set_cache c S) = mn_running S" "mn_router (set_cache c S) = mn_router S"
  by (simp_all add: set_cache_def)

lemma live_ok_other:
  assumes "live_ok Ls S h" "px_handle E ev (p, mn_cache S) = Inr (p', c')" "pe_buf E = sl_buf Ls" "pe_cache E = sl_cache Ls"
  shows "live_ok Ls (set_cache c' S) h"
proof -
  obtain E1 evs st q where h: "h = (E1, evs, st, q)" by (cases h)
  with assms(1) obtain c0 where "px_trace E1 c0 evs (st, q, mn_cache S)" and E1: "E1 = new_proxy_env Ls (mn_config S) (mn_sw S)"
    by (auto simp: live_ok_def)
  from px_trace_other [OF this(1) assms(2)] assms(3,4) E1 show ?thesis by (auto simp: live_ok_def h)
qed

lemma world_ok_callback:
  assumes B: "buf_ok (sl_buf Ls)" and W: "world_ok Ls W" and E: "E = new_proxy_env Ls (mn_config (w_mn W)) (mn_sw (w_mn W))"
    and t: "px_trace E c0 evs (st, p, mn_cache (w_mn W))" and al: "allowed st p ev"
    and h: "px_handle E ev (p, mn_cache (w_mn W)) = Inr (p', c')"
  shows "world_ok Ls \<lparr>w_mn = set_cache c' (w_mn W), w_live = (w_live W)(i \<mapsto> (E, evs @ [ev], next_lib st ev p', p'))\<rparr>"
proof -
  have new: "live_ok Ls (set_cache c' (w_mn W)) (E, evs @ [ev], next_lib st ev p', p')"
    using px_callback [OF t al h] E by (auto simp: live_ok_def)
  have old: "live_ok Ls (set_cache c' (w_mn W)) hd1" if "w_live W j = Some hd1" for j hd1
    by (rule live_ok_other [OF world_okD [OF W that] h]) (simp_all add: E)
  have c: "cache_ok (sl_buf Ls) (sl_cache Ls) c' \<and> cc_write_to_disk c' = cc_write_to_disk (mn_cache (w_mn W))"
    using px_handle_cache_ok [of E "mn_cache (w_mn W)" ev p p' c'] B W h E by (simp add: world_ok_def)
  have "mn_ok (set_cache c' (w_mn W))" using W c by (simp add: world_ok_def mn_ok_def set_cache_def)
  with c new old show ?thesis by (auto simp: world_ok_def)
qed

lemma router_proxy_choice:
  assumes "mn_ok S" "Router_onRequest M (mn_router S) m = Inr (H_Proxy timer cache config sw, m')"
  shows "config = mn_config S" "sw = mn_sw S"
proof -
  have R: "r_config (mn_router S) = Some (mn_config S)" "r_sw (mn_router S) = mn_sw S" using assms(1) by (simp_all add: mn_ok_def)
  show "config = mn_config S" "sw = mn_sw S" by (cases rule: routed_cases [OF assms(2) R(1)]; simp add: R)+
qed

lemma server_step_ok:
  assumes B: "buf_ok (sl_buf Ls)" and st: "server_step Ls W W'" and W: "world_ok Ls W"
  shows "world_ok Ls W' \<and> mn_config (w_mn W') = mn_config (w_mn W) \<and> mn_sw (w_mn W') = mn_sw (w_mn W)"
  using st
proof cases
  case (sv_start S)
  with Masternode_start_ok [of "w_mn W" "sl_start Ls" S] W show ?thesis
    by (auto simp: world_ok_def cong: live_ok_cong)
next
  case sv_stop
  have "live_ok Ls (Masternode_stop (w_mn W)) h = live_ok Ls (w_mn W) h" for h
    by (rule live_ok_cong) (simp_all add: Masternode_stop_def)
  moreover have "mn_cache (Masternode_stop (w_mn W)) = mn_cache (w_mn W)" "mn_config (Masternode_stop (w_mn W)) = mn_config (w_mn W)"
    "mn_sw (Masternode_stop (w_mn W)) = mn_sw (w_mn W)" by (simp_all add: Masternode_stop_def)
  ultimately show ?thesis using sv_stop W Masternode_stop_ok [of "w_mn W"] by (simp add: world_ok_def)
next
  case (sv_poll ns garbage now res ns')
  have "ns_consistent (mn_config (w_mn W)) ns'"
    using poll_gateway_consistent [OF _ sv_poll(4)] W sv_poll(3) by (simp add: world_ok_def mn_ok_def)
  then have "mn_ok ((w_mn W)\<lparr>mn_state := Some ns'\<rparr>)" using W sv_poll(3) by (auto simp: world_ok_def mn_ok_def)
  moreover have "live_ok Ls ((w_mn W)\<lparr>mn_state := Some ns'\<rparr>) h = live_ok Ls (w_mn W) h" for h
    by (rule live_ok_cong) simp_all
  ultimately show ?thesis using sv_poll(1) W by (simp add: world_ok_def)
next
  case (sv_request i m timer cache config sw m' E p' c')
  have mn: "mn_ok (w_mn W)" using W by (simp add: world_ok_def)
  note ch = router_proxy_choice [OF mn sv_request(4)]
  have E: "E = new_proxy_env Ls (mn_config (w_mn W)) (mn_sw (w_mn W))" using sv_request(5) ch by simp
  have "allowed L_fresh ProxyHandler (X_onRequest m')" by (simp add: allowed_def ProxyHandler_def)
  from world_ok_callback [OF B W E px_init this sv_request(6), of i] sv_request(1) show ?thesis by simp
next
  case (sv_callback i E evs st p ev p' c')
  from world_okD [OF W sv_callback(2)] obtain c0 where
    "E = new_proxy_env Ls (mn_config (w_mn W)) (mn_sw (w_mn W))" "px_trace E c0 evs (st, p, mn_cache (w_mn W))"
    by (auto simp: live_ok_def)
  from world_ok_callback [OF B W this sv_callback(3,4), of i] sv_callback(1) show ?thesis by simp
qed

lemma server_reach_ok:
  assumes "buf_ok (sl_buf Ls)" "Masternode open_db readFile fs config = Inr S0" "server_reach Ls S0 W"
  shows "world_ok Ls W \<and> mn_config (w_mn W) = mn_config S0 \<and> mn_sw (w_mn W) = mn_sw S0"
  using assms(3)
proof induction
  case sv_init
  from Masternode_ok [OF assms(2)] show ?case
    by (auto simp: world_ok_def cache_ok_def distinct_keys_def mn_ok_def)
next
  case (sv_next W W')
  with server_step_ok [OF assms(1) sv_next.hyps(2)] show ?case by simp
qed

end
