(* ===== verification/NF_Pool.thy ===== *)
theory NF_Pool
  imports MN_Prelude
begin

text \<open>
  \<open>PooledAllocator\<close> of \<open>libs/nanoflann.hpp\<close>, from which the nodes of a kd-tree are allocated:
  memory is cut from blocks that are requested from the system and chained through their first
  word; the whole pool is freed at once.

  Addresses and sizes are \<open>size_t\<close>, 64-bit words that wrap; 0 is the null pointer. The heap holds
  the live blocks (address and size, newest first) and the first word of every block. The
  system's \<open>malloc\<close> is a parameter: from the live blocks and a size to an address or null.
  \<open>loc\<close> is not initialised by the constructor.
\<close>

unbundle bit_operations_syntax

type_synonym addr = "64 word"

record heap =
  blocks :: "(addr \<times> 64 word) list"
  first_word :: "addr \<Rightarrow> addr"

record pool =
  remaining :: "64 word"
  base :: addr
  loc :: addr
  usedMemory :: "64 word"
  wastedMemory :: "64 word"

definition WORDSIZE :: "64 word" where "WORDSIZE = 16"
definition BLOCKSIZE :: "64 word" where "BLOCKSIZE = 8192"

definition sizeof_ptr :: "64 word" where "sizeof_ptr = 8"

definition internal_init :: "pool \<Rightarrow> pool" where
  "internal_init P = P\<lparr>remaining := 0, base := 0, usedMemory := 0, wastedMemory := 0\<rparr>"

definition PooledAllocator :: "addr \<Rightarrow> pool" where
  "PooledAllocator garbage =
     internal_init \<lparr>remaining = 0, base = 0, loc = garbage, usedMemory = 0, wastedMemory = 0\<rparr>"

text \<open>The loop frees the newest block and follows its first word. Freeing what is not live is
  undefined.\<close>

function free_loop :: "addr \<Rightarrow> heap \<Rightarrow> heap result" where
  "free_loop b H =
     (if b = 0 then Inr H
      else if b \<notin> fst ` set (blocks H) then Inl Undefined
      else let prev = first_word H b
           in free_loop prev (H\<lparr>blocks := filter (\<lambda>(a, n). a \<noteq> b) (blocks H)\<rparr>))"
  by pat_completeness auto
termination
proof (relation "measure (\<lambda>(b, H). length (blocks H))")
  fix b H prev assume "\<not> b \<notin> fst ` set (blocks H)"
  then obtain n where "(b, n) \<in> set (blocks H)" by auto
  then have "length (filter (\<lambda>(a, n). a \<noteq> b) (blocks H)) < length (blocks H)"
    by (intro length_filter_less) auto
  then show "((prev, H\<lparr>blocks := filter (\<lambda>(a, n). a \<noteq> b) (blocks H)\<rparr>), b, H) \<in> measure (\<lambda>(b, H). length (blocks H))"
    by simp
qed simp

declare free_loop.simps [simp del]

definition free_all :: "pool \<times> heap \<Rightarrow> (pool \<times> heap) result" where
  "free_all = (\<lambda>(P, H). bindE (free_loop (base P) H) (\<lambda>H. Inr (internal_init (P\<lparr>base := 0\<rparr>), H)))"

definition round_up :: "64 word \<Rightarrow> 64 word" where
  "round_up req_size = (req_size + (WORDSIZE - 1)) AND NOT (WORDSIZE - 1)"

text \<open>The end of \<open>malloc\<close>: cutting \<open>size\<close> bytes from the current block.\<close>

definition take_from :: "64 word \<Rightarrow> pool \<Rightarrow> addr \<times> pool" where
  "take_from sz P = (loc P, P\<lparr>loc := loc P + sz, remaining := remaining P - sz, usedMemory := usedMemory P + sz\<rparr>)"

definition pool_malloc :: "((addr \<times> 64 word) list \<Rightarrow> 64 word \<Rightarrow> addr) \<Rightarrow> 64 word \<Rightarrow> pool \<times> heap \<Rightarrow>
    addr \<times> pool \<times> heap" where
  "pool_malloc M req_size = (\<lambda>(P, H).
     let sz = round_up req_size in
     if sz > remaining P then
       let P = P\<lparr>wastedMemory := wastedMemory P + remaining P\<rparr>;
           blocksize = (if sz + sizeof_ptr + (WORDSIZE - 1) > BLOCKSIZE
                        then sz + sizeof_ptr + (WORDSIZE - 1) else BLOCKSIZE);
           m = M (blocks H) blocksize
       in if m = 0 then (0, P, H)
          else let H = H\<lparr>blocks := (m, blocksize) # blocks H, first_word := (first_word H)(m := base P)\<rparr>;
                   P = P\<lparr>base := m\<rparr>;
                   shift = 0;
                   P = P\<lparr>remaining := blocksize - sizeof_ptr - shift, loc := m + sizeof_ptr + shift\<rparr>;
                   (rloc, P) = take_from sz P
               in (rloc, P, H)
     else let (rloc, P) = take_from sz P in (rloc, P, H))"

subsection \<open>Rounding\<close>

lemma and_not_mask: "x AND NOT (mask n) = x - take_bit n x" for x :: "64 word"
proof -
  have "x - take_bit n x = x AND NOT (take_bit n x)"
    by (rule disjunctive_diff_eq_and_not) (auto intro!: bit_word_eqI simp: bit_simps)
  also have "\<dots> = x AND NOT (mask n)"
    by (rule bit_word_eqI) (auto simp: bit_simps)
  finally show ?thesis by simp
qed

lemma unat_round_up:
  assumes "unat r + 15 < 2 ^ 64"
  shows "unat (round_up r) = (unat r + 15) div 16 * 16"
proof -
  have m: "WORDSIZE - 1 = mask 4" by (simp add: WORDSIZE_def mask_eq_exp_minus_1)
  have s: "unat (r + mask 4) = unat r + 15" using assms by (simp add: unat_plus_if' mask_eq_exp_minus_1)
  have t: "unat (take_bit 4 (r + mask 4)) = (unat r + 15) mod 16"
    by (subst unsigned_take_bit_eq) (simp add: s take_bit_eq_mod del: take_bit_minus_one_eq_mask)
  have "take_bit 4 (r + mask 4) \<le> r + mask 4" by (simp add: word_le_nat_alt t s)
  then have "unat (round_up r) = (unat r + 15) - (unat r + 15) mod 16"
    by (simp add: round_up_def m and_not_mask unat_sub t s)
  then show ?thesis by (simp add: minus_mod_eq_div_mult)
qed

subsection \<open>Regions of memory\<close>

type_synonym region = "nat \<times> nat"

definition apart :: "region \<Rightarrow> region \<Rightarrow> bool" where
  "apart = (\<lambda>(a, n) (b, k). a + n \<le> b \<or> b + k \<le> a)"

definition region_of :: "addr \<times> 64 word \<Rightarrow> region" where
  "region_of = (\<lambda>(a, n). (unat a, unat n))"

definition inside :: "region \<Rightarrow> region \<Rightarrow> bool" where
  "inside = (\<lambda>(a, n) (b, k). b \<le> a \<and> a + n \<le> b + k)"

lemma apart_inside: "apart x y \<Longrightarrow> inside x' x \<Longrightarrow> inside y' y \<Longrightarrow> apart x' y'"
  by (auto simp: apart_def inside_def split: prod.splits)

lemma apart_sym: "apart x y = apart y x"
  by (auto simp: apart_def split: prod.splits)

lemma inside_refl [simp]: "inside x x"
  by (simp add: inside_def split: prod.splits)

text \<open>What \<open>malloc\<close> promises: a block that does not wrap, apart from all live blocks.\<close>

definition malloc_ok :: "((addr \<times> 64 word) list \<Rightarrow> 64 word \<Rightarrow> addr) \<Rightarrow> bool" where
  "malloc_ok M \<longleftrightarrow> (\<forall>bs n. M bs n \<noteq> 0 \<longrightarrow> unat (M bs n) + unat n < 2 ^ 64 \<and>
     (\<forall>b \<in> set bs. apart (region_of (M bs n, n)) (region_of b)))"

definition heap_ok :: "heap \<Rightarrow> bool" where
  "heap_ok H \<longleftrightarrow> (\<forall>(a, n) \<in> set (blocks H). 0 < unat n)"

subsection \<open>The invariant of the pool\<close>

text \<open>The chain of the pool's blocks \<open>bs\<close>, newest first.\<close>

fun chain :: "(addr \<Rightarrow> addr) \<Rightarrow> addr \<Rightarrow> (addr \<times> 64 word) list \<Rightarrow> bool" where
  "chain f a [] \<longleftrightarrow> a = 0"
| "chain f a ((m, n) # bs) \<longleftrightarrow> a = m \<and> m \<noteq> 0 \<and> chain f (f m) bs"

text \<open>The rest of a block behind its first word, and where in it a region may be.\<close>

definition usable :: "addr \<times> 64 word \<Rightarrow> region" where
  "usable = (\<lambda>(m, n). (unat m + 8, unat n - 8))"

definition handed_out :: "(addr \<times> 64 word) list \<Rightarrow> region \<Rightarrow> bool" where
  "handed_out bs g \<longleftrightarrow> (\<exists>b \<in> set bs. inside g (usable b) \<and> 16 dvd (fst g - fst (usable b)))"

definition blocks_ok :: "heap \<Rightarrow> (addr \<times> 64 word) list \<Rightarrow> pool \<Rightarrow> heap \<Rightarrow> bool" where
  "blocks_ok H0 bs P H \<longleftrightarrow> blocks H = bs @ blocks H0 \<and> chain (first_word H) (base P) bs \<and>
     distinct (map fst bs) \<and> fst ` set bs \<inter> fst ` set (blocks H0) = {} \<and>
     (\<forall>(m, n) \<in> set bs. unat m + unat n < 2 ^ 64 \<and> 8 \<le> unat n)"

definition free_ok :: "(addr \<times> 64 word) list \<Rightarrow> pool \<Rightarrow> bool" where
  "free_ok bs P \<longleftrightarrow> (case bs of [] \<Rightarrow> remaining P = 0
     | (m, n) # _ \<Rightarrow> unat (loc P) + unat (remaining P) = unat m + unat n \<and> unat m + 8 \<le> unat (loc P) \<and>
         16 dvd (unat (loc P) - (unat m + 8)))"

definition pool_ok :: "heap \<Rightarrow> (addr \<times> 64 word) list \<Rightarrow> region list \<Rightarrow> pool \<Rightarrow> heap \<Rightarrow> bool" where
  "pool_ok H0 bs given P H \<longleftrightarrow> blocks_ok H0 bs P H \<and> free_ok bs P \<and> sorted_wrt apart given \<and>
     (\<forall>g \<in> set given. handed_out bs g \<and> apart g (unat (loc P), unat (remaining P)))"

lemma pool_ok_init: "pool_ok H0 [] [] (PooledAllocator garbage) H0"
  by (simp add: pool_ok_def blocks_ok_def free_ok_def PooledAllocator_def internal_init_def)

lemma handed_out_more: "handed_out bs g \<Longrightarrow> handed_out (b # bs) g"
  by (auto simp: handed_out_def)

lemma take_from_ok:
  assumes ok: "pool_ok H0 bs given P H" and bs: "bs = (m, n) # bs'"
    and sz: "unat sz \<le> unat (remaining P)" "16 dvd unat sz" "k \<le> unat sz"
    and t: "take_from sz P = (p, P')"
  shows "p \<noteq> 0 \<and> pool_ok H0 bs ((unat p, k) # given) P' H"
proof -
  have f: "unat (loc P) + unat (remaining P) = unat m + unat n" "unat m + 8 \<le> unat (loc P)"
    "16 dvd (unat (loc P) - (unat m + 8))" using ok bs by (simp_all add: pool_ok_def free_ok_def)
  have lt: "unat m + unat n < 2 ^ 64" using ok bs by (simp add: pool_ok_def blocks_ok_def)
  have p: "p = loc P" and P': "P' = P\<lparr>loc := loc P + sz, remaining := remaining P - sz, usedMemory := usedMemory P + sz\<rparr>"
    using t by (auto simp: take_from_def)
  have l: "unat (loc P + sz) = unat (loc P) + unat sz" using f sz(1) lt by (subst unat_plus_if') simp
  have r: "unat (remaining P - sz) = unat (remaining P) - unat sz" using sz(1) by (simp add: unat_sub word_le_nat_alt)
  have "p \<noteq> 0" using f(2) p by (metis add_is_0 le_zero_eq numeral_eq_iff semiring_norm(85) unat_0 zero_neq_numeral)
  moreover have "unat (loc P) + unat sz - (unat m + 8) = (unat (loc P) - (unat m + 8)) + unat sz" using f(2) by simp
  then have "16 dvd (unat (loc P) + unat sz - (unat m + 8))" using f(3) sz(2) by (metis dvd_add)
  then have "free_ok bs P'"
    using f(1,2) sz(1) l r by (simp add: free_ok_def bs P')
  moreover have ap: "apart g (unat (loc P), unat (remaining P))" if "g \<in> set given" for g
    using ok that by (simp add: pool_ok_def)
  have in1: "inside (unat p, k) (unat (loc P), unat (remaining P))" using sz p by (simp add: inside_def)
  have in2: "inside (unat (loc P'), unat (remaining P')) (unat (loc P), unat (remaining P))"
    using sz(1) by (simp add: P' l r inside_def)
  moreover have "apart (unat p, k) g" if "g \<in> set given" for g
    using apart_inside [OF ap [OF that] inside_refl in1] by (rule apart_sym [THEN iffD1])
  moreover have "apart g (unat (loc P'), unat (remaining P'))" if "g \<in> set given" for g
    by (rule apart_inside [OF ap [OF that] inside_refl in2])
  moreover have "apart (unat p, k) (unat (loc P'), unat (remaining P'))" using sz by (simp add: P' p l apart_def)
  moreover have "handed_out bs (unat p, k)"
  proof -
    have "unat n - 8 = unat (remaining P) + (unat (loc P) - (unat m + 8))" using f by simp
    then show ?thesis using f sz by (auto simp: handed_out_def bs usable_def inside_def p)
  qed
  ultimately show ?thesis using ok by (auto simp: pool_ok_def blocks_ok_def P')
qed

lemma chain_upd: "m \<notin> fst ` set bs \<Longrightarrow> chain (f(m := v)) a bs = chain f a bs"
  by (induction f a bs rule: chain.induct) auto

lemma new_block_ok:
  assumes M: "malloc_ok M" and H0: "heap_ok H0" and ok: "pool_ok H0 bs given P H"
    and m: "m = M (blocks H) n" "m \<noteq> 0" and n: "8 \<le> unat n"
  shows "pool_ok H0 ((m, n) # bs) given (P\<lparr>base := m, remaining := n - 8, loc := m + 8, wastedMemory := w\<rparr>)
     (H\<lparr>blocks := (m, n) # blocks H, first_word := (first_word H)(m := base P)\<rparr>)"
proof -
  have blk: "blocks H = bs @ blocks H0" "\<forall>(m, n) \<in> set bs. unat m + unat n < 2 ^ 64 \<and> 8 \<le> unat n"
    and ch: "chain (first_word H) (base P) bs" and dist: "distinct (map fst bs)" "fst ` set bs \<inter> fst ` set (blocks H0) = {}"
    using ok by (simp_all add: pool_ok_def blocks_ok_def)
  have lt: "unat m + unat n < 2 ^ 64" and ap: "\<forall>b \<in> set (blocks H). apart (region_of (m, n)) (region_of b)"
    using M m by (auto simp: malloc_ok_def)
  have pos: "0 < unat k" if "(a, k) \<in> set (blocks H)" for a k
    using that blk H0 by (fastforce simp: heap_ok_def)
  have new: "m \<notin> fst ` set (blocks H)"
  proof
    assume "m \<in> fst ` set (blocks H)"
    then obtain k where "(m, k) \<in> set (blocks H)" by auto
    with ap pos n show False by (fastforce simp: apart_def region_of_def)
  qed
  have l: "unat (m + 8) = unat m + 8" using lt n by (subst unat_plus_if') simp
  have r: "unat (n - 8) = unat n - 8" using n by (simp add: unat_sub word_le_nat_alt)
  have free: "free_ok ((m, n) # bs) (P\<lparr>base := m, remaining := n - 8, loc := m + 8, wastedMemory := w\<rparr>)"
    using n by (simp add: free_ok_def l r)
  have old: "apart g (unat m + 8, unat n - 8)" if g: "g \<in> set given" for g
  proof -
    from g ok obtain b where b: "b \<in> set bs" "inside g (usable b)" by (auto simp: pool_ok_def handed_out_def)
    have "8 \<le> unat (snd b)" using b(1) blk(2) by auto
    then have "inside (usable b) (region_of b)" by (auto simp: inside_def usable_def region_of_def split: prod.splits)
    with b(2) have g1: "inside g (region_of b)" by (auto simp: inside_def split: prod.splits)
    have "inside (unat m + 8, unat n - 8) (region_of (m, n))" using n by (simp add: inside_def region_of_def)
    moreover have "apart (region_of b) (region_of (m, n))" using ap b(1) blk(1) by (simp add: apart_sym)
    ultimately show ?thesis using g1 by (blast intro: apart_inside)
  qed
  have "blocks_ok H0 ((m, n) # bs) (P\<lparr>base := m, remaining := n - 8, loc := m + 8, wastedMemory := w\<rparr>)
     (H\<lparr>blocks := (m, n) # blocks H, first_word := (first_word H)(m := base P)\<rparr>)"
  proof -
    have "m \<notin> fst ` set bs" "m \<notin> fst ` set (blocks H0)" using new blk(1) by auto
    then show ?thesis
      using blk ch dist lt n m(2) chain_upd [of m bs "first_word H" "base P" "base P"] by (auto simp: blocks_ok_def)
  qed
  with free ok old handed_out_more show ?thesis by (simp add: pool_ok_def l r)
qed

text \<open>One request: either nothing is handed out, or a new region of at least the size asked for.\<close>

lemma pool_malloc_ok:
  assumes M: "malloc_ok M" and H0: "heap_ok H0" and ok: "pool_ok H0 bs given P H"
    and r: "0 < unat r" "unat r < 2 ^ 63" and run: "pool_malloc M r (P, H) = (p, P', H')"
  shows "\<exists>bs'. pool_ok H0 bs' (if p = 0 then given else (unat p, unat r) # given) P' H'"
proof -
  let ?sz = "round_up r"
  have sz: "unat ?sz = (unat r + 15) div 16 * 16" using r(2) by (intro unat_round_up) simp
  then have sz16: "16 dvd unat ?sz" "unat r \<le> unat ?sz" "unat ?sz < 2 ^ 63 + 16" using r(2) by auto
  show ?thesis
  proof (cases "?sz > remaining P")
    case False
    then have le: "unat ?sz \<le> unat (remaining P)" by (simp add: word_le_nat_alt not_less)
    then have "bs \<noteq> []" using ok r(1) sz16(2) by (auto simp: pool_ok_def free_ok_def)
    then obtain m n bs1 where "bs = (m, n) # bs1" by (cases bs) auto
    moreover have "take_from ?sz P = (p, P')" "H' = H"
      using run False by (auto simp: pool_malloc_def Let_def split: prod.splits)
    ultimately have "p \<noteq> 0 \<and> pool_ok H0 bs ((unat p, unat r) # given) P' H'"
      using take_from_ok [OF ok _ le sz16(1,2)] by blast
    then show ?thesis by auto
  next
    case True
    define n where "n = (if ?sz + sizeof_ptr + (WORDSIZE - 1) > BLOCKSIZE then ?sz + sizeof_ptr + (WORDSIZE - 1) else BLOCKSIZE)"
    define m where "m = M (blocks H) n"
    define P0 where "P0 = P\<lparr>wastedMemory := wastedMemory P + remaining P\<rparr>"
    define P1 where "P1 = P0\<lparr>base := m\<rparr>\<lparr>remaining := n - sizeof_ptr - 0, loc := m + sizeof_ptr + 0\<rparr>"
    define H1 where "H1 = H\<lparr>blocks := (m, n) # blocks H, first_word := (first_word H)(m := base P0)\<rparr>"
    have P1: "P1 = P\<lparr>base := m, remaining := n - 8, loc := m + 8, wastedMemory := wastedMemory P + remaining P\<rparr>"
      by (simp add: P1_def P0_def sizeof_ptr_def)
    have H1: "H1 = H\<lparr>blocks := (m, n) # blocks H, first_word := (first_word H)(m := base P)\<rparr>"
      by (simp add: H1_def P0_def)
    have run1: "(if m = 0 then (0, P0, H) else case take_from ?sz P1 of (rloc, P) \<Rightarrow> (rloc, P, H1)) = (p, P', H')"
      using run True unfolding pool_malloc_def prod.case Let_def n_def [symmetric] m_def [symmetric]
        P0_def [symmetric] P1_def [symmetric] H1_def [symmetric] by (simp only: if_True)
    have u: "unat (?sz + sizeof_ptr + (WORDSIZE - 1)) = unat ?sz + 23"
      using sz16(3) by (simp add: sizeof_ptr_def WORDSIZE_def unat_plus_if')
    have n: "unat ?sz + 23 \<le> unat n" "8 \<le> unat n"
      by (auto simp: n_def BLOCKSIZE_def u word_less_nat_alt)
    show ?thesis
    proof (cases "m = 0")
      case True
      with run1 have "p = 0" "P' = P0" "H' = H" by simp_all
      with ok have "pool_ok H0 bs given P' H'" by (cases bs) (auto simp: pool_ok_def blocks_ok_def free_ok_def P0_def)
      with \<open>p = 0\<close> show ?thesis by auto
    next
      case False
      have ok1: "pool_ok H0 ((m, n) # bs) given P1 H1"
        using new_block_ok [OF M H0 ok m_def False n(2)] by (simp add: P1 H1)
      have le: "unat ?sz \<le> unat (remaining P1)" using n by (simp add: P1 unat_sub word_le_nat_alt)
      have "take_from ?sz P1 = (p, P')" "H' = H1"
        using run1 False by (auto split: prod.splits)
      with take_from_ok [OF ok1 refl le sz16(1,2)] show ?thesis by auto
    qed
  qed
qed

fun pool_run :: "((addr \<times> 64 word) list \<Rightarrow> 64 word \<Rightarrow> addr) \<Rightarrow> 64 word list \<Rightarrow> pool \<times> heap \<Rightarrow>
    addr list \<times> pool \<times> heap" where
  "pool_run M [] s = ([], s)"
| "pool_run M (r # rs) s = (let (p, s) = pool_malloc M r s; (ps, s) = pool_run M rs s in (p # ps, s))"

definition allocated :: "64 word list \<Rightarrow> addr list \<Rightarrow> region list" where
  "allocated rs ps = map (\<lambda>(r, p). (unat p, unat r)) (filter (\<lambda>(r, p). p \<noteq> 0) (zip rs ps))"

lemma pool_run_ok:
  assumes "malloc_ok M" "heap_ok H0" "pool_ok H0 bs given P H" "\<forall>r \<in> set rs. 0 < unat r \<and> unat r < 2 ^ 63"
    "pool_run M rs (P, H) = (ps, P', H')"
  shows "\<exists>bs'. pool_ok H0 bs' (rev (allocated rs ps) @ given) P' H'"
  using assms
proof (induction rs arbitrary: bs given P H ps)
  case Nil
  then show ?case by (auto simp: allocated_def)
next
  case (Cons r rs)
  obtain p P1 H1 where a: "pool_malloc M r (P, H) = (p, P1, H1)" by (metis prod_cases3)
  with Cons.prems(5) obtain ps1 where b: "pool_run M rs (P1, H1) = (ps1, P', H')" "ps = p # ps1"
    by (auto simp: Let_def split: prod.splits)
  from pool_malloc_ok [OF Cons.prems(1-3) _ _ a] Cons.prems(4) obtain bs1 where
    "pool_ok H0 bs1 (if p = 0 then given else (unat p, unat r) # given) P1 H1" by auto
  from Cons.IH [OF Cons.prems(1,2) this _ b(1)] Cons.prems(4) show ?case
    by (auto simp: allocated_def b(2) split: if_splits)
qed

lemma filter_fst_notin: "b \<notin> fst ` set xs \<Longrightarrow> filter (\<lambda>(a, n). a \<noteq> b) xs = xs"
  by (induction xs) (auto split: prod.splits)

lemma free_loop_chain:
  "blocks H = bs @ rest \<Longrightarrow> chain (first_word H) b bs \<Longrightarrow> distinct (map fst bs) \<Longrightarrow>
   fst ` set bs \<inter> fst ` set rest = {} \<Longrightarrow> free_loop b H = Inr (H\<lparr>blocks := rest\<rparr>)"
proof (induction bs arbitrary: b H)
  case Nil
  then show ?case by (simp add: free_loop.simps)
next
  case (Cons mn bs)
  obtain m n where mn: "mn = (m, n)" by (cases mn)
  let ?H = "H\<lparr>blocks := filter (\<lambda>(a, n). a \<noteq> b) (blocks H)\<rparr>"
  have b: "b = m" "m \<noteq> 0" using Cons.prems(2) by (simp_all add: mn)
  have "filter (\<lambda>(a, n). a \<noteq> b) (blocks H) = bs @ rest"
    using Cons.prems(1,3,4) b by (simp add: mn filter_fst_notin)
  then have "free_loop (first_word H b) ?H = Inr (?H\<lparr>blocks := rest\<rparr>)"
    using Cons.prems b by (intro Cons.IH) (auto simp: mn)
  moreover have "b \<in> fst ` set (blocks H)" using Cons.prems(1) b by (simp add: mn)
  ultimately show ?case using b by (subst free_loop.simps) (simp add: Let_def)
qed

subsection \<open>A sample system\<close>

text \<open>Blocks are laid out one after another, from address 4096 on.\<close>

definition sample_malloc :: "(addr \<times> 64 word) list \<Rightarrow> 64 word \<Rightarrow> addr" where
  "sample_malloc bs n =
     (let a = 4096 + sum_list (map (\<lambda>(m, k). unat m + unat k) bs)
      in if a + unat n < 2 ^ 64 then of_nat a else 0)"

lemma sample_malloc_ok: "malloc_ok sample_malloc"
  unfolding malloc_ok_def
proof (intro allI impI conjI ballI)
  fix bs n assume m: "sample_malloc bs n \<noteq> 0"
  let ?a = "4096 + sum_list (map (\<lambda>(m, k). unat m + unat k) bs)"
  have lt: "?a + unat n < 2 ^ 64" and eq: "sample_malloc bs n = of_nat ?a"
    using m by (simp_all add: sample_malloc_def Let_def split: if_splits)
  have a: "unat (sample_malloc bs n) = ?a" unfolding eq using lt by (subst unat_of_nat) simp
  show "unat (sample_malloc bs n) + unat n < 2 ^ 64" using lt a by simp
  fix b assume "b \<in> set bs"
  then have "unat (fst b) + unat (snd b) \<le> sum_list (map (\<lambda>(m, k). unat m + unat k) bs)"
    by (induction bs) auto
  with a show "apart (region_of (sample_malloc bs n, n)) (region_of b)"
    by (cases b) (simp add: apart_def region_of_def)
qed

subsection \<open>Properties\<close>

text \<open>
  C36: the pool hands out separate memory. Whatever sizes are requested from a new pool, the
  regions it returns, each of at least the size asked for, do not overlap one another, and each
  lies within a block of the system behind the link to the previous block, at an offset that
  is a multiple of 16 from there; and freeing the pool frees exactly the blocks it had obtained.
\<close>

theorem pool_memory_safe:
  assumes "malloc_ok M" "heap_ok H0" "\<forall>r \<in> set rs. 0 < unat r \<and> unat r < 2 ^ 63"
    and "pool_run M rs (PooledAllocator garbage, H0) = (ps, P, H)"
  shows "sorted_wrt (\<lambda>(a, n) (b, k). a + n \<le> b \<or> b + k \<le> a) (rev (allocated rs ps)) \<and>
     (\<forall>(a, n) \<in> set (allocated rs ps). \<exists>(m, k) \<in> set (blocks H) - set (blocks H0).
        unat m + 8 \<le> a \<and> a + n \<le> unat m + unat k \<and> 16 dvd (a - (unat m + 8))) \<and>
     (\<exists>P' H'. free_all (P, H) = Inr (P', H') \<and> blocks H' = blocks H0 \<and> remaining P' = 0 \<and> base P' = 0)"
proof -
  from pool_run_ok [OF assms(1,2) pool_ok_init assms(3,4)] obtain bs where
    ok: "pool_ok H0 bs (rev (allocated rs ps)) P H" by auto
  then have B: "blocks H = bs @ blocks H0" "chain (first_word H) (base P) bs" "distinct (map fst bs)"
    "fst ` set bs \<inter> fst ` set (blocks H0) = {}" and w: "\<And>m k. (m, k) \<in> set bs \<Longrightarrow> 8 \<le> unat k"
    by (auto simp: pool_ok_def blocks_ok_def)
  have new: "b \<in> set (blocks H) - set (blocks H0)" if "b \<in> set bs" for b using B(1,4) that by auto
  have "\<exists>(m, k) \<in> set (blocks H) - set (blocks H0).
      unat m + 8 \<le> a \<and> a + n \<le> unat m + unat k \<and> 16 dvd (a - (unat m + 8))" if "(a, n) \<in> set (allocated rs ps)" for a n
  proof -
    from ok that obtain b where b: "b \<in> set bs" "inside (a, n) (usable b)" "16 dvd (a - fst (usable b))"
      by (fastforce simp: pool_ok_def handed_out_def)
    then show ?thesis using new [OF b(1)] w [of "fst b" "snd b"]
      by (intro bexI [of _ b]) (auto simp: inside_def usable_def split: prod.splits)
  qed
  moreover have "sorted_wrt (\<lambda>(a, n) (b, k). a + n \<le> b \<or> b + k \<le> a) (rev (allocated rs ps))"
    using ok by (simp add: pool_ok_def apart_def)
  moreover have "\<exists>P' H'. free_all (P, H) = Inr (P', H') \<and> blocks H' = blocks H0 \<and> remaining P' = 0 \<and> base P' = 0"
    using free_loop_chain [OF B] by (simp add: free_all_def internal_init_def)
  ultimately show ?thesis by blast
qed

definition empty_heap :: heap where
  "empty_heap = \<lparr>blocks = [], first_word = (\<lambda>_. 0)\<rparr>"

theorem pool_memory_safe_witness:
  "\<exists>ps P H P' H'. pool_run sample_malloc [40, 9000, 40] (PooledAllocator 0, empty_heap) = (ps, P, H) \<and>
     free_all (P, H) = Inr (P', H') \<and> blocks H' = []"
proof -
  obtain ps P H where r: "pool_run sample_malloc [40, 9000, 40] (PooledAllocator 0, empty_heap) = (ps, P, H)"
    by (metis prod_cases3)
  have "heap_ok empty_heap" by (simp add: heap_ok_def empty_heap_def)
  from pool_memory_safe [OF sample_malloc_ok this _ r] r show ?thesis by (fastforce simp: empty_heap_def)
qed

end
