(* ===== verification/NF_Api.thy ===== *)
theory NF_Api
  imports NF_Search NF_Pool
begin

text \<open>
  The remaining queries of \<open>KDTreeSingleIndexAdaptor\<close> in \<open>libs/nanoflann.hpp\<close>: \<open>knnSearch\<close>,
  \<open>radiusSearch\<close> with its sorting, and the sizes. \<open>std::sort\<close> is a parameter: a permutation
  sorted by distance, the order among equal distances being unspecified.
\<close>

record search_params =
  sp_eps :: real
  sp_sorted :: bool

definition SearchParams :: "real \<Rightarrow> bool \<Rightarrow> search_params" where
  "SearchParams eps srt = \<lparr>sp_eps = eps, sp_sorted = srt\<rparr>"

definition kd_size :: "kd_index \<Rightarrow> nat" where
  "kd_size obj = m_size obj"

definition veclen :: "int \<Rightarrow> kd_index \<Rightarrow> nat" where
  "veclen DIM obj = (if DIM > 0 then nat DIM else kd_dim obj)"

definition index_usedMemory :: "pool \<Rightarrow> nat \<Rightarrow> 64 word \<Rightarrow> 64 word" where
  "index_usedMemory P point_count sizeof_index =
     usedMemory P + wastedMemory P + of_nat point_count * sizeof_index"

text \<open>The two arrays of the caller are returned.\<close>

definition knnSearch :: "metric \<Rightarrow> data_source \<Rightarrow> kd_index \<Rightarrow> real list \<Rightarrow> real \<Rightarrow> nat \<Rightarrow> nat list \<Rightarrow> real list \<Rightarrow>
    (nat \<times> nat list \<times> real list) result" where
  "knnSearch mt get idx query_point max_dist num_closest out_indices out_distances_sq =
     (let resultSet = knn_init max_dist out_indices out_distances_sq (KNNResultSet num_closest)
      in bindE (findNeighbors KNN_ops mt get idx resultSet query_point (sp_eps (SearchParams 0 True)))
           (\<lambda>(_, rs). Inr (knn_size rs, indices rs, dists rs)))"

definition radiusSearchCustomCallback :: "metric \<Rightarrow> data_source \<Rightarrow> kd_index \<Rightarrow> real list \<Rightarrow> real radius_set \<Rightarrow>
    search_params \<Rightarrow> (nat \<times> real radius_set) result" where
  "radiusSearchCustomCallback mt get idx query_point resultSet params =
     bindE (findNeighbors Radius_ops mt get idx resultSet query_point (sp_eps params))
       (\<lambda>(_, rs). Inr (radius_size rs, rs))"

definition radiusSearch :: "((nat \<times> real) list \<Rightarrow> (nat \<times> real) list) \<Rightarrow> metric \<Rightarrow> data_source \<Rightarrow> kd_index \<Rightarrow>
    real list \<Rightarrow> real \<Rightarrow> (nat \<times> real) list \<Rightarrow> search_params \<Rightarrow> (nat \<times> (nat \<times> real) list) result" where
  "radiusSearch std_sort mt get idx query_point r IndicesDists params =
     bindE (radiusSearchCustomCallback mt get idx query_point (RadiusResultSet r IndicesDists) params)
       (\<lambda>(nFound, rs).
          let IndicesDists = m_indices_dists rs
          in Inr (nFound, if sp_sorted params then std_sort IndicesDists else IndicesDists))"

text \<open>Sorting with \<open>IndexDist_Sorter\<close>, which compares the distances.\<close>

definition std_sort_ok :: "((nat \<times> real) list \<Rightarrow> (nat \<times> real) list) \<Rightarrow> bool" where
  "std_sort_ok srt \<longleftrightarrow> (\<forall>xs. mset (srt xs) = mset xs \<and> sorted (map snd (srt xs)))"

lemma sort_key_ok: "std_sort_ok (sort_key snd)"
  by (simp add: std_sort_ok_def)

subsection \<open>Properties\<close>

text \<open>
  The radius search for callers. Over an index of at least one point it returns the points
  strictly within the radius, each once with its distance, in ascending order of distance, and
  their number.
\<close>

theorem radiusSearch_sorted:
  assumes "std_sort_ok std_sort" "index_ok get n idx" "0 < n"
  shows "\<exists>res. radiusSearch std_sort L2_Simple get idx vec r old (SearchParams 0 True) = Inr (length res, res) \<and>
     sorted (map snd res) \<and> distinct (map fst res) \<and>
     set res = {(p, L2_Simple_evalMetric get vec p (kd_dim idx)) |p. p < n \<and> L2_Simple_evalMetric get vec p (kd_dim idx) < r}"
proof -
  let ?d = "\<lambda>p. L2_Simple_evalMetric get vec p (kd_dim idx)"
  from radius_search_found [OF assms(2,3), of r old vec] obtain rs where
    f: "findNeighbors Radius_ops L2_Simple get idx (RadiusResultSet r old) vec 0 = Inr (True, rs)"
    and m: "image_mset prod.swap (mset (m_indices_dists rs)) =
       filter_mset (\<lambda>x. fst x < r) (candidates get (kd_dim idx) vec n)" by blast
  define res where "res = std_sort (m_indices_dists rs)"
  have s: "mset res = mset (m_indices_dists rs)" "sorted (map snd res)"
    using assms(1) by (simp_all add: res_def std_sort_ok_def)
  have "mset (map prod.swap res) = mset (filter (\<lambda>x. fst x < r) (map (\<lambda>p. (?d p, p)) [0..<n]))"
    using m s(1) by (simp add: candidates_def)
  then have e: "mset (map prod.swap res) = mset (map (\<lambda>p. (?d p, p)) (filter (\<lambda>p. ?d p < r) [0..<n]))"
    by (simp add: filter_map comp_def)
  let ?ps = "filter (\<lambda>p. ?d p < r) [0..<n]"
  have swap: "mset res = mset (map (\<lambda>p. (p, ?d p)) ?ps)"
  proof -
    have "image_mset prod.swap (mset (map prod.swap res)) = image_mset prod.swap (mset (map (\<lambda>p. (?d p, p)) ?ps))"
      by (simp only: e)
    then show ?thesis by (simp add: image_mset.compositionality comp_def)
  qed
  have "mset (map fst res) = mset ?ps"
  proof -
    have "image_mset fst (mset res) = image_mset fst (mset (map (\<lambda>p. (p, ?d p)) ?ps))" by (simp only: swap)
    then show ?thesis by (simp add: image_mset.compositionality comp_def)
  qed
  then have "distinct (map fst res) \<longleftrightarrow> distinct ?ps" by (rule mset_eq_imp_distinct_iff)
  then have "distinct (map fst res)" by simp
  moreover have "set res = set (map (\<lambda>p. (p, ?d p)) ?ps)" using swap by (rule mset_eq_setD)
  then have "set res = {(p, ?d p) |p. p < n \<and> ?d p < r}" by auto
  moreover have "radiusSearch std_sort L2_Simple get idx vec r old (SearchParams 0 True) = Inr (length res, res)"
    using mset_eq_length [OF s(1)] by (auto simp: radiusSearch_def radiusSearchCustomCallback_def SearchParams_def f
        radius_size_def res_def Let_def)
  ultimately show ?thesis using s(2) by blast
qed

theorem radiusSearch_sorted_witness:
  "\<exists>idx res. buildIndex (\<lambda>p d. real (p * d)) 25 (KDTreeSingleIndexAdaptor 3 3 25 10) = Some (Inr idx) \<and>
     radiusSearch (sort_key snd) L2_Simple (\<lambda>p d. real (p * d)) idx [0, 0, 0] 9 [] (SearchParams 0 True) = Inr (length res, res) \<and>
     sorted (map snd res)"
proof -
  have "1 \<le> m_leaf_max_size (KDTreeSingleIndexAdaptor 3 3 25 10)" "0 < kd_dim (KDTreeSingleIndexAdaptor 3 3 25 10)"
    by (simp_all add: KDTreeSingleIndexAdaptor_def)
  with buildIndex_ok [OF this(1,2), of "\<lambda>p d. real (p * d)" 25] obtain idx where
    i: "buildIndex (\<lambda>p d. real (p * d)) 25 (KDTreeSingleIndexAdaptor 3 3 25 10) = Some (Inr idx)"
      "index_ok (\<lambda>p d. real (p * d)) 25 idx" by auto
  from radiusSearch_sorted [OF sort_key_ok i(2)] i(1) show ?thesis by force
qed

end
