(* ===== verification/NF_Adaptors.thy ===== *)
theory NF_Adaptors
  imports NF_Metric
begin

text \<open>
  The other distance functors of \<open>libs/nanoflann.hpp\<close>: \<open>L1_Adaptor\<close> and \<open>L2_Adaptor\<close>, whose
  loops take four dimensions at a time and stop early above a given worst distance, and
  \<open>SO2_Adaptor\<close> and \<open>SO3_Adaptor\<close> for angles and rotations. The pointer \<open>a\<close> and the counter
  \<open>d\<close> move together, so that \<open>d\<close> stands for both; the pointer \<open>last - 3\<close> is compared as the
  number \<open>size - 3\<close>.
\<close>

subsection \<open>The two loops\<close>

text \<open>The flag tells that the loop returned from the function.\<close>

function group_loop :: "(real \<Rightarrow> real) \<Rightarrow> data_source \<Rightarrow> real list \<Rightarrow> nat \<Rightarrow> nat \<Rightarrow> real \<Rightarrow> nat \<Rightarrow> real \<Rightarrow>
    bool \<times> nat \<times> real" where
  "group_loop each get a b_idx sz worst_dist d result =
     (if d + 3 < sz then
        let diff0 = each (a ! d - get b_idx d);
            diff1 = each (a ! (d + 1) - get b_idx (d + 1));
            diff2 = each (a ! (d + 2) - get b_idx (d + 2));
            diff3 = each (a ! (d + 3) - get b_idx (d + 3));
            result = result + (diff0 + diff1 + diff2 + diff3)
        in if worst_dist > 0 \<and> result > worst_dist then (True, d + 4, result)
           else group_loop each get a b_idx sz worst_dist (d + 4) result
      else (False, d, result))"
  by pat_completeness auto
termination
  by (relation "measure (\<lambda>(each, get, a, b_idx, sz, worst_dist, d, result). sz - d)") auto

declare group_loop.simps [simp del]

function tail_loop :: "(real \<Rightarrow> real) \<Rightarrow> data_source \<Rightarrow> real list \<Rightarrow> nat \<Rightarrow> nat \<Rightarrow> nat \<Rightarrow> real \<Rightarrow> real" where
  "tail_loop each get a b_idx sz d result =
     (if d < sz then tail_loop each get a b_idx sz (Suc d) (result + each (a ! d - get b_idx d)) else result)"
  by pat_completeness auto
termination
  by (relation "measure (\<lambda>(each, get, a, b_idx, sz, d, result). sz - d)") auto

declare tail_loop.simps [simp del]

text \<open>The squares are \<open>diff * diff\<close>; the absolute values are taken when the difference is formed.\<close>

definition L1_evalMetric :: "real \<Rightarrow> data_source \<Rightarrow> real list \<Rightarrow> nat \<Rightarrow> nat \<Rightarrow> real" where
  "L1_evalMetric worst_dist get a b_idx sz =
     (let (returned, d, result) = group_loop abs get a b_idx sz worst_dist 0 0
      in if returned then result else tail_loop abs get a b_idx sz d result)"

definition L1_accum_dist :: "real \<Rightarrow> real \<Rightarrow> nat \<Rightarrow> real" where
  "L1_accum_dist a b i = \<bar>a - b\<bar>"

definition L2_evalMetric :: "real \<Rightarrow> data_source \<Rightarrow> real list \<Rightarrow> nat \<Rightarrow> nat \<Rightarrow> real" where
  "L2_evalMetric worst_dist get a b_idx sz =
     (let (returned, d, result) = group_loop (\<lambda>x. x * x) get a b_idx sz worst_dist 0 0
      in if returned then result else tail_loop (\<lambda>x. x * x) get a b_idx sz d result)"

definition L2_accum_dist :: "real \<Rightarrow> real \<Rightarrow> nat \<Rightarrow> real" where
  "L2_accum_dist a b i = (a - b) * (a - b)"

definition SO2_accum_dist :: "real \<Rightarrow> real \<Rightarrow> nat \<Rightarrow> real" where
  "SO2_accum_dist a b i =
     (let result = b - a in
      if result > pi then result - 2 * pi else if result < - pi then result + 2 * pi else result)"

definition SO2_evalMetric :: "data_source \<Rightarrow> real list \<Rightarrow> nat \<Rightarrow> nat \<Rightarrow> real" where
  "SO2_evalMetric get a b_idx sz = SO2_accum_dist (a ! (sz - 1)) (get b_idx (sz - 1)) (sz - 1)"

definition SO3_evalMetric :: "data_source \<Rightarrow> real list \<Rightarrow> nat \<Rightarrow> nat \<Rightarrow> real" where
  "SO3_evalMetric get a b_idx sz = L2_Simple_evalMetric get a b_idx sz"

definition SO3_accum_dist :: "real \<Rightarrow> real \<Rightarrow> nat \<Rightarrow> real" where
  "SO3_accum_dist a b i = L2_Simple_accum_dist a b i"

subsection \<open>The loops compute a sum, or give up above the worst distance\<close>

abbreviation part_sum :: "(real \<Rightarrow> real) \<Rightarrow> data_source \<Rightarrow> real list \<Rightarrow> nat \<Rightarrow> nat \<Rightarrow> real" where
  "part_sum each get a b_idx n \<equiv> \<Sum>i<n. each (a ! i - get b_idx i)"

lemma part_sum_mono:
  assumes "\<And>x. 0 \<le> each x" "m \<le> n"
  shows "part_sum each get a b m \<le> part_sum each get a b n"
  by (rule sum_mono2) (use assms in auto)

lemma group_loop_spec:
  assumes "result = part_sum each get a b d" "d \<le> sz" "\<And>x. 0 \<le> each x"
    "group_loop each get a b sz w d result = (returned, d', result')"
  shows "d' \<le> sz \<and> result' = part_sum each get a b d' \<and> (returned \<longrightarrow> w > 0 \<and> result' > w)"
  using assms
proof (induction each get a b sz w d result rule: group_loop.induct)
  case (1 each get a b sz w d result)
  let ?r = "result + (each (a ! d - get b d) + each (a ! (d + 1) - get b (d + 1)) +
    each (a ! (d + 2) - get b (d + 2)) + each (a ! (d + 3) - get b (d + 3)))"
  have r: "?r = part_sum each get a b (d + 4)"
    using "1.prems"(1) by (simp add: eval_nat_numeral)
  have step: "(if d + 3 < sz then if w > 0 \<and> ?r > w then (True, d + 4, ?r) else group_loop each get a b sz w (d + 4) ?r
      else (False, d, result)) = (returned, d', result')"
    using "1.prems"(4) unfolding group_loop.simps [of each get a b sz w d result] Let_def .
  show ?case
  proof (cases "d + 3 < sz \<and> \<not> (w > 0 \<and> ?r > w)")
    case True
    with step have "group_loop each get a b sz w (d + 4) ?r = (returned, d', result')" by argo
    moreover have "d + 4 \<le> sz" using True by simp
    ultimately show ?thesis using "1.IH" [OF _ refl refl refl refl refl] True r "1.prems"(3) by blast
  next
    case False
    show ?thesis
    proof (cases "d + 3 < sz")
      case True
      with False step have "w > 0 \<and> ?r > w" "returned" "d' = d + 4" "result' = ?r" by (auto simp only: if_True prod.inject split: if_splits)
      with True r show ?thesis by simp
    next
      case False
      with step have "\<not> returned" "d' = d" "result' = result" by simp_all
      with "1.prems"(1,2) show ?thesis by blast
    qed
  qed
qed

lemma tail_loop_sum:
  "d \<le> sz \<Longrightarrow> result = part_sum each get a b d \<Longrightarrow> tail_loop each get a b sz d result = part_sum each get a b sz"
proof (induction each get a b sz d result rule: tail_loop.induct)
  case (1 each get a b sz d result)
  show ?case
  proof (cases "d < sz")
    case True
    with 1 have "tail_loop each get a b sz (Suc d) (result + each (a ! d - get b d)) = part_sum each get a b sz" by simp
    with True show ?thesis by (subst tail_loop.simps) (simp only: if_True)
  next
    case False
    with "1.prems" show ?thesis by (subst tail_loop.simps) simp
  qed
qed

text \<open>Either the whole sum, or a partial sum that is already above the worst distance.\<close>

lemma unrolled_metric:
  assumes "\<And>x. 0 \<le> each x"
  shows "\<exists>n \<le> sz. (let (returned, d, result) = group_loop each get a b sz w 0 0
       in if returned then result else tail_loop each get a b sz d result) = part_sum each get a b n \<and>
     (n \<noteq> sz \<longrightarrow> w > 0 \<and> part_sum each get a b n > w)"
proof -
  obtain ret d r where g: "group_loop each get a b sz w 0 0 = (ret, d, r)" by (metis prod_cases3)
  have "d \<le> sz \<and> r = part_sum each get a b d \<and> (ret \<longrightarrow> w > 0 \<and> r > w)"
    by (rule group_loop_spec [OF _ _ assms g]) simp_all
  then have s: "d \<le> sz" "r = part_sum each get a b d" "ret \<longrightarrow> w > 0 \<and> r > w" by blast+
  show ?thesis
  proof (cases ret)
    case True
    with g s show ?thesis by (intro exI [of _ d]) simp
  next
    case False
    with g tail_loop_sum [where d = d and sz = sz and result = r and each = each and get = get and a = a and b = b] s show ?thesis by (intro exI [of _ sz]) simp
  qed
qed

lemma unrolled_metric_unbounded:
  assumes "\<And>x. 0 \<le> each x" "w \<le> 0"
  shows "(let (returned, d, result) = group_loop each get a b sz w 0 0
       in if returned then result else tail_loop each get a b sz d result) = part_sum each get a b sz"
  using unrolled_metric [where each = each and sz = sz and get = get and a = a and b = b and w = w] assms by fastforce

lemma unrolled_metric_bounded:
  fixes w :: real and get :: data_source and a :: "real list" and b sz :: nat
  assumes "\<And>x. 0 \<le> each x"
  defines "r \<equiv> (let (returned, d, result) = group_loop each get a b sz w 0 0
       in if returned then result else tail_loop each get a b sz d result)"
  shows "(r = part_sum each get a b sz \<or> (w < r \<and> r \<le> part_sum each get a b sz))"
proof -
  from unrolled_metric [where each = each and sz = sz and get = get and a = a and b = b and w = w] assms(1) obtain n where
    "n \<le> sz" "r = part_sum each get a b n" "n \<noteq> sz \<longrightarrow> w > 0 \<and> r > w" by (auto simp: r_def)
  with part_sum_mono [where each = each and m = n and n = sz and get = get and a = a and b = b, OF assms(1)] show ?thesis by auto
qed

subsection \<open>The functors satisfy the interface of the search\<close>

interpretation l1: distance_functor "L1_evalMetric (- 1)" L1_accum_dist
proof
  fix get v idx n
  show "L1_evalMetric (- 1) get v idx n = (\<Sum>i<n. L1_accum_dist (v ! i) (get idx i) i)"
    by (simp add: L1_evalMetric_def unrolled_metric_unbounded L1_accum_dist_def)
qed (simp_all add: L1_accum_dist_def)

interpretation l2: distance_functor "L2_evalMetric (- 1)" L2_accum_dist
proof
  fix get v idx n
  show "L2_evalMetric (- 1) get v idx n = (\<Sum>i<n. L2_accum_dist (v ! i) (get idx i) i)"
    by (simp add: L2_evalMetric_def unrolled_metric_unbounded L2_accum_dist_def)
next
  have eq: "L2_accum_dist = L2_Simple_accum_dist"
    by (simp add: L2_accum_dist_def L2_Simple_accum_dist_def fun_eq_iff)
  fix a b c :: real and i :: nat
  show "0 \<le> L2_accum_dist a b i" unfolding eq by (rule l2_simple.accum_nonneg)
  show "a \<le> b \<Longrightarrow> b \<le> c \<Longrightarrow> L2_accum_dist a b i \<le> L2_accum_dist a c i"
    unfolding eq by (rule l2_simple.accum_mono_above)
  show "c \<le> b \<Longrightarrow> b \<le> a \<Longrightarrow> L2_accum_dist a b i \<le> L2_accum_dist a c i"
    unfolding eq by (rule l2_simple.accum_mono_below)
qed

interpretation so3: distance_functor SO3_evalMetric SO3_accum_dist
proof -
  have "SO3_evalMetric = L2_Simple_evalMetric" "SO3_accum_dist = L2_Simple_accum_dist"
    by (simp_all add: SO3_evalMetric_def SO3_accum_dist_def fun_eq_iff)
  then show "distance_functor SO3_evalMetric SO3_accum_dist"
    using l2_simple.distance_functor_axioms by simp
qed

subsection \<open>Properties\<close>

text \<open>
  C34: the unrolled distance of \<open>L2_Adaptor\<close> is a sound optimisation of \<open>L2_Simple_Adaptor\<close>, for
  any number of dimensions: without a worst distance they are equal; with one, they agree on
  which points are within it, and the value of the points within it is the same.
\<close>

theorem unrolled_L2_equivalent:
  "(w \<le> 0 \<longrightarrow> L2_evalMetric w get a idx sz = L2_Simple_evalMetric get a idx sz) \<and>
   (0 < w \<longrightarrow> (L2_evalMetric w get a idx sz \<le> w \<longleftrightarrow> L2_Simple_evalMetric get a idx sz \<le> w) \<and>
      (L2_Simple_evalMetric get a idx sz \<le> w \<longrightarrow> L2_evalMetric w get a idx sz = L2_Simple_evalMetric get a idx sz))"
proof -
  have sum: "L2_Simple_evalMetric get a idx sz = part_sum (\<lambda>x. x * x) get a idx sz"
    by (simp add: L2_Simple_evalMetric_sum power2_eq_square)
  have "w \<le> 0 \<longrightarrow> L2_evalMetric w get a idx sz = L2_Simple_evalMetric get a idx sz"
    by (simp add: L2_evalMetric_def unrolled_metric_unbounded sum)
  moreover have "L2_evalMetric w get a idx sz = L2_Simple_evalMetric get a idx sz \<or>
      (w < L2_evalMetric w get a idx sz \<and> L2_evalMetric w get a idx sz \<le> L2_Simple_evalMetric get a idx sz)"
    using unrolled_metric_bounded [where each = "\<lambda>x. x * x" and get = get and a = a and b = idx and sz = sz and w = w] by (simp only: L2_evalMetric_def sum zero_le_square simp_thms)
  ultimately show ?thesis by argo
qed

theorem unrolled_L2_equivalent_witness:
  "L2_evalMetric 1 (\<lambda>_ _. 0) [1, 1, 1, 1, 1] 0 5 > 1"
proof -
  have "L2_Simple_evalMetric (\<lambda>_ _. 0) [1, 1, 1, 1, 1] 0 5 = 5"
    by (simp add: L2_Simple_evalMetric_def eval_nat_numeral)
  with unrolled_L2_equivalent [of 1 "\<lambda>_ _. 0" "[1, 1, 1, 1, 1]" 0 5] show ?thesis by simp
qed

end
