(* ===== verification/NF_Eigen.thy ===== *)
theory NF_Eigen
  imports NF_Api NF_Adaptors
begin

text \<open>
  \<open>KDTreeEigenMatrixAdaptor\<close> of \<open>libs/nanoflann.hpp\<close>: the rows of an Eigen matrix as the points of
  an index with the metric \<open>L2_Adaptor\<close>. Eigen is not in the repository: a matrix is what the code
  asks it for, the numbers of its rows and columns and its coefficients. The index is owned by
  the adaptor, which is here the index itself; \<open>None\<close> is a construction that does not end.
\<close>

record matrix =
  mat_rows :: nat
  mat_cols :: nat
  mat_coeff :: "nat \<Rightarrow> nat \<Rightarrow> real"

definition eigen_get_point_count :: "matrix \<Rightarrow> nat" where
  "eigen_get_point_count m = mat_rows m"

definition eigen_get_pt :: "matrix \<Rightarrow> data_source" where
  "eigen_get_pt m idx d = mat_coeff m idx d"

definition L1 :: metric where
  "L1 = \<lparr>m_evalMetric = L1_evalMetric (- 1), m_accum_dist = L1_accum_dist\<rparr>"

definition L2 :: metric where
  "L2 = \<lparr>m_evalMetric = L2_evalMetric (- 1), m_accum_dist = L2_accum_dist\<rparr>"

text \<open>\<open>DIM\<close> is the parameter of the adaptor, \<open>fixed_cols\<close> that of the matrix type
  (\<open>ColsAtCompileTime\<close>), which becomes the dimension of the index.\<close>

definition KDTreeEigenMatrixAdaptor :: "int \<Rightarrow> int \<Rightarrow> nat \<Rightarrow> matrix \<Rightarrow> int \<Rightarrow> kd_index result option" where
  "KDTreeEigenMatrixAdaptor DIM fixed_cols dimensionality mat leaf_max_size =
     (let dims = mat_cols mat in
      if dims \<noteq> dimensionality
      then Some (Inl (Throws (Runtime_error ''Error: 'dimensionality' must match column count in data matrix'')))
      else if DIM > 0 \<and> int dims \<noteq> DIM
      then Some (Inl (Throws (Runtime_error ''Data set dimensionality does not match the 'DIM' template argument'')))
      else buildIndex (eigen_get_pt mat) (eigen_get_point_count mat)
             (KDTreeSingleIndexAdaptor fixed_cols dims (eigen_get_point_count mat)
                (unat (word_of_int leaf_max_size :: 64 word))))"

definition eigen_query :: "matrix \<Rightarrow> kd_index \<Rightarrow> real list \<Rightarrow> real \<Rightarrow> nat \<Rightarrow> nat list \<Rightarrow> real list \<Rightarrow>
    (nat list \<times> real list) result" where
  "eigen_query mat idx query_point max_dist num_closest out_indices out_distances_sq =
     (let resultSet = knn_init max_dist out_indices out_distances_sq (KNNResultSet num_closest)
      in bindE (findNeighbors KNN_ops L2 (eigen_get_pt mat) idx resultSet query_point (sp_eps (SearchParams 0 True)))
           (\<lambda>(_, rs). Inr (indices rs, dists rs)))"

interpretation l1_search: kd_search knn_worstDist knn_addPoint "knn_holds mx cap" "\<lambda>d. d < mx"
    "L1_evalMetric (- 1)" L1_accum_dist KNN_ops L1 for mx cap
  by unfold_locales (simp_all add: KNN_ops_def L1_def)

interpretation l2_search: kd_search knn_worstDist knn_addPoint "knn_holds mx cap" "\<lambda>d. d < mx"
    "L2_evalMetric (- 1)" L2_accum_dist KNN_ops L2 for mx cap
  by unfold_locales (simp_all add: KNN_ops_def L2_def)

text \<open>
  Querying an adaptor over a matrix with at least one row and one column: the arrays of the caller
  hold the nearest rows, sorted by their distance.
\<close>

lemma eigen_query_nearest:
  fixes mat vec mx
  defines "near \<equiv> \<lambda>p. L2_evalMetric (- 1) (eigen_get_pt mat) vec p (mat_cols mat)"
  assumes "0 < mat_rows mat" "0 < mat_cols mat" "0 < leaf" "leaf < 2 ^ 31" "0 < cap"
    and "DIM \<le> 0 \<or> DIM = int (mat_cols mat)" "fixed_cols \<le> 0 \<or> fixed_cols = int (mat_cols mat)"
    and "\<And>p. p < mat_rows mat \<Longrightarrow> near p < mx"
  shows "\<exists>idx is ds. KDTreeEigenMatrixAdaptor DIM fixed_cols (mat_cols mat) mat leaf = Some (Inr idx) \<and>
     eigen_query mat idx vec mx cap (replicate cap 0) (replicate cap 0) = Inr (is, ds) \<and>
     nearest cap (mset (map (\<lambda>p. (near p, p)) [0..<mat_rows mat])) (take (min cap (mat_rows mat)) (zip ds is))"
proof -
  let ?n = "mat_rows mat" and ?get = "eigen_get_pt mat"
  let ?L = "unat (word_of_int leaf :: 64 word)"
  have "?L = nat leaf" using assms(4,5) by (simp add: unsigned_of_int take_bit_int_eq_self)
  then have L: "1 \<le> ?L" using assms(4) by simp
  let ?t = "KDTreeSingleIndexAdaptor fixed_cols (mat_cols mat) ?n ?L"
  have t: "1 \<le> m_leaf_max_size ?t" "0 < kd_dim ?t" "kd_dim ?t = mat_cols mat"
    using L assms(3,8) by (auto simp: KDTreeSingleIndexAdaptor_def)
  obtain idx where b: "buildIndex ?get ?n ?t = Some (Inr idx)" "index_ok ?get ?n idx" "kd_dim idx = mat_cols mat"
    using buildIndex_ok [OF t(1,2), of ?get ?n] t(3) by auto
  have c: "KDTreeEigenMatrixAdaptor DIM fixed_cols (mat_cols mat) mat leaf = Some (Inr idx)"
    using assms(7) b(1) by (auto simp: KDTreeEigenMatrixAdaptor_def eigen_get_point_count_def Let_def)
  have h: "knn_holds mx cap {#} (knn_init mx (replicate cap 0) (replicate cap 0) (KNNResultSet cap))"
    using assms(6) by (rule knn_init_holds)
  have lim: "L2_evalMetric (- 1) ?get vec p (kd_dim idx) < mx" if "p < ?n" for p
    using assms(9) [OF that] b(3) by (simp add: near_def)
  from l2_search.findNeighbors_holds [OF b(2) assms(2) h lim] obtain rs where
    f: "findNeighbors KNN_ops L2 ?get idx (knn_init mx (replicate cap 0) (replicate cap 0) (KNNResultSet cap)) vec 0 =
      Inr (rs_full KNN_ops rs, rs)"
    and k: "knn_holds mx cap (mset (map (\<lambda>p. (near p, p)) [0..<?n])) rs"
    by (auto simp: l2_search.found_def b(3) near_def)
  from k have n: "nearest cap (mset (map (\<lambda>p. (near p, p)) [0..<?n])) (knn_entries rs)" and wf: "knn_wf mx rs"
    by (auto simp: knn_holds_def)
  have "knn_count rs = min cap ?n"
    using length_knn_entries [OF wf] n by (simp add: nearest_def)
  then have "knn_entries rs = take (min cap ?n) (zip (dists rs) (indices rs))" by (simp add: knn_entries_def)
  with c f n show ?thesis by (auto simp: eigen_query_def SearchParams_def)
qed

text \<open>The two checks of the constructor.\<close>

lemma eigen_wrong_dimension:
  assumes "mat_cols mat \<noteq> dimensionality \<or> 0 < DIM \<and> DIM \<noteq> int (mat_cols mat)"
  shows "\<exists>msg. KDTreeEigenMatrixAdaptor DIM fixed_cols dimensionality mat leaf = Some (Inl (Throws (Runtime_error msg)))"
  using assms by (auto simp: KDTreeEigenMatrixAdaptor_def Let_def)

end
