(* ===== verification/NF_SaveLoad.thy ===== *)
theory NF_SaveLoad
  imports NF_Search
begin

text \<open>
  Saving an index to a file and loading it again (\<open>libs/nanoflann.hpp\<close>: \<open>save_value\<close>,
  \<open>load_value\<close>, \<open>save_tree\<close>, \<open>load_tree\<close>, \<open>saveIndex_\<close>, \<open>loadIndex_\<close>).

  A file is the list of its bytes; saving appends, loading takes from the front. The object
  representation of a type is a parameter (\<open>'a pod\<close>): its size, the bytes of a value and the
  value of bytes. \<open>pod_dom\<close> is the set of values that have a representation (a 64-bit
  number, a \<open>double\<close>). A stored node has the bytes of its union and two pointers, which
  \<open>load_tree\<close> only tests for null; the union does not record which member is in use.
\<close>

type_synonym byte = "8 word"

record 'a pod =
  pod_size :: nat
  pod_bytes :: "'a \<Rightarrow> byte list"
  pod_val :: "byte list \<Rightarrow> 'a"
  pod_dom :: "'a \<Rightarrow> bool"

definition pod_ok :: "'a pod \<Rightarrow> bool" where
  "pod_ok P \<longleftrightarrow> 0 < pod_size P \<and>
     (\<forall>v. pod_dom P v \<longrightarrow> length (pod_bytes P v) = pod_size P \<and> pod_val P (pod_bytes P v) = v)"

definition cannot_read :: fault where
  "cannot_read = Throws (Runtime_error ''Cannot read from file'')"

definition save_value :: "'a pod \<Rightarrow> 'a \<Rightarrow> byte list \<Rightarrow> byte list" where
  "save_value P value stream = stream @ pod_bytes P value"

definition save_vector :: "nat pod \<Rightarrow> 'a pod \<Rightarrow> 'a list \<Rightarrow> byte list \<Rightarrow> byte list" where
  "save_vector N P value stream =
     (let stream = stream @ pod_bytes N (length value) in stream @ concat (map (pod_bytes P) value))"

definition load_value :: "'a pod \<Rightarrow> byte list \<Rightarrow> ('a \<times> byte list) result" where
  "load_value P stream =
     (if length stream < pod_size P then Inl cannot_read
      else Inr (pod_val P (take (pod_size P) stream), drop (pod_size P) stream))"

text \<open>\<open>fread\<close> of \<open>n\<close> elements, each whole.\<close>

fun fread :: "'a pod \<Rightarrow> nat \<Rightarrow> byte list \<Rightarrow> 'a list \<times> byte list" where
  "fread P 0 stream = ([], stream)"
| "fread P (Suc n) stream =
     (if length stream < pod_size P then ([], stream)
      else let (vs, rest) = fread P n (drop (pod_size P) stream) in (pod_val P (take (pod_size P) stream) # vs, rest))"

text \<open>\<open>resize\<close> throws beyond \<open>max_size\<close>.\<close>

definition load_vector :: "nat \<Rightarrow> nat pod \<Rightarrow> 'a pod \<Rightarrow> byte list \<Rightarrow> ('a list \<times> byte list) result" where
  "load_vector max_size N P stream =
     bindE (load_value N stream) (\<lambda>(n, stream).
       if n > max_size then Inl (Throws Length_error)
       else let (vs, rest) = fread P n stream
            in if length vs \<noteq> n then Inl cannot_read else Inr (vs, rest))"

subsection \<open>Nodes\<close>

datatype node_union = U_lr nat nat | U_sub nat real real

datatype raw_node = Raw node_union "raw_node option" "raw_node option"

fun raw_of :: "node \<Rightarrow> raw_node" where
  "raw_of (Leaf l r) = Raw (U_lr l r) None None"
| "raw_of (Nonleaf f lo hi c1 c2) = Raw (U_sub f lo hi) (Some (raw_of c1)) (Some (raw_of c2))"

record index_layout =
  lay_size :: "nat pod"
  lay_dim :: "nat pod"
  lay_bbox :: "bounding_box pod"
  lay_node :: "(node_union \<times> bool \<times> bool) pod"
  lay_max_size :: nat

text \<open>A stored node: its union and whether each child pointer is not null.\<close>

fun save_tree :: "index_layout \<Rightarrow> raw_node \<Rightarrow> byte list \<Rightarrow> byte list" where
  "save_tree L (Raw u c1 c2) stream =
     (let stream = save_value (lay_node L) (u, c1 \<noteq> None, c2 \<noteq> None) stream;
          stream = (case c1 of Some c \<Rightarrow> save_tree L c stream | None \<Rightarrow> stream)
      in case c2 of Some c \<Rightarrow> save_tree L c stream | None \<Rightarrow> stream)"

text \<open>A child is loaded when its pointer is not null. \<open>None\<close>: the recursion does not end.\<close>

partial_function (option) load_tree :: "index_layout \<Rightarrow> byte list \<Rightarrow> (raw_node \<times> byte list) result option" where
  "load_tree L stream =
     (case load_value (lay_node L) stream of
        Inl e \<Rightarrow> Some (Inl e)
      | Inr ((u, has1, has2), stream) \<Rightarrow>
          Option.bind
            (if has1 then Option.bind (load_tree L stream) (\<lambda>r. Some (map_sum id (map_prod Some id) r))
             else Some (Inr (None, stream)))
            (\<lambda>r. case r of
                   Inl e \<Rightarrow> Some (Inl e)
                 | Inr (c1, stream) \<Rightarrow>
                     Option.bind
                       (if has2 then Option.bind (load_tree L stream) (\<lambda>r. Some (map_sum id (map_prod Some id) r))
                        else Some (Inr (None, stream)))
                       (\<lambda>r. case r of
                              Inl e \<Rightarrow> Some (Inl e)
                            | Inr (c2, stream) \<Rightarrow> Some (Inr (Raw u c1 c2, stream)))))"

subsection \<open>The whole index\<close>

text \<open>An index without a tree has a null root, which \<open>save_tree\<close> follows.\<close>

definition saveIndex :: "index_layout \<Rightarrow> kd_index \<Rightarrow> byte list \<Rightarrow> byte list result" where
  "saveIndex L obj stream =
     (let stream = save_value (lay_size L) (m_size obj) stream;
          stream = save_value (lay_dim L) (kd_dim obj) stream;
          stream = save_value (lay_bbox L) (root_bbox obj) stream;
          stream = save_value (lay_size L) (m_leaf_max_size obj) stream;
          stream = save_vector (lay_size L) (lay_size L) (vind obj) stream
      in bindE (deref (root_node obj)) (\<lambda>root. Inr (save_tree L (raw_of root) stream)))"

text \<open>The loaded tree is returned beside the object.\<close>

definition loadIndex :: "index_layout \<Rightarrow> kd_index \<Rightarrow> byte list \<Rightarrow>
    ((kd_index \<times> raw_node) \<times> byte list) result option" where
  "loadIndex L obj stream =
     (case bindE (load_value (lay_size L) stream) (\<lambda>(v, stream).
           let obj = obj\<lparr>m_size := v\<rparr> in
           bindE (load_value (lay_dim L) stream) (\<lambda>(v, stream).
           let obj = obj\<lparr>kd_dim := v\<rparr> in
           bindE (load_value (lay_bbox L) stream) (\<lambda>(v, stream).
           let obj = obj\<lparr>root_bbox := v\<rparr> in
           bindE (load_value (lay_size L) stream) (\<lambda>(v, stream).
           let obj = obj\<lparr>m_leaf_max_size := v\<rparr> in
           bindE (load_vector (lay_max_size L) (lay_size L) (lay_size L) stream) (\<lambda>(v, stream).
             Inr (obj\<lparr>vind := v\<rparr>, stream)))))) of
        Inl e \<Rightarrow> Some (Inl e)
      | Inr (obj, stream) \<Rightarrow> map_option (map_sum id (map_prod (Pair obj) id)) (load_tree L stream))"

subsection \<open>Readers\<close>

text \<open>A reader that takes exactly the bytes \<open>w\<close> to \<open>v\<close>, and fails on every proper prefix of them.\<close>

type_synonym 'a reader = "byte list \<Rightarrow> ('a \<times> byte list) result option"

definition reads :: "'a reader \<Rightarrow> byte list \<Rightarrow> 'a \<Rightarrow> bool" where
  "reads p w v \<longleftrightarrow> (\<forall>rest. p (w @ rest) = Some (Inr (v, rest))) \<and>
     (\<forall>u z. w = u @ z \<longrightarrow> z \<noteq> [] \<longrightarrow> p u = Some (Inl cannot_read))"

definition bindP :: "'a reader \<Rightarrow> ('a \<Rightarrow> 'b reader) \<Rightarrow> 'b reader" where
  "bindP p q = (\<lambda>s. Option.bind (p s) (\<lambda>r. case r of Inl e \<Rightarrow> Some (Inl e) | Inr (v, s) \<Rightarrow> q v s))"

definition retP :: "'a \<Rightarrow> 'a reader" where
  "retP v = (\<lambda>s. Some (Inr (v, s)))"

lemma reads_whole: "reads p w v \<Longrightarrow> p (w @ rest) = Some (Inr (v, rest))"
  by (simp add: reads_def)

lemma reads_exact: "reads p w v \<Longrightarrow> p w = Some (Inr (v, []))"
  using reads_whole [of p w v "[]"] by simp

lemma reads_prefix: "reads p (u @ z) v \<Longrightarrow> z \<noteq> [] \<Longrightarrow> p u = Some (Inl cannot_read)"
  by (simp add: reads_def)

lemma reads_ret: "reads (retP v) [] v"
  by (simp add: reads_def retP_def)

lemma reads_bind:
  assumes "reads p w v" "reads (q v) w' v'"
  shows "reads (bindP p q) (w @ w') v'"
  unfolding reads_def
proof (intro conjI allI impI)
  fix rest
  show "bindP p q ((w @ w') @ rest) = Some (Inr (v', rest))"
    using assms by (simp add: reads_def bindP_def)
next
  fix u z assume e: "w @ w' = u @ z" and z: "z \<noteq> []"
  from e consider us where "w = u @ us" "us @ w' = z" | us where "w @ us = u" "w' = us @ z"
    by (auto simp: append_eq_append_conv2)
  then show "bindP p q u = Some (Inl cannot_read)"
  proof cases
    case 1
    show ?thesis
    proof (cases "us = []")
      case True
      with 1 have "p u = Some (Inr (v, []))" "q v [] = Some (Inl cannot_read)"
        using reads_exact [OF assms(1)] reads_prefix [of "q v" "[]" w' v'] assms(2) z by auto
      then show ?thesis by (simp add: bindP_def)
    next
      case False
      with 1 assms(1) reads_prefix [of p u us v] show ?thesis by (simp add: bindP_def)
    qed
  next
    case 2
    then have "p u = Some (Inr (v, us))" "q v us = Some (Inl cannot_read)"
      using reads_whole [OF assms(1), of us] reads_prefix [of "q v" us z v'] assms(2) z by auto
    then show ?thesis by (simp add: bindP_def)
  qed
qed

lemma reads_value:
  assumes "pod_ok P" "pod_dom P v"
  shows "reads (\<lambda>s. Some (load_value P s)) (pod_bytes P v) v"
proof -
  have l: "length (pod_bytes P v) = pod_size P" "pod_val P (pod_bytes P v) = v" using assms by (auto simp: pod_ok_def)
  have "length u < pod_size P" if "pod_bytes P v = u @ z" "z \<noteq> []" for u z
    using l(1) that by (cases z) auto
  with l show ?thesis by (auto simp: reads_def load_value_def)
qed

lemma fread_whole:
  assumes "pod_ok P" "\<forall>v \<in> set vs. pod_dom P v"
  shows "fread P (length vs) (concat (map (pod_bytes P) vs) @ rest) = (vs, rest)"
  using assms by (induction vs) (auto simp: pod_ok_def)

lemma fread_short:
  assumes "pod_ok P" "\<forall>v \<in> set vs. pod_dom P v" "concat (map (pod_bytes P) vs) = u @ z" "z \<noteq> []"
  shows "length (fst (fread P (length vs) u)) < length vs"
  using assms
proof (induction vs arbitrary: u)
  case (Cons v vs)
  have l: "length (pod_bytes P v) = pod_size P" using Cons.prems by (simp add: pod_ok_def)
  show ?case
  proof (cases "length u < pod_size P")
    case False
    then have "u = pod_bytes P v @ drop (pod_size P) u" "concat (map (pod_bytes P) vs) = drop (pod_size P) u @ z"
      using Cons.prems(3) l by (auto simp: append_eq_append_conv_if split: if_splits)
    then have "length (fst (fread P (length vs) (drop (pod_size P) u))) < length vs"
      using Cons.IH Cons.prems by simp
    with False show ?thesis by (simp add: split_def Let_def)
  qed simp
qed simp

lemma reads_vector:
  assumes "pod_ok N" "pod_ok P" "\<forall>v \<in> set vs. pod_dom P v" "pod_dom N (length vs)" "length vs \<le> mx"
  shows "reads (\<lambda>s. Some (load_vector mx N P s)) (pod_bytes N (length vs) @ concat (map (pod_bytes P) vs)) vs"
proof -
  let ?q = "\<lambda>n s. Some (if n > mx then Inl (Throws Length_error)
      else let (vs, rest) = fread P n s in if length vs \<noteq> n then Inl cannot_read else Inr (vs, rest))"
  have "reads (?q (length vs)) (concat (map (pod_bytes P) vs)) vs"
    using fread_whole [OF assms(2,3)] fread_short [OF assms(2,3)] assms(5)
    by (fastforce simp: reads_def Let_def split_def)
  from reads_bind [OF reads_value [OF assms(1,4)], of ?q, OF this]
  show ?thesis by (simp add: bindP_def load_vector_def bindE_def split_def sum.case_distrib [of Some] cong: sum.case_cong)
qed

subsection \<open>Loading what was saved\<close>

definition load_child :: "index_layout \<Rightarrow> bool \<Rightarrow> raw_node option reader" where
  "load_child L has = (if has then bindP (load_tree L) (\<lambda>t. retP (Some t)) else retP None)"

lemma load_child_eq:
  "(if has then Option.bind (load_tree L s) (\<lambda>r. Some (map_sum id (map_prod Some id) r)) else Some (Inr (None, s))) =
     load_child L has s"
proof -
  have "Some (map_sum id (map_prod Some id) r) = (case r of Inl e \<Rightarrow> Some (Inl e) | Inr (v, s) \<Rightarrow> retP (Some v) s)"
    for r :: "(raw_node \<times> byte list) result" by (cases r) (auto simp: retP_def)
  then show ?thesis by (simp add: load_child_def bindP_def, simp add: retP_def)
qed

lemma load_tree_bindP:
  "load_tree L = bindP (\<lambda>s. Some (load_value (lay_node L) s)) (\<lambda>(u, h1, h2).
     bindP (load_child L h1) (\<lambda>c1. bindP (load_child L h2) (\<lambda>c2. retP (Raw u c1 c2))))"
proof
  fix s
  show "load_tree L s = bindP (\<lambda>s. Some (load_value (lay_node L) s)) (\<lambda>(u, h1, h2).
     bindP (load_child L h1) (\<lambda>c1. bindP (load_child L h2) (\<lambda>c2. retP (Raw u c1 c2)))) s"
    unfolding load_tree.simps [of L s] load_child_eq bindP_def retP_def
    by (auto split: sum.split prod.split)
qed

text \<open>The bytes of a tree and of an index.\<close>

fun tree_bytes :: "index_layout \<Rightarrow> raw_node \<Rightarrow> byte list" where
  "tree_bytes L (Raw u c1 c2) = pod_bytes (lay_node L) (u, c1 \<noteq> None, c2 \<noteq> None) @
     (case c1 of Some c \<Rightarrow> tree_bytes L c | None \<Rightarrow> []) @ (case c2 of Some c \<Rightarrow> tree_bytes L c | None \<Rightarrow> [])"

fun tree_dom :: "index_layout \<Rightarrow> raw_node \<Rightarrow> bool" where
  "tree_dom L (Raw u c1 c2) \<longleftrightarrow> pod_dom (lay_node L) (u, c1 \<noteq> None, c2 \<noteq> None) \<and>
     (case c1 of Some c \<Rightarrow> tree_dom L c | None \<Rightarrow> True) \<and> (case c2 of Some c \<Rightarrow> tree_dom L c | None \<Rightarrow> True)"

lemma save_tree_bytes: "save_tree L t s = s @ tree_bytes L t"
proof (induction t arbitrary: s)
  case (Raw u c1 c2)
  have c1: "(case c1 of Some c \<Rightarrow> save_tree L c s | None \<Rightarrow> s) = s @ (case c1 of Some c \<Rightarrow> tree_bytes L c | None \<Rightarrow> [])" for s
    using Raw.IH(1) by (cases c1) simp_all
  have c2: "(case c2 of Some c \<Rightarrow> save_tree L c s | None \<Rightarrow> s) = s @ (case c2 of Some c \<Rightarrow> tree_bytes L c | None \<Rightarrow> [])" for s
    using Raw.IH(2) by (cases c2) simp_all
  show ?case by (simp only: save_tree.simps tree_bytes.simps save_value_def Let_def c1 c2 append_assoc)
qed

lemma reads_tree: "pod_ok (lay_node L) \<Longrightarrow> tree_dom L t \<Longrightarrow> reads (load_tree L) (tree_bytes L t) t"
proof (induction L t rule: tree_bytes.induct)
  case (1 L u c1 c2)
  have child: "reads (load_child L (c \<noteq> None)) (case c of Some c \<Rightarrow> tree_bytes L c | None \<Rightarrow> []) c"
    if "\<And>t. c = Some t \<Longrightarrow> reads (load_tree L) (tree_bytes L t) t" for c
  proof (cases c)
    case None
    then show ?thesis by (simp add: load_child_def reads_ret)
  next
    case (Some t)
    from reads_bind [OF that [OF Some], of "\<lambda>t. retP (Some t)", OF reads_ret] show ?thesis
      by (simp add: Some load_child_def)
  qed
  have c1: "reads (load_child L (c1 \<noteq> None)) (case c1 of Some c \<Rightarrow> tree_bytes L c | None \<Rightarrow> []) c1"
    using "1.IH"(1) "1.prems" by (intro child) auto
  have c2: "reads (load_child L (c2 \<noteq> None)) (case c2 of Some c \<Rightarrow> tree_bytes L c | None \<Rightarrow> []) c2"
    using "1.IH"(2) "1.prems" by (intro child) auto
  note r2 = reads_bind [OF c2, of "\<lambda>c2. retP (Raw u c1 c2)", OF reads_ret]
  note r1 = reads_bind [OF c1, of "\<lambda>c1. bindP (load_child L (c2 \<noteq> None)) (\<lambda>c2. retP (Raw u c1 c2))", OF r2]
  have v: "reads (\<lambda>s. Some (load_value (lay_node L) s)) (pod_bytes (lay_node L) (u, c1 \<noteq> None, c2 \<noteq> None)) (u, c1 \<noteq> None, c2 \<noteq> None)"
    using "1.prems" by (intro reads_value) simp_all
  from reads_bind [OF v, of "\<lambda>(u, h1, h2). bindP (load_child L h1) (\<lambda>c1. bindP (load_child L h2) (\<lambda>c2. retP (Raw u c1 c2)))"] r1
  show ?case unfolding load_tree_bindP by simp
qed

text \<open>Loading always ends: every node takes at least one byte.\<close>

definition ends :: "'a reader \<Rightarrow> byte list \<Rightarrow> bool" where
  "ends p s \<longleftrightarrow> (\<exists>r. p s = Some r \<and> (\<forall>v rest. r = Inr (v, rest) \<longrightarrow> length rest \<le> length s))"

lemma ends_bind:
  assumes "ends p s" "\<And>v rest. p s = Some (Inr (v, rest)) \<Longrightarrow> length rest \<le> length s \<Longrightarrow> ends (q v) rest"
  shows "ends (bindP p q) s"
proof -
  obtain r where r: "p s = Some r" "\<And>v rest. r = Inr (v, rest) \<Longrightarrow> length rest \<le> length s"
    using assms(1) by (auto simp: ends_def)
  show ?thesis
  proof (cases r)
    case (Inl e)
    with r show ?thesis by (simp add: ends_def bindP_def)
  next
    case (Inr vr)
    then obtain v rest where vr: "r = Inr (v, rest)" by (cases vr) auto
    from assms(2) [of v rest] r vr obtain r2 where "q v rest = Some r2"
      "\<forall>v2 rest2. r2 = Inr (v2, rest2) \<longrightarrow> length rest2 \<le> length rest" by (auto simp: ends_def)
    with r(1) r(2) [OF vr] vr show ?thesis by (fastforce simp: ends_def bindP_def)
  qed
qed

lemma ends_ret [simp]: "ends (retP v) s"
  by (simp add: ends_def retP_def)

lemma load_tree_ends:
  assumes "0 < pod_size (lay_node L)"
  shows "ends (load_tree L) s"
proof (induction s rule: length_induct)
  case (1 s)
  have child: "ends (load_child L h) rest" if "length rest < length s" for h rest
    using 1 that unfolding load_child_def by (auto intro: ends_bind)
  have rest: "ends (bindP (load_child L h1) (\<lambda>c1. bindP (load_child L h2) (\<lambda>c2. retP (Raw u c1 c2)))) rest"
    if "length rest < length s" for u h1 h2 rest
    using that by (intro ends_bind child) auto
  have lv: "length rest < length s" if "load_value (lay_node L) s = Inr (v, rest)" for v rest
    using that assms by (auto simp: load_value_def split: if_splits)
  then have e: "ends (\<lambda>s. Some (load_value (lay_node L) s)) s" by (fastforce simp: ends_def)
  show ?case unfolding load_tree_bindP
    by (rule ends_bind [OF e]) (use lv rest in auto)
qed

definition index_bytes :: "index_layout \<Rightarrow> kd_index \<Rightarrow> byte list" where
  "index_bytes L idx = pod_bytes (lay_size L) (m_size idx) @ pod_bytes (lay_dim L) (kd_dim idx) @
     pod_bytes (lay_bbox L) (root_bbox idx) @ pod_bytes (lay_size L) (m_leaf_max_size idx) @
     (pod_bytes (lay_size L) (length (vind idx)) @ concat (map (pod_bytes (lay_size L)) (vind idx))) @
     (case root_node idx of Some t \<Rightarrow> tree_bytes L (raw_of t) | None \<Rightarrow> [])"

text \<open>What can be stored: every value has a representation.\<close>

definition storable :: "index_layout \<Rightarrow> kd_index \<Rightarrow> bool" where
  "storable L idx \<longleftrightarrow> pod_dom (lay_size L) (m_size idx) \<and> pod_dom (lay_dim L) (kd_dim idx) \<and>
     pod_dom (lay_bbox L) (root_bbox idx) \<and> pod_dom (lay_size L) (m_leaf_max_size idx) \<and>
     pod_dom (lay_size L) (length (vind idx)) \<and> (\<forall>i \<in> set (vind idx). pod_dom (lay_size L) i) \<and>
     length (vind idx) \<le> lay_max_size L \<and> (\<forall>t. root_node idx = Some t \<longrightarrow> tree_dom L (raw_of t))"

definition layout_ok :: "index_layout \<Rightarrow> bool" where
  "layout_ok L \<longleftrightarrow> pod_ok (lay_size L) \<and> pod_ok (lay_dim L) \<and> pod_ok (lay_bbox L) \<and> pod_ok (lay_node L)"

lemma saveIndex_bytes:
  "saveIndex L idx s = (case root_node idx of None \<Rightarrow> Inl Undefined | Some _ \<Rightarrow> Inr (s @ index_bytes L idx))"
  by (auto simp: saveIndex_def save_value_def save_vector_def Let_def save_tree_bytes index_bytes_def split: option.split)

definition value_reader :: "'a pod \<Rightarrow> 'a reader" where
  "value_reader P = (\<lambda>s. Some (load_value P s))"

definition index_reader :: "index_layout \<Rightarrow> kd_index \<Rightarrow> (kd_index \<times> raw_node) reader" where
  "index_reader L obj =
     bindP (value_reader (lay_size L)) (\<lambda>n. bindP (value_reader (lay_dim L)) (\<lambda>d.
     bindP (value_reader (lay_bbox L)) (\<lambda>b. bindP (value_reader (lay_size L)) (\<lambda>m.
     bindP (\<lambda>s. Some (load_vector (lay_max_size L) (lay_size L) (lay_size L) s)) (\<lambda>vi.
     bindP (load_tree L) (\<lambda>t.
       retP (obj\<lparr>m_size := n, kd_dim := d, root_bbox := b, m_leaf_max_size := m, vind := vi\<rparr>, t)))))))"

lemma bindP_Some: "bindP (\<lambda>s. Some (f s)) q s = (case f s of Inl e \<Rightarrow> Some (Inl e) | Inr (v, s) \<Rightarrow> q v s)"
  by (simp add: bindP_def)

lemma bindP_ret_map: "bindP p (\<lambda>t. retP (g t)) s = map_option (map_sum id (map_prod g id)) (p s)"
  by (cases "p s") (auto simp: bindP_def retP_def split: sum.split)

lemma loadIndex_reader: "loadIndex L obj = index_reader L obj"
proof
  fix s
  show "loadIndex L obj s = index_reader L obj s"
    unfolding loadIndex_def index_reader_def value_reader_def bindP_Some bindP_ret_map bindE_def Let_def
    by (simp split: sum.split prod.split)
qed

lemma reads_index:
  assumes L: "layout_ok L" and idx: "storable L idx" "root_node idx = Some t"
  shows "reads (loadIndex L obj) (index_bytes L idx)
     (obj\<lparr>m_size := m_size idx, kd_dim := kd_dim idx, root_bbox := root_bbox idx,
          m_leaf_max_size := m_leaf_max_size idx, vind := vind idx\<rparr>, raw_of t)"
proof -
  have v: "reads (value_reader P) (pod_bytes P x) x" if "pod_ok P" "pod_dom P x" for P :: "'b pod" and x
    using reads_value [OF that] by (simp add: value_reader_def)
  have t: "reads (bindP (load_tree L) (\<lambda>t. retP (f t))) (tree_bytes L (raw_of t)) (f (raw_of t))" for f :: "raw_node \<Rightarrow> kd_index \<times> raw_node"
  proof -
    have "pod_ok (lay_node L)" "tree_dom L (raw_of t)" using L idx by (simp_all add: layout_ok_def storable_def)
    from reads_bind [OF reads_tree [OF this], of "\<lambda>t. retP (f t)", OF reads_ret] show ?thesis by simp
  qed
  show ?thesis
    unfolding loadIndex_reader index_reader_def index_bytes_def idx(2) option.case
    by (rule reads_bind v reads_vector t | use L idx(1) in \<open>simp add: layout_ok_def storable_def\<close>)+
qed

subsection \<open>A sample representation\<close>

definition sample_nat_pod :: "nat pod" where
  "sample_nat_pod = \<lparr>pod_size = 1, pod_bytes = (\<lambda>n. [of_nat n]), pod_val = (\<lambda>b. unat (hd b)), pod_dom = (\<lambda>n. n < 256)\<rparr>"

definition sample_bbox_pod :: "bounding_box pod" where
  "sample_bbox_pod = \<lparr>pod_size = 1, pod_bytes = (\<lambda>b. [0]), pod_val = (\<lambda>_. []), pod_dom = (\<lambda>b. b = [])\<rparr>"

definition flag :: "bool \<Rightarrow> byte" where
  "flag b = (if b then 1 else 0)"

definition sample_node_pod :: "(node_union \<times> bool \<times> bool) pod" where
  "sample_node_pod = \<lparr>pod_size = 5,
     pod_bytes = (\<lambda>(u, h1, h2). (case u of U_lr l r \<Rightarrow> [0, of_nat l, of_nat r] | U_sub f lo hi \<Rightarrow> [1, of_nat f, 0]) @ [flag h1, flag h2]),
     pod_val = (\<lambda>b. (if b ! 0 = 0 then U_lr (unat (b ! 1)) (unat (b ! 2)) else U_sub (unat (b ! 1)) 0 0, b ! 3 = 1, b ! 4 = 1)),
     pod_dom = (\<lambda>(u, h1, h2). case u of U_lr l r \<Rightarrow> l < 256 \<and> r < 256 | U_sub f lo hi \<Rightarrow> f < 256 \<and> lo = 0 \<and> hi = 0)\<rparr>"

definition sample_layout :: index_layout where
  "sample_layout = \<lparr>lay_size = sample_nat_pod, lay_dim = sample_nat_pod, lay_bbox = sample_bbox_pod,
     lay_node = sample_node_pod, lay_max_size = 1000\<rparr>"

lemma unat_byte: "n < 256 \<Longrightarrow> unat (of_nat n :: byte) = n"
  by (simp add: unat_of_nat)

lemma sample_layout_ok: "layout_ok sample_layout"
  by (auto simp: layout_ok_def pod_ok_def sample_layout_def sample_nat_pod_def sample_bbox_pod_def sample_node_pod_def
      unat_byte flag_def split: node_union.splits)

definition sample_index_tree :: kd_index where
  "sample_index_tree = \<lparr>vind = [1, 0], root_node = Some (Nonleaf 0 0 0 (Leaf 0 1) (Leaf 1 2)), m_leaf_max_size = 1, m_size = 2,
     m_size_at_index_build = 2, kd_dim = 3, root_bbox = []\<rparr>"

lemma sample_storable: "storable sample_layout sample_index_tree"
  by (simp add: storable_def sample_layout_def sample_index_tree_def sample_nat_pod_def sample_bbox_pod_def sample_node_pod_def)

subsection \<open>Properties\<close>

text \<open>
  C35: saving and loading an index. An index with a tree can be saved, and loading the file
  gives back every stored field and the tree and consumes exactly what was written; loading a
  truncated file throws, wherever it was cut; loading any file ends. An index without a tree
  cannot be saved: its null root is followed.
\<close>

theorem save_load_roundtrip:
  assumes "layout_ok L" "storable L idx"
  shows "(case root_node idx of
       None \<Rightarrow> saveIndex L idx [] = Inl Undefined
     | Some t \<Rightarrow> \<exists>w. saveIndex L idx [] = Inr w \<and>
         (\<forall>obj rest. loadIndex L obj (w @ rest) =
            Some (Inr ((obj\<lparr>m_size := m_size idx, kd_dim := kd_dim idx, root_bbox := root_bbox idx,
                           m_leaf_max_size := m_leaf_max_size idx, vind := vind idx\<rparr>, raw_of t), rest))) \<and>
         (\<forall>obj k. k < length w \<longrightarrow> loadIndex L obj (take k w) = Some (Inl cannot_read))) \<and>
     (\<forall>obj w. loadIndex L obj w \<noteq> None)"
proof
  show "case root_node idx of
       None \<Rightarrow> saveIndex L idx [] = Inl Undefined
     | Some t \<Rightarrow> \<exists>w. saveIndex L idx [] = Inr w \<and>
         (\<forall>obj rest. loadIndex L obj (w @ rest) =
            Some (Inr ((obj\<lparr>m_size := m_size idx, kd_dim := kd_dim idx, root_bbox := root_bbox idx,
                           m_leaf_max_size := m_leaf_max_size idx, vind := vind idx\<rparr>, raw_of t), rest))) \<and>
         (\<forall>obj k. k < length w \<longrightarrow> loadIndex L obj (take k w) = Some (Inl cannot_read))"
  proof (cases "root_node idx")
    case None
    then show ?thesis by (simp add: saveIndex_bytes)
  next
    case (Some t)
    have s: "saveIndex L idx [] = Inr (index_bytes L idx)" by (simp add: saveIndex_bytes Some)
    have r: "reads (loadIndex L obj) (index_bytes L idx)
      (obj\<lparr>m_size := m_size idx, kd_dim := kd_dim idx, root_bbox := root_bbox idx,
          m_leaf_max_size := m_leaf_max_size idx, vind := vind idx\<rparr>, raw_of t)" for obj
      by (rule reads_index [OF assms Some])
    have "loadIndex L obj (take k (index_bytes L idx)) = Some (Inl cannot_read)" if "k < length (index_bytes L idx)" for obj k
    proof (rule reads_prefix)
      show "reads (loadIndex L obj) (take k (index_bytes L idx) @ drop k (index_bytes L idx))
        (obj\<lparr>m_size := m_size idx, kd_dim := kd_dim idx, root_bbox := root_bbox idx,
          m_leaf_max_size := m_leaf_max_size idx, vind := vind idx\<rparr>, raw_of t)" using r by simp
    qed (use that in simp)
    then show ?thesis using s reads_whole [OF r] by (simp add: Some)
  qed
  have "ends (load_tree L) s" for s using assms(1) by (intro load_tree_ends) (simp add: layout_ok_def pod_ok_def)
  then show "\<forall>obj w. loadIndex L obj w \<noteq> None"
    by (auto simp: loadIndex_def ends_def split: sum.split) (metis option.distinct(1))
qed

theorem save_load_roundtrip_witness:
  "\<exists>w. saveIndex sample_layout sample_index_tree [] = Inr w \<and>
     loadIndex sample_layout (sample_index_tree\<lparr>vind := [], root_node := None\<rparr>) w =
       Some (Inr ((sample_index_tree\<lparr>root_node := None\<rparr>, raw_of (Nonleaf 0 0 0 (Leaf 0 1) (Leaf 1 2))), []))"
proof -
  from save_load_roundtrip [OF sample_layout_ok sample_storable] obtain w where
    "saveIndex sample_layout sample_index_tree [] = Inr w"
    and l: "\<And>obj rest. loadIndex sample_layout obj (w @ rest) =
      Some (Inr ((obj\<lparr>m_size := 2, kd_dim := 3, root_bbox := [], m_leaf_max_size := 1, vind := [1, 0]\<rparr>,
        raw_of (Nonleaf 0 0 0 (Leaf 0 1) (Leaf 1 2))), rest))"
    by (auto simp: sample_index_tree_def)
  with l [of "sample_index_tree\<lparr>vind := [], root_node := None\<rparr>" "[]"] show ?thesis
    by (simp add: sample_index_tree_def)
qed

end
