(* ===== verification/NF_DynTree.thy ===== *)
theory NF_DynTree
  imports NF_Api
begin

text \<open>
  \<open>KDTreeSingleIndexDynamicAdaptor_\<close> of \<open>libs/nanoflann.hpp\<close>: one tree of the dynamic index, over the
  points in its \<open>vind\<close>. The program does not instantiate it.

  \<^item> A tree is a \<open>kd_index\<close>. The vector \<open>treeIndex\<close> of the whole index, to which the tree has a
    reference, is an argument of the searches: a point is skipped where it holds -1.
  \<^item> Reading a vector out of range is \<open>Undefined\<close>.
  \<^item> The lemmas extend the locale \<open>kd_search\<close>: the search finds what is alive among the points.
\<close>

subsection \<open>The tree and its queries\<close>

definition dyn_tree :: "int \<Rightarrow> nat \<Rightarrow> nat \<Rightarrow> kd_index" where
  "dyn_tree DIM dimensionality leaf_max_size =
     \<lparr>vind = [], root_node = None, m_leaf_max_size = leaf_max_size, m_size = 0, m_size_at_index_build = 0,
      kd_dim = (if DIM > 0 then nat DIM else dimensionality), root_bbox = []\<rparr>"

text \<open>
  \<open>operator=\<close>: a copy of the right-hand side, swapped with the fields of \<open>*this\<close> (all but \<open>dim\<close>), and
  a copy of \<open>*this\<close> as the result. The copies share the pool of the right-hand side, and the
  result, a temporary, frees it: unless this pool is empty, both trees are left with nodes that
  were freed. \<open>treeIndex\<close> is a reference, so that the two vectors exchange their elements, when
  they are not the same vector (\<open>shared\<close>).
\<close>

definition dyn_assign :: "bool \<Rightarrow> kd_index \<times> int list \<Rightarrow> kd_index \<times> int list \<Rightarrow>
    (kd_index \<times> int list \<times> int list) result" where
  "dyn_assign shared = (\<lambda>(this, ti) (rhs, ti_rhs).
     if root_node rhs \<noteq> None then Inl Undefined
     else Inr (this\<lparr>vind := vind rhs, m_leaf_max_size := m_leaf_max_size rhs, m_size := m_size rhs,
                    m_size_at_index_build := m_size_at_index_build rhs, root_node := root_node rhs,
                    root_bbox := root_bbox rhs\<rparr>,
               if shared then ti else ti_rhs, if shared then ti_rhs else ti))"

text \<open>\<open>kdtree_get_bbox\<close> of the data set returns false.\<close>

definition dyn_computeBoundingBox :: "data_source \<Rightarrow> kd_index \<Rightarrow> bounding_box result" where
  "dyn_computeBoundingBox get idx =
     (let N = m_size idx in
      if N = 0
      then Inl (Throws (Runtime_error ''[nanoflann] computeBoundingBox() called but no data points found.''))
      else Inr (foldl (\<lambda>bbox k. grow_bbox get (kd_dim idx) bbox (vind idx ! k))
                  (point_bbox get (kd_dim idx) (vind idx ! 0)) [1..<N]))"

definition dyn_buildIndex :: "data_source \<Rightarrow> kd_index \<Rightarrow> kd_index result option" where
  "dyn_buildIndex get idx =
     (let idx = idx\<lparr>m_size := length (vind idx)\<rparr>;
          idx = freeIndex idx;
          idx = idx\<lparr>m_size_at_index_build := m_size idx\<rparr>
      in if m_size idx = 0 then Some (Inr idx)
         else case dyn_computeBoundingBox get idx of
                Inl e \<Rightarrow> Some (Inl e)
              | Inr bbox \<Rightarrow>
                  map_option (\<lambda>(n, v, bbox). Inr (idx\<lparr>root_node := Some n, vind := v, root_bbox := bbox\<rparr>))
                    (divideTree get (kd_dim idx) (m_leaf_max_size idx) (vind idx) 0 (m_size idx) bbox))"

text \<open>\<open>searchLevel\<close> returns nothing here: a result set that takes no more points ends the loop
  over one leaf, not the search.\<close>

fun dyn_leaf_scan :: "'rs result_set_ops \<Rightarrow> int list \<Rightarrow> (nat \<Rightarrow> real) \<Rightarrow> real \<Rightarrow> nat list \<Rightarrow> 'rs \<Rightarrow> 'rs result" where
  "dyn_leaf_scan ops ti d worst_dist [] rs = Inr rs"
| "dyn_leaf_scan ops ti d worst_dist (index # is) rs =
     (if length ti \<le> index then Inl Undefined
      else if ti ! index = -1 then dyn_leaf_scan ops ti d worst_dist is rs
      else if d index < worst_dist
      then let (continue, rs) = rs_addPoint ops (d index) index rs
           in if \<not> continue then Inr rs else dyn_leaf_scan ops ti d worst_dist is rs
      else dyn_leaf_scan ops ti d worst_dist is rs)"

function dyn_searchLevel :: "'rs result_set_ops \<Rightarrow> metric \<Rightarrow> data_source \<Rightarrow> nat \<Rightarrow> nat list \<Rightarrow> int list \<Rightarrow>
    real list \<Rightarrow> real \<Rightarrow> node \<Rightarrow> real \<Rightarrow> real list \<Rightarrow> 'rs \<Rightarrow> ('rs \<times> real list) result" where
  "dyn_searchLevel ops mt get ndim vi ti vec epsError (Leaf left right) mindistsq dv rs =
     bindE (dyn_leaf_scan ops ti (\<lambda>index. m_evalMetric mt get vec index ndim) (rs_worstDist ops rs)
              (map (\<lambda>i. vi ! i) [left..<right]) rs)
       (\<lambda>rs. Inr (rs, dv))"
| "dyn_searchLevel ops mt get ndim vi ti vec epsError (Nonleaf idx lo hi c1 c2) mindistsq dv rs =
     (let val = vec ! idx;
          diff1 = val - lo;
          diff2 = val - hi;
          bestChild = (if diff1 + diff2 < 0 then c1 else c2);
          otherChild = (if diff1 + diff2 < 0 then c2 else c1);
          cut_dist = (if diff1 + diff2 < 0 then m_accum_dist mt val hi idx else m_accum_dist mt val lo idx)
      in bindE (dyn_searchLevel ops mt get ndim vi ti vec epsError bestChild mindistsq dv rs)
           (\<lambda>(rs, dv).
              let dst = dv ! idx;
                  mindistsq = mindistsq + cut_dist - dst;
                  dv = dv[idx := cut_dist]
              in if mindistsq * epsError \<le> rs_worstDist ops rs
                 then bindE (dyn_searchLevel ops mt get ndim vi ti vec epsError otherChild mindistsq dv rs)
                        (\<lambda>(rs, dv). Inr (rs, dv[idx := dst]))
                 else Inr (rs, dv[idx := dst])))"
  by pat_completeness auto
termination
  by (relation "measure (\<lambda>(ops, mt, get, ndim, vi, ti, vec, eps, n, m, ds, rs). size n)")
    (auto split: if_splits)

declare dyn_searchLevel.simps [simp del]

definition dyn_findNeighbors :: "'rs result_set_ops \<Rightarrow> metric \<Rightarrow> data_source \<Rightarrow> int list \<Rightarrow> kd_index \<Rightarrow> 'rs \<Rightarrow>
    real list \<Rightarrow> real \<Rightarrow> (bool \<times> 'rs) result" where
  "dyn_findNeighbors ops mt get ti idx rs vec eps =
     (if kd_size idx = 0 then Inr (False, rs)
      else case root_node idx of
             None \<Rightarrow> Inr (False, rs)
           | Some t \<Rightarrow>
               let epsError = 1 + eps;
                   dv = replicate (kd_dim idx) 0;
                   (distsq, dv) = computeInitialDistances mt (kd_dim idx) (root_bbox idx) vec dv
               in bindE (dyn_searchLevel ops mt get (kd_dim idx) (vind idx) ti vec epsError t distsq dv rs)
                    (\<lambda>(rs, _). Inr (rs_full ops rs, rs)))"

definition dyn_knnSearch :: "metric \<Rightarrow> data_source \<Rightarrow> int list \<Rightarrow> kd_index \<Rightarrow> real list \<Rightarrow> real \<Rightarrow> nat \<Rightarrow>
    nat list \<Rightarrow> real list \<Rightarrow> (nat \<times> nat list \<times> real list) result" where
  "dyn_knnSearch mt get ti idx query_point max_dist num_closest out_indices out_distances_sq =
     (let resultSet = knn_init max_dist out_indices out_distances_sq (KNNResultSet num_closest)
      in bindE (dyn_findNeighbors KNN_ops mt get ti idx resultSet query_point (sp_eps (SearchParams 0 True)))
           (\<lambda>(_, rs). Inr (knn_size rs, indices rs, dists rs)))"

definition dyn_radiusSearchCustomCallback :: "metric \<Rightarrow> data_source \<Rightarrow> int list \<Rightarrow> kd_index \<Rightarrow> real list \<Rightarrow>
    real radius_set \<Rightarrow> search_params \<Rightarrow> (nat \<times> real radius_set) result" where
  "dyn_radiusSearchCustomCallback mt get ti idx query_point resultSet params =
     bindE (dyn_findNeighbors Radius_ops mt get ti idx resultSet query_point (sp_eps params))
       (\<lambda>(_, rs). Inr (radius_size rs, rs))"

definition dyn_radiusSearch :: "((nat \<times> real) list \<Rightarrow> (nat \<times> real) list) \<Rightarrow> metric \<Rightarrow> data_source \<Rightarrow> int list \<Rightarrow>
    kd_index \<Rightarrow> real list \<Rightarrow> real \<Rightarrow> (nat \<times> real) list \<Rightarrow> search_params \<Rightarrow> (nat \<times> (nat \<times> real) list) result" where
  "dyn_radiusSearch std_sort mt get ti idx query_point r IndicesDists params =
     bindE (dyn_radiusSearchCustomCallback mt get ti idx query_point (RadiusResultSet r IndicesDists) params)
       (\<lambda>(nFound, rs).
          let IndicesDists = m_indices_dists rs
          in Inr (nFound, if sp_sorted params then std_sort IndicesDists else IndicesDists))"

subsection \<open>Building\<close>

definition dyn_tree_ok :: "data_source \<Rightarrow> kd_index \<Rightarrow> bool" where
  "dyn_tree_ok get t \<longleftrightarrow>
     (if vind t = [] then root_node t = None
      else m_size t = length (vind t) \<and> root_bbox t = bbox_of get (kd_dim t) (set (vind t)) \<and>
           (\<exists>n. root_node t = Some n \<and> tree_ok get (kd_dim t) (vind t) 0 (length (vind t)) n))"

lemma dyn_buildIndex_ok:
  assumes "1 \<le> m_leaf_max_size idx" "0 < kd_dim idx" "vind idx \<noteq> []"
  shows "\<exists>t. dyn_buildIndex get idx = Some (Inr t) \<and> dyn_tree_ok get t \<and> mset (vind t) = mset (vind idx) \<and>
     kd_dim t = kd_dim idx \<and> m_leaf_max_size t = m_leaf_max_size idx"
proof -
  let ?n = "length (vind idx)"
  define bb where "bb = foldl (\<lambda>bbox k. grow_bbox get (kd_dim idx) bbox (vind idx ! k))
    (point_bbox get (kd_dim idx) (vind idx ! 0)) [1..<?n]"
  have n: "0 < ?n" using assms(3) by simp
  from divideTree_spec [OF assms(1,2) n order_refl, of get bb] obtain r v where
    d: "divideTree get (kd_dim idx) (m_leaf_max_size idx) (vind idx) 0 ?n bb =
      Some (r, v, bbox_of get (kd_dim idx) (set (vind idx)))"
    and t: "tree_ok get (kd_dim idx) v 0 ?n r" and o: "same_outside (vind idx) v 0 ?n"
    and m: "mset (subvec v 0 ?n) = mset (vind idx)" by auto
  have l: "length v = ?n" using o by (simp add: same_outside_def)
  then have m: "mset v = mset (vind idx)" using m subvec_all [of v] by simp
  then have "set v = set (vind idx)" by (rule mset_eq_setD)
  let ?t = "idx\<lparr>m_size := ?n, root_node := Some r, m_size_at_index_build := ?n, vind := v,
    root_bbox := bbox_of get (kd_dim idx) (set (vind idx))\<rparr>"
  have "dyn_computeBoundingBox get (idx\<lparr>m_size := ?n, root_node := None, m_size_at_index_build := ?n\<rparr>) = Inr bb"
    using n by (simp add: dyn_computeBoundingBox_def bb_def Let_def)
  then have "dyn_buildIndex get idx = Some (Inr ?t)"
    using n d by (simp add: dyn_buildIndex_def freeIndex_def Let_def)
  moreover have "v \<noteq> []" using l n by auto
  then have "dyn_tree_ok get ?t" using \<open>set v = set (vind idx)\<close> l t by (simp add: dyn_tree_ok_def)
  ultimately show ?thesis using m by auto
qed

lemma empty_block_ok: "vind t = [] \<Longrightarrow> root_node t = None \<Longrightarrow> dyn_tree_ok get t"
  by (simp add: dyn_tree_ok_def)

subsection \<open>Searching\<close>

definition alive :: "int list \<Rightarrow> nat list \<Rightarrow> nat list" where
  "alive ti ps = filter (\<lambda>p. ti ! p \<noteq> -1) ps"

lemma alive_simps [simp]:
  "alive ti [] = []" "alive ti (ps @ qs) = alive ti ps @ alive ti qs" "set (alive ti ps) = {p \<in> set ps. ti ! p \<noteq> -1}"
  by (auto simp: alive_def)

context kd_search begin

lemma dyn_leaf_scan_holds:
  assumes "holds M rs" "worstDist rs \<le> w" "\<And>p. p \<in> set ps \<Longrightarrow> p < length ti \<and> limit (d p)"
  shows "\<exists>rs'. dyn_leaf_scan ops ti d w ps rs = Inr rs' \<and> holds (M + mset (map (\<lambda>p. (d p, p)) (alive ti ps))) rs'"
  using assms
proof (induction ps arbitrary: M rs)
  case (Cons p ps)
  have p: "\<not> length ti \<le> p" "limit (d p)" using Cons.prems(3) [of p] by auto
  consider "ti ! p = -1" | "ti ! p \<noteq> -1" "d p < w" | "ti ! p \<noteq> -1" "\<not> d p < w" by blast
  then show ?case
  proof cases
    case 1
    with Cons.IH [OF Cons.prems(1,2)] Cons.prems(3) p show ?thesis by (simp add: alive_def)
  next
    case 2
    obtain rs1 where add: "addPoint (d p) p rs = (True, rs1)"
      using add_continues [OF Cons.prems(1) p(2), of p] by (metis prod.collapse)
    then have "holds (add_mset (d p, p) M) rs1" "worstDist rs1 \<le> w"
      using add_holds [OF Cons.prems(1) p(2), of p] add_worst [OF Cons.prems(1) p(2), of p] Cons.prems(2) by auto
    from Cons.IH [OF this] Cons.prems(3) p 2 add show ?thesis by (simp add: ops_add alive_def)
  next
    case 3
    then have "holds (add_mset (d p, p) M) rs"
      using Cons.prems(2) by (intro skip_holds [OF Cons.prems(1) p(2)]) simp
    from Cons.IH [OF this Cons.prems(2)] Cons.prems(3) p 3 show ?thesis by (simp add: alive_def)
  qed
qed simp

lemma dyn_searchLevel_holds:
  assumes "tree_ok get ndim vi l r n" "holds M rs" "length dv = ndim" "mindistsq = sum_list dv"
    "\<And>p. p \<in> set (subvec vi l r) \<Longrightarrow> p < length ti \<and> limit (evalMetric get vec p ndim)"
    "\<And>p i. p \<in> set (subvec vi l r) \<Longrightarrow> i < ndim \<Longrightarrow> dv ! i \<le> accum_dist (vec ! i) (get p i) i"
  shows "\<exists>rs'. dyn_searchLevel ops mt get ndim vi ti vec 1 n mindistsq dv rs = Inr (rs', dv) \<and>
     holds (M + found get ndim vec (alive ti (subvec vi l r))) rs'"
  using assms
proof (induction n arbitrary: l r M rs dv mindistsq)
  case (Leaf a b)
  then have "map (\<lambda>i. vi ! i) [a..<b] = subvec vi l r" by (simp add: map_nth_subvec)
  with dyn_leaf_scan_holds [OF Leaf.prems(2) order_refl, of "subvec vi l r" ti] Leaf.prems(5) show ?case
    by (fastforce simp: dyn_searchLevel.simps(1) found_def ops_worst mt_eval)
next
  case (Nonleaf f lo hi c1 c2)
  then obtain mid where f: "f < ndim" and lohi: "lo \<le> hi" and mid: "l < mid" "mid < r"
    and t1: "tree_ok get ndim vi l mid c1" and t2: "tree_ok get ndim vi mid r c2"
    and b1: "\<And>p. p \<in> set (subvec vi l mid) \<Longrightarrow> get p f \<le> lo"
    and b2: "\<And>p. p \<in> set (subvec vi mid r) \<Longrightarrow> hi \<le> get p f"
    by auto
  have split: "subvec vi l r = subvec vi l mid @ subvec vi mid r" using mid by (intro subvec_split) auto
  define swapped where "swapped \<longleftrightarrow> \<not> ((vec ! f - lo) + (vec ! f - hi) < 0)"
  define cd where "cd = accum_dist (vec ! f) (if swapped then lo else hi) f"
  define best where "best = (if swapped then subvec vi mid r else subvec vi l mid)"
  define other where "other = (if swapped then subvec vi l mid else subvec vi mid r)"
  have perm: "found get ndim vec (alive ti (subvec vi l r)) = found get ndim vec (alive ti best) + found get ndim vec (alive ti other)"
    "set best \<subseteq> set (subvec vi l r)" "set other \<subseteq> set (subvec vi l r)"
    unfolding split alive_simps found_append best_def other_def by auto
  have cd: "cd \<le> accum_dist (vec ! f) (get p f) f" if "p \<in> set other" for p
  proof (cases swapped)
    case True
    with that b1 [of p] lohi show ?thesis
      by (auto simp: cd_def other_def swapped_def intro!: accum_mono_below)
  next
    case False
    with that b2 [of p] lohi show ?thesis
      by (auto simp: cd_def other_def swapped_def intro!: accum_mono_above)
  qed
  have "\<exists>rs1. dyn_searchLevel ops mt get ndim vi ti vec 1 (if swapped then c2 else c1) mindistsq dv rs = Inr (rs1, dv) \<and>
      holds (M + found get ndim vec (alive ti best)) rs1"
    using Nonleaf.IH(1) [OF t1 Nonleaf.prems(2-4)] Nonleaf.IH(2) [OF t2 Nonleaf.prems(2-4)]
      Nonleaf.prems(5,6) perm(2) unfolding best_def by (cases swapped; simp add: subset_iff)
  then obtain rs1 where s1: "dyn_searchLevel ops mt get ndim vi ti vec 1 (if swapped then c2 else c1) mindistsq dv rs = Inr (rs1, dv)"
    and h1: "holds (M + found get ndim vec (alive ti best)) rs1" by blast
  define dv2 where "dv2 = dv[f := cd]"
  define m2 where "m2 = mindistsq + cd - dv ! f"
  have len2: "length dv2 = ndim" using Nonleaf.prems(3) by (simp add: dv2_def)
  have m2: "m2 = sum_list dv2"
    using f Nonleaf.prems(3,4) by (simp add: m2_def dv2_def sum_list_update)
  have lb: "dv2 ! i \<le> accum_dist (vec ! i) (get p i) i" if "p \<in> set other" "i < ndim" for p i
    using that cd Nonleaf.prems(3,6) perm(3) f by (auto simp: dv2_def nth_list_update)
  have restore: "dv2[f := dv ! f] = dv" by (simp add: dv2_def)
  have lim: "p < length ti \<and> limit (evalMetric get vec p ndim)" if "p \<in> set other" for p
    using Nonleaf.prems(5) perm(3) that by blast
  note unfold = dyn_searchLevel.simps(2) [of ops mt get ndim vi ti vec 1 f lo hi c1 c2 mindistsq dv rs]
  have eq: "dyn_searchLevel ops mt get ndim vi ti vec 1 (Nonleaf f lo hi c1 c2) mindistsq dv rs =
      (if m2 \<le> worstDist rs1
       then bindE (dyn_searchLevel ops mt get ndim vi ti vec 1 (if swapped then c1 else c2) m2 dv2 rs1)
              (\<lambda>(rs, ds). Inr (rs, ds[f := dv ! f]))
       else Inr (rs1, dv))"
    unfolding unfold using s1 restore
    by (auto simp: Let_def swapped_def cd_def m2_def dv2_def ops_worst mt_accum split: if_splits)
  show ?case
  proof (cases "m2 \<le> worstDist rs1")
    case True
    have "\<exists>rs2. dyn_searchLevel ops mt get ndim vi ti vec 1 (if swapped then c1 else c2) m2 dv2 rs1 = Inr (rs2, dv2) \<and>
        holds (M + found get ndim vec (alive ti best) + found get ndim vec (alive ti other)) rs2"
      using Nonleaf.IH(1) [OF t1 h1 len2 m2] Nonleaf.IH(2) [OF t2 h1 len2 m2] lim lb
      unfolding other_def by (cases swapped; simp)
    then show ?thesis using True restore by (auto simp: eq perm(1) add.assoc)
  next
    case False
    have "holds (M + found get ndim vec (alive ti best) + found get ndim vec (alive ti other)) rs1"
    proof (rule skip_many [OF h1])
      fix x assume "x \<in># found get ndim vec (alive ti other)"
      then obtain p where p: "p \<in> set other" "x = (evalMetric get vec p ndim, p)"
        by (auto simp: found_def)
      have "m2 \<le> evalMetric get vec p ndim"
        unfolding m2 using lb p(1) len2 by (intro evalMetric_lower_bound) auto
      with False lim p show "limit (fst x) \<and> worstDist rs1 \<le> fst x" by simp
    qed
    then show ?thesis using False by (simp add: eq perm(1) add.assoc)
  qed
qed

text \<open>One tree, empty or not.\<close>

lemma dyn_findNeighbors_holds:
  assumes t: "dyn_tree_ok get t" and h: "holds M rs"
    and lim: "\<And>p. p \<in> set (vind t) \<Longrightarrow> p < length ti \<and> limit (evalMetric get vec p (kd_dim t))"
  shows "\<exists>b rs'. dyn_findNeighbors ops mt get ti t rs vec 0 = Inr (b, rs') \<and>
     holds (M + found get (kd_dim t) vec (alive ti (vind t))) rs'"
proof (cases "vind t = []")
  case True
  then show ?thesis using t h by (auto simp: dyn_findNeighbors_def dyn_tree_ok_def found_def)
next
  case False
  let ?D = "kd_dim t" and ?S = "set (vind t)" and ?bb = "bbox_of get (kd_dim t) (set (vind t))"
  obtain n where n: "root_node t = Some n" "tree_ok get ?D (vind t) 0 (length (vind t)) n"
    and bb: "root_bbox t = ?bb" and sz: "m_size t \<noteq> 0"
    using t False by (auto simp: dyn_tree_ok_def)
  let ?dv = "map (box_dist ?bb vec) [0..<?D]"
  have "low (?bb ! i) \<le> high (?bb ! i)" if "i < ?D" for i
    using that False by (auto intro: order_trans [OF Min_le [of _ "get (hd (vind t)) i"] Max_ge])
  from computeInitialDistances_eq [OF this]
  have init: "computeInitialDistances mt ?D ?bb vec (replicate ?D 0) = (sum_list ?dv, ?dv)"
    by (simp add: sum_list_sum_nth atLeast0LessThan)
  have b: "?dv ! i \<le> accum_dist (vec ! i) (get p i) i" if "p \<in> ?S" "i < ?D" for p i
    using box_dist_le [of p ?S i ?D get vec] that by simp
  obtain rs' where "dyn_searchLevel ops mt get ?D (vind t) ti vec 1 n (sum_list ?dv) ?dv rs = Inr (rs', ?dv)"
    and "holds (M + found get ?D vec (alive ti (vind t))) rs'"
    using dyn_searchLevel_holds [OF n(2) h, of ?dv "sum_list ?dv" ti vec] lim b by auto
  then show ?thesis using sz n(1) bb init by (simp add: dyn_findNeighbors_def kd_size_def)
qed

end

text \<open>The queries of one tree.\<close>

lemma dyn_knnSearch_nearest:
  assumes "dyn_tree_ok get t" "0 < cap"
    and "\<And>p. p \<in> set (vind t) \<Longrightarrow> p < length ti \<and> L2_Simple_evalMetric get vec p (kd_dim t) < mx"
  shows "\<exists>rs. dyn_knnSearch L2_Simple get ti t vec mx cap (replicate cap 0) (replicate cap 0) =
       Inr (min cap (length (alive ti (vind t))), indices rs, dists rs) \<and>
     nearest cap (mset (map (\<lambda>p. (L2_Simple_evalMetric get vec p (kd_dim t), p)) (alive ti (vind t)))) (knn_entries rs)"
proof -
  have "knn_holds mx cap {#} (knn_init mx (replicate cap 0) (replicate cap 0) (KNNResultSet cap))"
    using assms(2) by (rule knn_init_holds)
  from knn_search.dyn_findNeighbors_holds [OF assms(1) this assms(3)] obtain b rs where
    f: "dyn_findNeighbors KNN_ops L2_Simple get ti t (knn_init mx (replicate cap 0) (replicate cap 0) (KNNResultSet cap)) vec 0 = Inr (b, rs)"
    and h: "knn_holds mx cap (mset (map (\<lambda>p. (L2_Simple_evalMetric get vec p (kd_dim t), p)) (alive ti (vind t)))) rs"
    by (auto simp: knn_search.found_def)
  from h have n: "nearest cap (mset (map (\<lambda>p. (L2_Simple_evalMetric get vec p (kd_dim t), p)) (alive ti (vind t)))) (knn_entries rs)"
    and wf: "knn_wf mx rs" by (auto simp: knn_holds_def)
  then have "knn_size rs = min cap (length (alive ti (vind t)))"
    using length_knn_entries [OF wf] by (simp add: nearest_def knn_size_def)
  with f n show ?thesis by (auto simp: dyn_knnSearch_def SearchParams_def)
qed

lemma dyn_radiusSearch_sorted:
  assumes "std_sort_ok std_sort" "dyn_tree_ok get t"
    and "\<And>p. p \<in> set (vind t) \<Longrightarrow> p < length ti"
  shows "\<exists>res. dyn_radiusSearch std_sort L2_Simple get ti t vec r items (SearchParams 0 True) = Inr (length res, res) \<and>
     sorted (map snd res) \<and>
     image_mset prod.swap (mset res) =
       filter_mset (\<lambda>x. fst x < r) (mset (map (\<lambda>p. (L2_Simple_evalMetric get vec p (kd_dim t), p)) (alive ti (vind t))))"
proof -
  have "radius_holds r {#} (RadiusResultSet r items)" by (simp add: radius_holds_def RadiusResultSet_def)
  from radius_search.dyn_findNeighbors_holds [OF assms(2) this] assms(3) obtain b rs where
    f: "dyn_findNeighbors Radius_ops L2_Simple get ti t (RadiusResultSet r items) vec 0 = Inr (b, rs)"
    and m: "image_mset prod.swap (mset (m_indices_dists rs)) =
       filter_mset (\<lambda>x. fst x < r) (mset (map (\<lambda>p. (L2_Simple_evalMetric get vec p (kd_dim t), p)) (alive ti (vind t))))"
    by (fastforce simp: radius_search.found_def radius_holds_def)
  define res where "res = std_sort (m_indices_dists rs)"
  have s: "mset res = mset (m_indices_dists rs)" "sorted (map snd res)" using assms(1) by (simp_all add: res_def std_sort_ok_def)
  have "dyn_radiusSearch std_sort L2_Simple get ti t vec r items (SearchParams 0 True) = Inr (length res, res)"
    using mset_eq_length [OF s(1)]
    by (simp add: dyn_radiusSearch_def dyn_radiusSearchCustomCallback_def SearchParams_def f radius_size_def res_def Let_def)
  with s m show ?thesis by metis
qed

end
