(* ===== verification/NF_Dynamic.thy ===== *)
theory NF_Dynamic
  imports NF_DynTree "HOL-Library.Log_Nat"
begin

text \<open>
  \<open>KDTreeSingleIndexDynamicAdaptor\<close> of \<open>libs/nanoflann.hpp\<close>: the dynamic index, a forest of trees
  that grows like a binary counter. The program does not instantiate it.

  \<^item> The vector \<open>treeIndex\<close>, to which all trees have a reference, is a field of the forest. Reading
    or writing a vector out of range is \<open>Undefined\<close>.
  \<^item> \<open>forest_spec\<close> is what the forest is in terms of points alone: how many were added, and which
    of them are alive. \<open>spec_op\<close> follows the code, so that it brings removed points back when
    their trees are merged.
\<close>

fun foldE :: "('a \<Rightarrow> 's \<Rightarrow> 's result) \<Rightarrow> 'a list \<Rightarrow> 's \<Rightarrow> 's result" where
  "foldE f [] s = Inr s"
| "foldE f (x # xs) s = bindE (f x s) (foldE f xs)"

lemma foldE_append: "foldE f (xs @ ys) s = bindE (foldE f xs s) (foldE f ys)"
  by (induction xs arbitrary: s) (simp_all add: bindE_def split: sum.splits)

subsection \<open>The forest\<close>

record forest =
  df_leaf_max_size :: nat
  treeCount :: nat
  pointCount :: nat
  treeIndex :: "int list"
  df_dim :: nat
  df_index :: "kd_index list"

text \<open>The position of the lowest unset bit.\<close>

function First0Bit :: "nat \<Rightarrow> nat" where
  "First0Bit num = (if odd num then Suc (First0Bit (num div 2)) else 0)"
  by pat_completeness auto
termination
  by (relation "measure id") (auto elim: oddE)

declare First0Bit.simps [simp del]

definition forest_init :: "int \<Rightarrow> forest \<Rightarrow> forest" where
  "forest_init DIM f = f\<lparr>df_index := replicate (treeCount f) (dyn_tree DIM (df_dim f) (df_leaf_max_size f))\<rparr>"

text \<open>The loops over the trees below \<open>pos\<close>, and over the points of one of them.\<close>

definition merge_point :: "nat \<Rightarrow> nat \<Rightarrow> nat list \<times> int list \<Rightarrow> (nat list \<times> int list) result" where
  "merge_point pos p = (\<lambda>(v, ti).
     if length ti \<le> p then Inl Undefined else Inr (v @ [p], ti[p := int pos]))"

definition merge_tree :: "nat \<Rightarrow> nat \<Rightarrow> forest \<Rightarrow> forest result" where
  "merge_tree pos i f =
     (let ix = df_index f in
      bindE (foldE (merge_point pos) (vind (ix ! i)) (vind (ix ! pos), treeIndex f))
        (\<lambda>(v, ti). Inr (f\<lparr>treeIndex := ti,
             df_index := ix[pos := (ix ! pos)\<lparr>vind := v\<rparr>, i := freeIndex ((ix ! i)\<lparr>vind := []\<rparr>)]\<rparr>)))"

text \<open>One round of the loop of \<open>addPoints\<close>. A construction that does not end is \<open>Diverges\<close>.\<close>

definition add_point :: "data_source \<Rightarrow> nat \<Rightarrow> forest \<Rightarrow> forest result" where
  "add_point get idx f =
     (let pos = First0Bit (pointCount f) in
      if length (df_index f) \<le> pos \<or> length (treeIndex f) \<le> pointCount f then Inl Undefined
      else
        let f = f\<lparr>df_index := (df_index f)[pos := (df_index f ! pos)\<lparr>vind := []\<rparr>],
                  treeIndex := (treeIndex f)[pointCount f := int pos]\<rparr>
        in bindE (foldE (merge_tree pos) [0..<pos] f)
             (\<lambda>f. let t = df_index f ! pos in
                case dyn_buildIndex get (t\<lparr>vind := vind t @ [idx]\<rparr>) of
                  None \<Rightarrow> Inl Diverges
                | Some r \<Rightarrow> bindE r (\<lambda>t. Inr (f\<lparr>df_index := (df_index f)[pos := t], pointCount := pointCount f + 1\<rparr>))))"

text \<open>The number of points is computed with 64 bits; a vector of \<open>int\<close> holds less than \<open>2 ^ 61\<close>.\<close>

definition addPoints :: "data_source \<Rightarrow> nat \<Rightarrow> nat \<Rightarrow> forest \<Rightarrow> forest result" where
  "addPoints get first last_idx f =
     (let count = of_nat last_idx - of_nat first + 1 :: 64 word;
          n = unat (of_nat (length (treeIndex f)) + count)
      in if 2 ^ 61 \<le> n then Inl (Throws Length_error)
         else foldE (add_point get) [first..<Suc last_idx]
                (f\<lparr>treeIndex := take n (treeIndex f) @ replicate (n - length (treeIndex f)) 0\<rparr>))"

definition removePoint :: "nat \<Rightarrow> forest \<Rightarrow> forest result" where
  "removePoint idx f =
     (if idx \<ge> pointCount f then Inr f
      else if length (treeIndex f) \<le> idx then Inl Undefined
      else Inr (f\<lparr>treeIndex := (treeIndex f)[idx := -1]\<rparr>))"

text \<open>The conversion of \<open>log2(0)\<close> to an integer is undefined.\<close>

definition trees_for :: "nat \<Rightarrow> nat result" where
  "trees_for maximumPointCount =
     (if maximumPointCount = 0 then Inl Undefined else Inr (floorlog 2 maximumPointCount - 1))"

definition KDTreeSingleIndexDynamicAdaptor :: "int \<Rightarrow> nat \<Rightarrow> data_source \<Rightarrow> nat \<Rightarrow> nat \<Rightarrow> nat \<Rightarrow> forest result" where
  "KDTreeSingleIndexDynamicAdaptor DIM dimensionality get point_count leaf_max_size maximumPointCount =
     bindE (trees_for maximumPointCount) (\<lambda>tc.
       let f = forest_init DIM \<lparr>df_leaf_max_size = leaf_max_size, treeCount = tc, pointCount = 0, treeIndex = [],
                 df_dim = (if DIM > 0 then nat DIM else dimensionality), df_index = []\<rparr>
       in if point_count > 0 then addPoints get 0 (point_count - 1) f else Inr f)"

definition forest_findNeighbors :: "'rs result_set_ops \<Rightarrow> metric \<Rightarrow> data_source \<Rightarrow> forest \<Rightarrow> 'rs \<Rightarrow> real list \<Rightarrow>
    real \<Rightarrow> (bool \<times> 'rs) result" where
  "forest_findNeighbors ops mt get f rs vec eps =
     bindE (foldE (\<lambda>i rs. bindE (dyn_findNeighbors ops mt get (treeIndex f) (df_index f ! i) rs vec eps)
                     (\<lambda>(_, rs). Inr rs)) [0..<treeCount f] rs)
       (\<lambda>rs. Inr (rs_full ops rs, rs))"

subsection \<open>The forest as a binary counter\<close>

lemma First0Bit_odd: "n = 2 * m + 1 \<Longrightarrow> First0Bit n = Suc (First0Bit m)"
  by (subst First0Bit.simps) simp

lemma First0Bit_even: "even n \<Longrightarrow> First0Bit n = 0"
  by (subst First0Bit.simps) simp

lemma First0Bit_spec: "\<exists>q. Suc n = q * 2 ^ Suc (First0Bit n) + 2 ^ First0Bit n"
proof (induction n rule: First0Bit.induct)
  case (1 n)
  show ?case
  proof (cases "odd n")
    case True
    then obtain m where m: "n = 2 * m + 1" by (rule oddE)
    with 1 [OF True] obtain q where q: "Suc m = q * 2 ^ Suc (First0Bit m) + 2 ^ First0Bit m" by auto
    have "Suc n = 2 * Suc m" using m by simp
    also have "\<dots> = q * 2 ^ Suc (First0Bit n) + 2 ^ First0Bit n"
      unfolding First0Bit_odd [OF m] q by simp
    finally show ?thesis by blast
  next
    case False
    then obtain m where "n = 2 * m" by (auto elim: evenE)
    then have "Suc n = m * 2 ^ Suc (First0Bit n) + 2 ^ First0Bit n" using First0Bit_even [of n] False by simp
    then show ?thesis by blast
  qed
qed

text \<open>The points in the tree \<open>i\<close> of a forest of \<open>n\<close> points: the block of the bit \<open>i\<close>.\<close>

definition block_start :: "nat \<Rightarrow> nat \<Rightarrow> nat" where
  "block_start n i = n div 2 ^ i * 2 ^ i"

definition block :: "nat \<Rightarrow> nat \<Rightarrow> nat list" where
  "block n i = (if odd (n div 2 ^ i) then [block_start n (Suc i)..<block_start n (Suc i) + 2 ^ i] else [])"

lemma block_start_0 [simp]: "block_start n 0 = n"
  by (simp add: block_start_def)

lemma block_start_le: "block_start n i \<le> n"
  by (simp add: block_start_def)

lemma block_start_Suc: "block_start n i = block_start n (Suc i) + (if odd (n div 2 ^ i) then 2 ^ i else 0)"
proof -
  define k where "k = n div 2 ^ i"
  have "n div 2 ^ Suc i = k div 2" unfolding k_def power_Suc2 by (rule div_mult2_eq)
  moreover have "k * 2 ^ i = k div 2 * 2 ^ Suc i + (if odd k then 2 ^ i else 0)"
    by (cases "odd k") (auto elim!: oddE evenE simp: algebra_simps)
  ultimately show ?thesis by (simp add: block_start_def k_def)
qed

lemma blocks_below: "mset (concat (map (block n) [0..<k])) = mset [block_start n k..<n]"
proof (induction k)
  case (Suc k)
  have "mset [block_start n (Suc k)..<n] = mset [block_start n (Suc k)..<block_start n k] + mset [block_start n k..<n]"
    using block_start_le [of n k] upt_add_eq_append [of "block_start n (Suc k)" "block_start n k" "n - block_start n k"]
      block_start_Suc [of n k] by simp
  moreover have "mset (block n k) = mset [block_start n (Suc k)..<block_start n k]"
    using block_start_Suc [of n k] by (simp add: block_def)
  ultimately show ?case using Suc by simp
qed simp

lemma blocks_all: "n < 2 ^ k \<Longrightarrow> mset (concat (map (block n) [0..<k])) = mset [0..<n]"
  by (simp add: blocks_below block_start_def)

text \<open>Counting up: the blocks below the first unset bit are merged into the block of this bit.\<close>

lemma counter_step:
  fixes n :: nat
  defines "k \<equiv> First0Bit n"
  shows block_below_pos: "i < k \<Longrightarrow> block (Suc n) i = []"
    and block_at_pos: "block n k = []"
    and block_of_pos: "block (Suc n) k = [block_start n k..<Suc n]"
    and block_above_pos: "k < i \<Longrightarrow> block (Suc n) i = block n i"
proof -
  obtain q where q: "Suc n = q * 2 ^ Suc k + 2 ^ k" using First0Bit_spec k_def by blast
  define b :: nat where "b = 2 ^ k"
  have b: "0 < b" "Suc n = b + q * (2 * b)" "n = (b - 1) + q * (2 * b)"
    using q by (simp_all add: b_def)
  have hi: "Suc n div (2 * b) = q" "n div (2 * b) = q"
    using b(1) div_mult_self1 [of "2 * b" b q] div_mult_self1 [of "2 * b" "b - 1" q]
    by (simp_all only: b(2) flip: b(3)) simp_all
  then have hi: "Suc n div 2 ^ Suc k = q" "n div 2 ^ Suc k = q" by (simp_all add: b_def)
  have "Suc n = 0 + (2 * q + 1) * b" "n = (b - 1) + (2 * q) * b" using b by (simp_all add: algebra_simps)
  then have "Suc n div b = 2 * q + 1" "n div b = 2 * q"
    using b(1) div_mult_self1 [of b 0 "2 * q + 1"] div_mult_self1 [of b "b - 1" "2 * q"] by simp_all
  then have at: "Suc n div 2 ^ k = 2 * q + 1" "n div 2 ^ k = 2 * q" by (simp_all add: b_def)
  show "block n k = []" using at(2) by (simp add: block_def)
  show "block (Suc n) k = [block_start n k..<Suc n]"
    using at hi q by (simp add: block_def block_start_def mult.assoc mult.commute)
  show "block (Suc n) i = []" if "i < k"
  proof -
    have "2 ^ k = (2 ^ (k - i) :: nat) * 2 ^ i" using that by (simp flip: power_add)
    then have "Suc n = (q * 2 * 2 ^ (k - i) + 2 ^ (k - i)) * 2 ^ i" using q by (simp add: algebra_simps)
    then have "Suc n div 2 ^ i = q * 2 * 2 ^ (k - i) + 2 ^ (k - i)" by (metis nonzero_mult_div_cancel_right power_not_zero zero_neq_numeral)
    then show ?thesis using that by (simp add: block_def)
  qed
  show "block (Suc n) i = block n i" if "k < i"
  proof -
    have "Suc n div 2 ^ j = n div 2 ^ j" if "Suc k \<le> j" for j
    proof -
      have "2 ^ j = (2 ^ Suc k :: nat) * 2 ^ (j - Suc k)" using that by (metis le_add_diff_inverse power_add)
      then show ?thesis using hi by (simp add: div_mult2_eq)
    qed
    from this [of i] this [of "Suc i"] that show ?thesis by (simp add: block_def block_start_def)
  qed
qed

lemma First0Bit_less_iff: "n < 2 ^ k \<Longrightarrow> First0Bit n < k \<longleftrightarrow> Suc n < 2 ^ k"
proof (induction n arbitrary: k rule: First0Bit.induct)
  case (1 n)
  show ?case
  proof (cases "odd n")
    case True
    then obtain m where m: "n = 2 * m + 1" by (rule oddE)
    with 1(2) obtain k' where k: "k = Suc k'" by (cases k) auto
    have "First0Bit m < k' \<longleftrightarrow> Suc m < 2 ^ k'" using 1(1) [OF True, of k'] 1(2) m k by simp
    moreover have "Suc n = 2 * Suc m" "(2::nat) ^ k = 2 * 2 ^ k'" using m k by simp_all
    then have "Suc n < 2 ^ k \<longleftrightarrow> Suc m < 2 ^ k'" by (simp only: mult_less_cancel1) simp
    ultimately show ?thesis using k by (simp add: First0Bit_odd [OF m])
  next
    case False
    show ?thesis
    proof (cases k)
      case (Suc k')
      have "Suc n \<noteq> 2 ^ k" using False Suc by (metis even_Suc even_mult_iff dvd_refl power_Suc)
      with 1(2) False Suc show ?thesis by (simp add: First0Bit_even)
    qed (use 1(2) False in simp)
  qed
qed

subsection \<open>Merging trees\<close>

definition mark :: "nat \<Rightarrow> nat list \<Rightarrow> int list \<Rightarrow> int list" where
  "mark pos ps ti = foldl (\<lambda>ti p. ti[p := int pos]) ti ps"

lemma length_mark [simp]: "length (mark pos ps ti) = length ti"
  by (simp add: mark_def length_foldl_update)

lemma mark_append: "mark pos (ps @ qs) ti = mark pos qs (mark pos ps ti)"
  by (simp add: mark_def)

lemma mark_nth: "i < length ti \<Longrightarrow> mark pos ps ti ! i = (if i \<in> set ps then int pos else ti ! i)"
  unfolding mark_def by (induction ps arbitrary: ti) (auto simp: nth_list_update)

lemma merge_points:
  "set ps \<subseteq> {..<length ti} \<Longrightarrow> foldE (merge_point pos) ps (v, ti) = Inr (v @ ps, mark pos ps ti)"
  by (induction ps arbitrary: v ti) (simp_all add: merge_point_def mark_def)

lemma merge_trees:
  assumes "k \<le> pos" "pos < length (df_index f)"
    and "\<And>i. i < pos \<Longrightarrow> set (vind (df_index f ! i)) \<subseteq> {..<length (treeIndex f)}"
  defines "below \<equiv> concat (map (\<lambda>i. vind (df_index f ! i)) [0..<k])"
  shows "\<exists>ix. foldE (merge_tree pos) [0..<k] f =
       Inr (f\<lparr>treeIndex := mark pos below (treeIndex f), df_index := ix\<rparr>) \<and> length ix = length (df_index f) \<and>
     (\<forall>i < k. ix ! i = freeIndex ((df_index f ! i)\<lparr>vind := []\<rparr>)) \<and>
     ix ! pos = (df_index f ! pos)\<lparr>vind := vind (df_index f ! pos) @ below\<rparr> \<and>
     (\<forall>i < length ix. k \<le> i \<and> i \<noteq> pos \<longrightarrow> ix ! i = df_index f ! i)"
  using assms(1) unfolding below_def
proof (induction k)
  case 0
  show ?case by (intro exI [of _ "df_index f"]) (simp add: mark_def)
next
  case (Suc k)
  let ?below = "concat (map (\<lambda>i. vind (df_index f ! i)) [0..<k])"
  obtain ix where ix: "foldE (merge_tree pos) [0..<k] f = Inr (f\<lparr>treeIndex := mark pos ?below (treeIndex f), df_index := ix\<rparr>)"
      "length ix = length (df_index f)" "\<forall>i < k. ix ! i = freeIndex ((df_index f ! i)\<lparr>vind := []\<rparr>)"
      "ix ! pos = (df_index f ! pos)\<lparr>vind := vind (df_index f ! pos) @ ?below\<rparr>"
      "\<forall>i < length ix. k \<le> i \<and> i \<noteq> pos \<longrightarrow> ix ! i = df_index f ! i"
    using Suc by auto
  have k: "ix ! k = df_index f ! k" using ix(2,5) Suc.prems assms(2) by simp
  let ?ix = "ix[pos := (ix ! pos)\<lparr>vind := vind (ix ! pos) @ vind (df_index f ! k)\<rparr>, k := freeIndex ((df_index f ! k)\<lparr>vind := []\<rparr>)]"
  have "set (vind (df_index f ! k)) \<subseteq> {..<length (mark pos ?below (treeIndex f))}" using assms(3) Suc.prems by simp
  then have "foldE (merge_tree pos) [0..<Suc k] f =
      Inr (f\<lparr>treeIndex := mark pos (?below @ vind (df_index f ! k)) (treeIndex f), df_index := ?ix\<rparr>)"
    using ix(1) k by (simp add: foldE_append merge_tree_def merge_points mark_append)
  with ix(2-5) Suc.prems assms(2) show ?case
    by (intro exI [of _ ?ix]) (auto simp: nth_list_update less_Suc_eq)
qed

subsection \<open>Adding and removing points\<close>

text \<open>
  A forest of \<open>n\<close> points, of dimension \<open>D\<close> and with leaves of at most \<open>L\<close> points: the tree \<open>i\<close>
  holds the block of the bit \<open>i\<close>, and \<open>treeIndex\<close> names for every point that was not removed
  the tree that holds it.
\<close>

definition trees_ok :: "data_source \<Rightarrow> nat \<Rightarrow> nat \<Rightarrow> nat \<Rightarrow> kd_index list \<Rightarrow> bool" where
  "trees_ok get D L n ix \<longleftrightarrow> (\<forall>i < length ix. kd_dim (ix ! i) = D \<and> m_leaf_max_size (ix ! i) = L \<and>
     dyn_tree_ok get (ix ! i) \<and> mset (vind (ix ! i)) = mset (block n i))"

definition forest_ok :: "data_source \<Rightarrow> nat \<Rightarrow> nat \<Rightarrow> forest \<Rightarrow> bool" where
  "forest_ok get D L f \<longleftrightarrow>
     length (df_index f) = treeCount f \<and> pointCount f \<le> length (treeIndex f) \<and> pointCount f < 2 ^ treeCount f \<and>
     trees_ok get D L (pointCount f) (df_index f) \<and>
     (\<forall>p < pointCount f. treeIndex f ! p = -1 \<or>
        (\<exists>i < treeCount f. treeIndex f ! p = int i \<and> p \<in> set (vind (df_index f ! i))))"

type_synonym forest_spec = "nat \<times> nat set"

definition forest_abs :: "forest \<Rightarrow> forest_spec" where
  "forest_abs f = (pointCount f, {p. p < pointCount f \<and> treeIndex f ! p \<noteq> -1})"

text \<open>Adding the point \<open>n\<close> merges the trees below the first unset bit of \<open>n\<close>, and every point in
  them is alive afterwards.\<close>

definition spec_add :: "forest_spec \<Rightarrow> forest_spec" where
  "spec_add = (\<lambda>(n, S). (Suc n, S \<union> {block_start n (First0Bit n)..n}))"

definition spec_remove :: "nat \<Rightarrow> forest_spec \<Rightarrow> forest_spec" where
  "spec_remove p = (\<lambda>(n, S). (n, S - {p}))"

lemma block_subset: "set (block n i) \<subseteq> {..<n}"
proof (cases "odd (n div 2 ^ i)")
  case True
  then have "block_start n (Suc i) + 2 ^ i \<le> n" using block_start_Suc [of n i] block_start_le [of n i] by simp
  then show ?thesis by (auto simp: block_def)
qed (simp add: block_def)

lemma trees_okD:
  assumes "trees_ok get D L n ix" "i < length ix"
  shows "kd_dim (ix ! i) = D" "m_leaf_max_size (ix ! i) = L" "dyn_tree_ok get (ix ! i)"
    "mset (vind (ix ! i)) = mset (block n i)" "set (vind (ix ! i)) = set (block n i)"
  using assms by (auto simp: trees_ok_def dest: mset_eq_setD)

lemma mset_concat_cong:
  "(\<And>x. x \<in> set xs \<Longrightarrow> mset (g x) = mset (h x)) \<Longrightarrow> mset (concat (map g xs)) = mset (concat (map h xs))"
  by (induction xs) simp_all

lemma add_point_steps:
  assumes ok: "forest_ok get D L f" and D: "1 \<le> L" "0 < D" and tc: "Suc (pointCount f) < 2 ^ treeCount f"
    and len: "pointCount f < length (treeIndex f)"
  defines "n \<equiv> pointCount f" and "k \<equiv> First0Bit (pointCount f)"
  shows "\<exists>below ix. add_point get n f = Inr (f\<lparr>treeIndex := mark k below ((treeIndex f)[n := int k]), df_index := ix, pointCount := Suc n\<rparr>) \<and>
     k < treeCount f \<and> length ix = treeCount f \<and> trees_ok get D L (Suc n) ix \<and>
     (\<forall>i < treeCount f. k < i \<longrightarrow> ix ! i = df_index f ! i) \<and> set (vind (ix ! k)) = insert n (set below) \<and>
     set below = {block_start n k..<n} \<and> (\<forall>i < k. set (vind (df_index f ! i)) \<subseteq> set below)"
proof -
  from ok have lx: "length (df_index f) = treeCount f" and nt: "n < 2 ^ treeCount f"
    and T: "trees_ok get D L n (df_index f)" by (simp_all add: forest_ok_def n_def)
  have k: "k < treeCount f" unfolding k_def using First0Bit_less_iff tc nt n_def by blast
  note T' = trees_okD [OF T, unfolded lx]
  let ?t0 = "(df_index f ! k)\<lparr>vind := []\<rparr>"
  let ?f = "f\<lparr>df_index := (df_index f)[k := ?t0], treeIndex := (treeIndex f)[n := int k]\<rparr>"
  define below where "below = concat (map (\<lambda>i. vind (df_index ?f ! i)) [0..<k])"
  have same: "df_index ?f ! i = df_index f ! i" if "i < k" for i using that by simp
  have sub: "set (vind (df_index ?f ! i)) \<subseteq> {..<length (treeIndex ?f)}" if "i < k" for i
  proof -
    have "set (vind (df_index ?f ! i)) \<subseteq> {..<n}" unfolding same [OF that] using T'(5) [of i] block_subset [of n i] k that by simp
    then show ?thesis using len n_def by fastforce
  qed
  have "pointCount f < length (treeIndex f)" "k < length (df_index ?f)" using len k lx by simp_all
  from merge_trees [OF order_refl this(2) sub] obtain ix where
    ix: "foldE (merge_tree k) [0..<k] ?f = Inr (?f\<lparr>treeIndex := mark k below (treeIndex ?f), df_index := ix\<rparr>)"
      "length ix = treeCount f" "\<forall>i < k. ix ! i = freeIndex ((df_index ?f ! i)\<lparr>vind := []\<rparr>)"
      "ix ! k = ?t0\<lparr>vind := below\<rparr>" "\<forall>i < treeCount f. k < i \<longrightarrow> ix ! i = df_index f ! i"
    using k lx by (auto simp: below_def)
  have "below = concat (map (\<lambda>i. vind (df_index f ! i)) [0..<k])"
    unfolding below_def by (intro arg_cong [of _ _ concat] map_cong refl) (simp add: same)
  moreover have "mset (concat (map (\<lambda>i. vind (df_index f ! i)) [0..<k])) = mset (concat (map (block n) [0..<k]))"
    using T'(4) k by (intro mset_concat_cong) simp
  ultimately have mb: "mset below = mset [block_start n k..<n]" by (simp only: blocks_below)
  then have sb: "set below = {block_start n k..<n}" by (metis mset_eq_setD set_upt)
  let ?t1 = "(ix ! k)\<lparr>vind := vind (ix ! k) @ [n]\<rparr>"
  have "1 \<le> m_leaf_max_size ?t1" "0 < kd_dim ?t1" "vind ?t1 \<noteq> []" using ix(4) T'(1,2) [OF k] D by simp_all
  from dyn_buildIndex_ok [OF this, of get] obtain t where
    t: "dyn_buildIndex get ?t1 = Some (Inr t)" "dyn_tree_ok get t" "mset (vind t) = mset (below @ [n])" "kd_dim t = D" "m_leaf_max_size t = L"
    using ix(4) T'(1,2) [OF k] by auto
  have "add_point get n f = Inr (f\<lparr>treeIndex := mark k below ((treeIndex f)[n := int k]), df_index := ix[k := t], pointCount := Suc n\<rparr>)"
    using ix(1) t(1) len k lx by (simp add: add_point_def n_def k_def [symmetric] Let_def)
  moreover have "trees_ok get D L (Suc n) (ix[k := t])"
    unfolding trees_ok_def
  proof (intro allI impI)
    fix i assume "i < length (ix[k := t])"
    then have i: "i < treeCount f" using ix(2) by simp
    have k': "k = First0Bit n" by (simp add: k_def n_def)
    consider "i < k" | "i = k" | "k < i" by arith
    then show "kd_dim (ix[k := t] ! i) = D \<and> m_leaf_max_size (ix[k := t] ! i) = L \<and> dyn_tree_ok get (ix[k := t] ! i) \<and>
        mset (vind (ix[k := t] ! i)) = mset (block (Suc n) i)"
    proof cases
      case 1
      then show ?thesis using ix(3) T'(1,2) [OF i] block_below_pos [of i n] k'
        by (simp add: freeIndex_def empty_block_ok)
    next
      case 2
      have "mset (below @ [n]) = mset [block_start n k..<Suc n]" using mb block_start_le [of n k] by simp
      then show ?thesis using 2 t k ix(2) block_of_pos [of n] k' by simp
    next
      case 3
      then show ?thesis using ix(5) i T' [OF i] block_above_pos [of n i] k' by simp
    qed
  qed
  moreover have "set (vind t) = insert n (set below)" using t(3) by (metis Un_insert_right list.set(1,2) mset_eq_setD set_append sup_bot_right)
  moreover have "set (vind (df_index f ! i)) \<subseteq> set below" if "i < k" for i
    using that by (auto simp: below_def)
  ultimately show ?thesis using ix k sb by (intro exI [of _ below] exI [of _ "ix[k := t]"]) simp
qed

lemma add_point_ok:
  assumes ok: "forest_ok get D L f" and "1 \<le> L" "0 < D" "Suc (pointCount f) < 2 ^ treeCount f"
    and len: "pointCount f < length (treeIndex f)"
  shows "\<exists>f'. add_point get (pointCount f) f = Inr f' \<and> forest_ok get D L f' \<and>
     forest_abs f' = spec_add (forest_abs f) \<and> treeCount f' = treeCount f \<and> length (treeIndex f') = length (treeIndex f)"
proof -
  define n where "n = pointCount f"
  define k where "k = First0Bit n"
  from add_point_steps [OF assms] obtain below ix where
    a: "add_point get n f = Inr (f\<lparr>treeIndex := mark k below ((treeIndex f)[n := int k]), df_index := ix, pointCount := Suc n\<rparr>)"
    and k: "k < treeCount f" and ix: "length ix = treeCount f" "trees_ok get D L (Suc n) ix"
      "\<forall>i < treeCount f. k < i \<longrightarrow> ix ! i = df_index f ! i" and vk: "set (vind (ix ! k)) = insert n (set below)"
    and b: "set below = {block_start n k..<n}" "\<forall>i < k. set (vind (df_index f ! i)) \<subseteq> set below"
    unfolding n_def [symmetric] k_def [symmetric] by blast
  let ?ti = "mark k below ((treeIndex f)[n := int k])"
  let ?f = "f\<lparr>treeIndex := ?ti, df_index := ix, pointCount := Suc n\<rparr>"
  have ti: "?ti ! p = (if p \<in> set below \<or> p = n then int k else treeIndex f ! p)" if "p < Suc n" for p
    using that len by (auto simp: mark_nth nth_list_update n_def)
  have T: "trees_ok get D L n (df_index f)" "length (df_index f) = treeCount f" using ok by (simp_all add: forest_ok_def n_def)
  have named: "?ti ! p = -1 \<or> (\<exists>i < treeCount f. ?ti ! p = int i \<and> p \<in> set (vind (ix ! i)))" if p: "p < Suc n" for p
  proof (cases "p \<in> set below \<or> p = n \<or> treeIndex f ! p = -1")
    case True
    then show ?thesis using ti [OF p] vk k by auto
  next
    case False
    then have "p < n" using p by auto
    with ok False obtain i where i: "i < treeCount f" "treeIndex f ! p = int i" "p \<in> set (vind (df_index f ! i))"
      by (auto simp: forest_ok_def n_def)
    have "i \<noteq> k" using i trees_okD(5) [OF T(1), of k] T(2) k block_at_pos [of n] by (auto simp: k_def)
    moreover have "\<not> i < k" using b(2) i(3) False by blast
    ultimately have "k < i" by arith
    then show ?thesis using ti [OF p] False ix(3) i by auto
  qed
  have fo: "forest_ok get D L ?f"
    unfolding forest_ok_def using ix(1,2) len assms(4) named by (auto simp: n_def)
  have "p < Suc n \<and> ?ti ! p \<noteq> -1 \<longleftrightarrow> p < n \<and> treeIndex f ! p \<noteq> -1 \<or> block_start n k \<le> p \<and> p \<le> n" for p
    using ti [of p] b(1) block_start_le [of n k] by (cases "p = n") (auto simp: less_Suc_eq split: if_splits)
  then have "{p. p < Suc n \<and> ?ti ! p \<noteq> -1} = {p. p < n \<and> treeIndex f ! p \<noteq> -1} \<union> {block_start n k..n}"
    by (simp only: set_eq_iff Un_iff mem_Collect_eq atLeastAtMost_iff simp_thms)
  then have "forest_abs ?f = spec_add (forest_abs f)"
    by (simp add: forest_abs_def spec_add_def n_def k_def)
  with a fo show ?thesis unfolding n_def [symmetric] by (intro exI [of _ ?f]) simp
qed

lemma removePoint_ok:
  assumes "forest_ok get D L f"
  shows "\<exists>f'. removePoint p f = Inr f' \<and> forest_ok get D L f' \<and> forest_abs f' = spec_remove p (forest_abs f) \<and>
     treeCount f' = treeCount f \<and> length (treeIndex f') = length (treeIndex f)"
proof (cases "pointCount f \<le> p")
  case True
  then show ?thesis using assms by (auto simp: removePoint_def forest_abs_def spec_remove_def)
next
  case False
  let ?f = "f\<lparr>treeIndex := (treeIndex f)[p := -1]\<rparr>"
  have "p < length (treeIndex f)" using False assms by (simp add: forest_ok_def)
  moreover from this have "(treeIndex f)[p := -1] ! q = (if q = p then -1 else treeIndex f ! q)" for q by simp
  then have "forest_ok get D L ?f" using assms by (simp add: forest_ok_def)
  ultimately show ?thesis using False
    by (intro exI [of _ ?f]) (auto simp: removePoint_def forest_abs_def spec_remove_def nth_list_update)
qed

lemma spec_add_fst [simp]: "fst ((spec_add ^^ k) s) = fst s + k"
  by (induction k) (simp_all add: spec_add_def case_prod_unfold)

lemma add_loop_ok:
  assumes "forest_ok get D L f" "1 \<le> L" "0 < D" "pointCount f + k < 2 ^ treeCount f" "pointCount f + k \<le> length (treeIndex f)"
  shows "\<exists>f'. foldE (add_point get) [pointCount f..<pointCount f + k] f = Inr f' \<and> forest_ok get D L f' \<and>
     forest_abs f' = (spec_add ^^ k) (forest_abs f) \<and> treeCount f' = treeCount f \<and> length (treeIndex f') = length (treeIndex f)"
  using assms(4,5)
proof (induction k)
  case 0
  then show ?case using assms(1) by simp
next
  case (Suc k)
  then obtain f1 where f1: "foldE (add_point get) [pointCount f..<pointCount f + k] f = Inr f1" "forest_ok get D L f1"
      "forest_abs f1 = (spec_add ^^ k) (forest_abs f)" "treeCount f1 = treeCount f" "length (treeIndex f1) = length (treeIndex f)"
    by auto
  have "fst (forest_abs f1) = pointCount f + k" by (simp add: f1(3)) (simp add: forest_abs_def)
  then have n: "pointCount f1 = pointCount f + k" by (simp add: forest_abs_def)
  from add_point_ok [OF f1(2) assms(2,3)] f1 Suc.prems n show ?case by (auto simp: foldE_append)
qed

definition forest_full :: "forest \<Rightarrow> bool" where
  "forest_full f \<longleftrightarrow> length (treeIndex f) = pointCount f"

lemma addPoints_ok:
  assumes ok: "forest_ok get D L f" "forest_full f" and D: "1 \<le> L" "0 < D"
    and room: "pointCount f + Suc k < 2 ^ treeCount f" "pointCount f + Suc k < 2 ^ 61"
  shows "\<exists>f'. addPoints get (pointCount f) (pointCount f + k) f = Inr f' \<and> forest_ok get D L f' \<and> forest_full f' \<and>
     forest_abs f' = (spec_add ^^ Suc k) (forest_abs f) \<and> treeCount f' = treeCount f"
proof -
  let ?n = "pointCount f"
  let ?f = "f\<lparr>treeIndex := treeIndex f @ replicate (Suc k) 0\<rparr>"
  have "(of_nat ?n + (of_nat (?n + k) - of_nat ?n + 1) :: 64 word) = of_nat (?n + Suc k)" by simp
  moreover have "unat (of_nat (?n + Suc k) :: 64 word) = ?n + Suc k"
    using room(2) by (simp add: unat_of_nat take_bit_nat_eq_self del: of_nat_add of_nat_Suc add_Suc_right)
  ultimately have n: "unat (of_nat ?n + (of_nat (?n + k) - of_nat ?n + 1) :: 64 word) = ?n + Suc k" by (simp only:)
  have len: "length (treeIndex f) = ?n" using ok(2) by (simp add: forest_full_def)
  have a: "addPoints get ?n (?n + k) f = foldE (add_point get) [?n..<?n + Suc k] ?f"
    unfolding addPoints_def Let_def len n using room(2) len by (simp del: upt_Suc)
  have "(treeIndex f @ xs) ! p = treeIndex f ! p" if "p < ?n" for p xs
    using that len by (simp add: nth_append)
  then have "forest_ok get D L ?f" "forest_abs ?f = forest_abs f"
    using ok(1) by (auto simp: forest_ok_def forest_abs_def simp del: replicate.simps)
  moreover have "pointCount ?f + Suc k \<le> length (treeIndex ?f)" using len by simp
  ultimately obtain f' where f': "foldE (add_point get) [?n..<?n + Suc k] ?f = Inr f'" "forest_ok get D L f'"
      "forest_abs f' = (spec_add ^^ Suc k) (forest_abs f)" "treeCount f' = treeCount f" "length (treeIndex f') = ?n + Suc k"
    using add_loop_ok [of get D L ?f "Suc k"] D room(1) len by auto
  have "fst (forest_abs f') = ?n + Suc k" by (simp only: f'(3) spec_add_fst) (simp add: forest_abs_def)
  then have "forest_full f'" using f'(5) by (simp add: forest_full_def forest_abs_def)
  with a f' show ?thesis by simp
qed

subsection \<open>Sequences of operations\<close>

datatype forest_op = Add nat | Remove nat

text \<open>\<open>Add k\<close> adds the next \<open>k + 1\<close> points of the data set, as the comments ask for.\<close>

fun run_op :: "data_source \<Rightarrow> forest_op \<Rightarrow> forest \<Rightarrow> forest result" where
  "run_op get (Add k) f = addPoints get (pointCount f) (pointCount f + k) f"
| "run_op get (Remove p) f = removePoint p f"

fun spec_op :: "forest_op \<Rightarrow> forest_spec \<Rightarrow> forest_spec" where
  "spec_op (Add k) s = (spec_add ^^ Suc k) s"
| "spec_op (Remove p) s = spec_remove p s"

declare spec_op.simps(1) [simp del]

lemma spec_op_grows: "fst s \<le> fst (spec_op q s)"
  by (cases q) (simp_all add: spec_op.simps spec_remove_def case_prod_unfold del: funpow.simps)

lemma spec_ops_grow: "fst s \<le> fst (fold spec_op qs s)"
proof (induction qs arbitrary: s)
  case (Cons q qs)
  from order_trans [OF spec_op_grows Cons.IH] show ?case by simp
qed simp

lemma run_ops_ok:
  assumes "forest_ok get D L f" "forest_full f" "1 \<le> L" "0 < D"
    and "fst (fold spec_op qs (forest_abs f)) < min (2 ^ treeCount f) (2 ^ 61)"
  shows "\<exists>f'. foldE (run_op get) qs f = Inr f' \<and> forest_ok get D L f' \<and> forest_full f' \<and>
     forest_abs f' = fold spec_op qs (forest_abs f) \<and> treeCount f' = treeCount f"
  using assms(1,2,5)
proof (induction qs arbitrary: f)
  case (Cons q qs)
  let ?s = "spec_op q (forest_abs f)"
  have room: "fst ?s < min (2 ^ treeCount f) (2 ^ 61)" using Cons.prems(3) spec_ops_grow [of ?s qs] by simp
  have "\<exists>f1. run_op get q f = Inr f1 \<and> forest_ok get D L f1 \<and> forest_full f1 \<and> forest_abs f1 = ?s \<and> treeCount f1 = treeCount f"
  proof (cases q)
    case (Add k)
    have "fst ?s = pointCount f + Suc k" by (simp only: Add spec_op.simps spec_add_fst) (simp add: forest_abs_def)
    then show ?thesis using addPoints_ok [OF Cons.prems(1,2) assms(3,4), of k] room Add by (simp add: spec_op.simps)
  next
    case (Remove p)
    from removePoint_ok [OF Cons.prems(1), of p] obtain f1 where f1: "removePoint p f = Inr f1" "forest_ok get D L f1"
      "forest_abs f1 = spec_remove p (forest_abs f)" "treeCount f1 = treeCount f" "length (treeIndex f1) = length (treeIndex f)" by blast
    then have "fst (forest_abs f1) = fst (forest_abs f)" by (simp add: spec_remove_def case_prod_unfold)
    then have "forest_full f1" using f1(5) Cons.prems(2) by (simp add: forest_full_def forest_abs_def)
    with f1 Remove show ?thesis by simp
  qed
  then obtain f1 where f1: "run_op get q f = Inr f1" "forest_ok get D L f1" "forest_full f1" "forest_abs f1 = ?s" "treeCount f1 = treeCount f"
    by blast
  from Cons.IH [OF f1(2,3)] Cons.prems(3) f1 show ?case by auto
qed simp

definition empty_forest :: "int \<Rightarrow> nat \<Rightarrow> nat \<Rightarrow> nat \<Rightarrow> forest" where
  "empty_forest DIM dimensionality leaf_max_size tc =
     forest_init DIM \<lparr>df_leaf_max_size = leaf_max_size, treeCount = tc, pointCount = 0, treeIndex = [],
       df_dim = (if DIM > 0 then nat DIM else dimensionality), df_index = []\<rparr>"

lemma empty_forest_ok:
  "forest_ok get (if DIM > 0 then nat DIM else dimensionality) L (empty_forest DIM dimensionality L tc)"
  "forest_full (empty_forest DIM dimensionality L tc)" "forest_abs (empty_forest DIM dimensionality L tc) = (0, {})"
  "treeCount (empty_forest DIM dimensionality L tc) = tc"
  by (auto simp: forest_ok_def forest_full_def forest_abs_def empty_forest_def forest_init_def trees_ok_def dyn_tree_def
      dyn_tree_ok_def block_def)

text \<open>The constructor adds what the data set has.\<close>

lemma constructor_eq:
  assumes "0 < max_points"
  shows "KDTreeSingleIndexDynamicAdaptor DIM dimensionality get n L max_points =
    foldE (run_op get) (if n = 0 then [] else [Add (n - 1)]) (empty_forest DIM dimensionality L (floorlog 2 max_points - 1))"
  using assms by (auto simp: KDTreeSingleIndexDynamicAdaptor_def trees_for_def empty_forest_def Let_def forest_init_def
      bindE_def split: sum.splits)

subsection \<open>Searching\<close>

context kd_search begin

text \<open>All trees, one after the other, into the same result set.\<close>

lemma forest_findNeighbors_holds:
  assumes f: "forest_ok get D L f" and h: "holds {#} rs"
    and lim: "\<And>p. p < pointCount f \<Longrightarrow> limit (evalMetric get vec p D)"
  shows "\<exists>rs'. forest_findNeighbors ops mt get f rs vec 0 = Inr (rs_full ops rs', rs') \<and>
     holds (found get D vec (alive (treeIndex f) [0..<pointCount f])) rs'"
proof -
  let ?n = "pointCount f" and ?ti = "treeIndex f" and ?ix = "df_index f"
  let ?search = "\<lambda>i rs. bindE (dyn_findNeighbors ops mt get ?ti (?ix ! i) rs vec 0) (\<lambda>(_, rs). Inr rs)"
  have T: "trees_ok get D L ?n ?ix" "length ?ix = treeCount f" and n: "?n \<le> length ?ti" "?n < 2 ^ treeCount f"
    using f by (simp_all add: forest_ok_def)
  note T' = trees_okD [OF T(1), unfolded T(2)]
  have "k \<le> treeCount f \<Longrightarrow> \<exists>rs'. foldE ?search [0..<k] rs = Inr rs' \<and>
      holds (found get D vec (alive ?ti (concat (map (\<lambda>i. vind (?ix ! i)) [0..<k])))) rs'" for k
  proof (induction k)
    case 0
    then show ?case using h by (simp add: found_def)
  next
    case (Suc k)
    then obtain rs1 where rs1: "foldE ?search [0..<k] rs = Inr rs1"
      "holds (found get D vec (alive ?ti (concat (map (\<lambda>i. vind (?ix ! i)) [0..<k])))) rs1" by auto
    have "p < length ?ti \<and> limit (evalMetric get vec p (kd_dim (?ix ! k)))" if "p \<in> set (vind (?ix ! k))" for p
      using that T' [of k] block_subset [of ?n k] lim [of p] n(1) Suc.prems by auto
    from dyn_findNeighbors_holds [OF T'(3) rs1(2) this] Suc.prems T'(1) [of k] obtain b rs' where
      "dyn_findNeighbors ops mt get ?ti (?ix ! k) rs1 vec 0 = Inr (b, rs')"
      "holds (found get D vec (alive ?ti (concat (map (\<lambda>i. vind (?ix ! i)) [0..<k]))) + found get D vec (alive ?ti (vind (?ix ! k)))) rs'"
      by fastforce
    then show ?case using rs1(1) by (simp add: foldE_append found_append)
  qed
  from this [OF order_refl] obtain rs' where rs': "foldE ?search [0..<treeCount f] rs = Inr rs'"
    "holds (found get D vec (alive ?ti (concat (map (\<lambda>i. vind (?ix ! i)) [0..<treeCount f])))) rs'" by blast
  have "mset (concat (map (\<lambda>i. vind (?ix ! i)) [0..<treeCount f])) = mset (concat (map (block ?n) [0..<treeCount f]))"
    using T'(4) by (intro mset_concat_cong) simp
  then have "mset (concat (map (\<lambda>i. vind (?ix ! i)) [0..<treeCount f])) = mset [0..<?n]"
    using blocks_all [OF n(2)] by simp
  then have "found get D vec (alive ?ti (concat (map (\<lambda>i. vind (?ix ! i)) [0..<treeCount f]))) =
      found get D vec (alive ?ti [0..<?n])"
    by (simp only: found_def alive_def mset_map mset_filter)
  with rs' show ?thesis by (simp add: forest_findNeighbors_def)
qed

end

text \<open>What both searches return, for the alive points.\<close>

definition alive_candidates :: "data_source \<Rightarrow> nat \<Rightarrow> real list \<Rightarrow> forest_spec \<Rightarrow> (real \<times> nat) multiset" where
  "alive_candidates get ndim vec s =
     mset (map (\<lambda>p. (L2_Simple_evalMetric get vec p ndim, p)) (filter (\<lambda>p. p \<in> snd s) [0..<fst s]))"

lemma alive_candidates_abs:
  "image_mset (\<lambda>p. (L2_Simple_evalMetric get vec p D, p)) (mset (alive (treeIndex f) [0..<pointCount f])) =
     alive_candidates get D vec (forest_abs f)"
proof -
  have "alive (treeIndex f) [0..<pointCount f] = filter (\<lambda>p. p \<in> snd (forest_abs f)) [0..<fst (forest_abs f)]"
    unfolding alive_def by (rule filter_cong) (auto simp: forest_abs_def)
  then show ?thesis by (simp add: alive_candidates_def)
qed

lemma forest_knn:
  assumes "forest_ok get D L f" "0 < cap" "\<And>p. p < pointCount f \<Longrightarrow> L2_Simple_evalMetric get vec p D < mx"
  shows "\<exists>rs. forest_findNeighbors KNN_ops L2_Simple get f (knn_init mx (replicate cap 0) (replicate cap 0) (KNNResultSet cap)) vec 0 =
       Inr (knn_full rs, rs) \<and> nearest cap (alive_candidates get D vec (forest_abs f)) (knn_entries rs)"
  using knn_search.forest_findNeighbors_holds [OF assms(1) knn_init_holds [OF assms(2)] assms(3)]
  by (auto simp: knn_search.found_def alive_candidates_abs knn_holds_def KNN_ops_def)

lemma forest_radius:
  assumes "forest_ok get D L f"
  shows "\<exists>rs. forest_findNeighbors Radius_ops L2_Simple get f (RadiusResultSet r items) vec 0 = Inr (True, rs) \<and>
     set (m_indices_dists rs) = {(p, L2_Simple_evalMetric get vec p D) |p. p \<in> snd (forest_abs f) \<and> L2_Simple_evalMetric get vec p D < r}"
proof -
  have "radius_holds r {#} (RadiusResultSet r items)" by (simp add: radius_holds_def RadiusResultSet_def)
  from radius_search.forest_findNeighbors_holds [OF assms this] obtain rs where
    f: "forest_findNeighbors Radius_ops L2_Simple get f (RadiusResultSet r items) vec 0 = Inr (True, rs)"
    and m: "image_mset prod.swap (mset (m_indices_dists rs)) =
      filter_mset (\<lambda>x. fst x < r) (alive_candidates get D vec (forest_abs f))"
    by (auto simp: radius_search.found_def alive_candidates_abs radius_holds_def Radius_ops_def radius_full_def)
  have "prod.swap ` set (m_indices_dists rs) = {(L2_Simple_evalMetric get vec p D, p) |p. p \<in> snd (forest_abs f) \<and> L2_Simple_evalMetric get vec p D < r}"
    using arg_cong [OF m, of set_mset] by (auto simp: alive_candidates_def forest_abs_def)
  then have "prod.swap ` prod.swap ` set (m_indices_dists rs) =
      prod.swap ` {(L2_Simple_evalMetric get vec p D, p) |p. p \<in> snd (forest_abs f) \<and> L2_Simple_evalMetric get vec p D < r}"
    by (simp only:)
  then have "set (m_indices_dists rs) =
      prod.swap ` {(L2_Simple_evalMetric get vec p D, p) |p. p \<in> snd (forest_abs f) \<and> L2_Simple_evalMetric get vec p D < r}"
    by (simp add: image_image)
  then have "set (m_indices_dists rs) = {(p, L2_Simple_evalMetric get vec p D) |p. p \<in> snd (forest_abs f) \<and> L2_Simple_evalMetric get vec p D < r}"
    by (auto simp: image_iff)
  with f show ?thesis by blast
qed

text \<open>A tree of a forest can only be assigned while it is empty.\<close>

lemma assign_from_forest:
  assumes "forest_ok get D L f" "i < treeCount f"
  shows "dyn_assign shared (t, ti) (df_index f ! i, treeIndex f) = Inl Undefined \<longleftrightarrow> odd (pointCount f div 2 ^ i)"
proof -
  have "trees_ok get D L (pointCount f) (df_index f)" "i < length (df_index f)" using assms by (simp_all add: forest_ok_def)
  note T = trees_okD [OF this]
  have "vind (df_index f ! i) = [] \<longleftrightarrow> \<not> odd (pointCount f div 2 ^ i)"
    using T(5) by (auto simp: block_def simp flip: set_empty)
  moreover have "root_node (df_index f ! i) \<noteq> None \<longleftrightarrow> vind (df_index f ! i) \<noteq> []"
    using T(3) by (auto simp: dyn_tree_ok_def)
  ultimately show ?thesis by (auto simp: dyn_assign_def)
qed

text \<open>A full forest: one more point needs a tree that does not exist.\<close>

lemma add_point_beyond:
  assumes "forest_ok get D L f" "Suc (pointCount f) = 2 ^ treeCount f"
  shows "add_point get idx f = Inl Undefined"
proof -
  have "\<not> First0Bit (pointCount f) < treeCount f"
    using assms First0Bit_less_iff [of "pointCount f" "treeCount f"] by (simp add: forest_ok_def)
  then show ?thesis using assms(1) by (simp add: add_point_def forest_ok_def)
qed

subsection \<open>Properties\<close>

text \<open>
  C38: the dynamic index refines a set of points. After its construction over \<open>n\<close> points and any
  sequence of additions and removals within its capacity, every call having returned, the
  k-nearest search over all trees of the forest returns the nearest of the points that the
  abstract history says are alive, sorted by distance.
\<close>

theorem dynamic_index_exact:
  fixes n :: nat and qs :: "forest_op list"
  defines "s \<equiv> fold spec_op ((if n = 0 then [] else [Add (n - 1)]) @ qs) (0, {})"
  assumes "0 < L" "0 < max_points" "fst s < 2 ^ (floorlog 2 max_points - 1)" "fst s < 2 ^ 61" "0 < cap"
    and "\<And>p. p < fst s \<Longrightarrow> L2_Simple_evalMetric get vec p 3 < mx"
  shows "\<exists>f rs. bindE (KDTreeSingleIndexDynamicAdaptor 3 dimensionality get n L max_points) (foldE (run_op get) qs) = Inr f \<and>
     pointCount f = fst s \<and>
     forest_findNeighbors KNN_ops L2_Simple get f (knn_init mx (replicate cap 0) (replicate cap 0) (KNNResultSet cap)) vec 0 =
       Inr (knn_full rs, rs) \<and>
     nearest cap (alive_candidates get 3 vec s) (knn_entries rs)"
proof -
  let ?f = "empty_forest 3 dimensionality L (floorlog 2 max_points - 1)"
  let ?qs = "(if n = 0 then [] else [Add (n - 1)]) @ qs"
  have e: "forest_ok get 3 L ?f" using empty_forest_ok(1) [of get 3] by simp
  have L: "1 \<le> L" using assms(2) by simp
  have "fst (fold spec_op ?qs (forest_abs ?f)) < min (2 ^ treeCount ?f) (2 ^ 61)"
    using assms(4,5) by (simp add: empty_forest_ok(3,4) s_def)
  from run_ops_ok [OF e empty_forest_ok(2) L _ this] obtain f where
    f: "foldE (run_op get) ?qs ?f = Inr f" "forest_ok get 3 L f" "forest_abs f = s"
    by (auto simp: empty_forest_ok(3) s_def)
  have "bindE (KDTreeSingleIndexDynamicAdaptor 3 dimensionality get n L max_points) (foldE (run_op get) qs) = Inr f"
    unfolding constructor_eq [OF assms(3)] foldE_append [symmetric] by (rule f(1))
  moreover have "pointCount f = fst s" unfolding f(3) [symmetric] by (simp add: forest_abs_def)
  ultimately show ?thesis using forest_knn [OF f(2) assms(6), of vec mx] assms(7) f(3) by auto
qed

theorem dynamic_index_exact_witness:
  "\<exists>f rs. bindE (KDTreeSingleIndexDynamicAdaptor 3 3 (\<lambda>p d. 0) 2 10 1000) (foldE (run_op (\<lambda>p d. 0)) [Remove 0, Add 3]) = Inr f \<and>
     forest_findNeighbors KNN_ops L2_Simple (\<lambda>p d. 0) f (knn_init 9 (replicate 2 0) (replicate 2 0) (KNNResultSet 2)) [0, 0, 0] 0 =
       Inr (knn_full rs, rs)"
proof -
  have "fst (fold spec_op ((if (2::nat) = 0 then [] else [Add (2 - 1)]) @ [Remove 0, Add 3]) (0, {})) = 6"
    by (simp add: spec_op.simps spec_remove_def case_prod_unfold del: funpow.simps)
  moreover have "(2::nat) ^ 9 \<le> 2 ^ (floorlog 2 1000 - 1)"
    using floorlog_geI [of 2 10 1000] by (intro power_increasing) auto
  moreover have "L2_Simple_evalMetric (\<lambda>p d. 0) [0, 0, 0] p 3 < 9" for p
    by (simp add: L2_Simple_evalMetric_sum numeral_3_eq_3)
  ultimately show ?thesis
    using dynamic_index_exact [of 10 1000 2 "[Remove 0, Add 3]" 2 "\<lambda>p d. 0" "[0, 0, 0]" 9 3] by force
qed

text \<open>
  C39: a removed point comes back. Where the trees that hold it are merged by the next addition,
  a point that \<open>removePoint\<close> has removed, and that the searches then no longer return, is found
  again after one more point was added.
\<close>

theorem removed_point_returns:
  assumes "forest_ok get D L f" "forest_full f" "0 < L" "0 < D"
    and "Suc (pointCount f) < 2 ^ treeCount f" "Suc (pointCount f) < 2 ^ 61"
    and "p < pointCount f" "block_start (pointCount f) (First0Bit (pointCount f)) \<le> p"
    and "L2_Simple_evalMetric get vec p D < r"
  shows "\<exists>f1 f2 rs1 rs2. removePoint p f = Inr f1 \<and>
     forest_findNeighbors Radius_ops L2_Simple get f1 (RadiusResultSet r []) vec 0 = Inr (True, rs1) \<and>
     p \<notin> fst ` set (m_indices_dists rs1) \<and>
     addPoints get (pointCount f) (pointCount f) f1 = Inr f2 \<and>
     forest_findNeighbors Radius_ops L2_Simple get f2 (RadiusResultSet r []) vec 0 = Inr (True, rs2) \<and>
     p \<in> fst ` set (m_indices_dists rs2)"
proof -
  let ?n = "pointCount f"
  from removePoint_ok [OF assms(1), of p] obtain f1 where f1: "removePoint p f = Inr f1" "forest_ok get D L f1"
    "forest_abs f1 = spec_remove p (forest_abs f)" "treeCount f1 = treeCount f" "length (treeIndex f1) = length (treeIndex f)" by blast
  then have n: "pointCount f1 = ?n" by (simp add: forest_abs_def spec_remove_def)
  then have full: "forest_full f1" using f1(5) assms(2) by (simp add: forest_full_def)
  have L: "1 \<le> L" using assms(3) by simp
  from addPoints_ok [OF f1(2) full L assms(4), of 0] n f1(4) assms(5,6) obtain f2 where
    f2: "addPoints get ?n ?n f1 = Inr f2" "forest_ok get D L f2" "forest_abs f2 = spec_add (forest_abs f1)" by auto
  have gone: "p \<notin> snd (forest_abs f1)" unfolding f1(3) by (simp add: spec_remove_def case_prod_unfold)
  have again: "p \<in> snd (forest_abs f2)" using assms(7,8) n by (simp add: f2(3) spec_add_def forest_abs_def [of f1])
  from forest_radius [OF f1(2)] obtain rs1 where
    rs1: "forest_findNeighbors Radius_ops L2_Simple get f1 (RadiusResultSet r []) vec 0 = Inr (True, rs1)"
    "set (m_indices_dists rs1) = {(p, L2_Simple_evalMetric get vec p D) |p. p \<in> snd (forest_abs f1) \<and> L2_Simple_evalMetric get vec p D < r}" by blast
  then have lost: "p \<notin> fst ` set (m_indices_dists rs1)" using gone by auto
  from forest_radius [OF f2(2)] obtain rs2 where
    rs2: "forest_findNeighbors Radius_ops L2_Simple get f2 (RadiusResultSet r []) vec 0 = Inr (True, rs2)"
    "set (m_indices_dists rs2) = {(p, L2_Simple_evalMetric get vec p D) |p. p \<in> snd (forest_abs f2) \<and> L2_Simple_evalMetric get vec p D < r}" by blast
  have "(p, L2_Simple_evalMetric get vec p D) \<in> set (m_indices_dists rs2)" using rs2(2) again assms(9) by blast
  then have "p \<in> fst ` set (m_indices_dists rs2)" by force
  with f1(1) rs1(1) lost f2(1) rs2(1) show ?thesis by blast
qed

theorem removed_point_returns_witness:
  "\<exists>f f1 f2 rs1 rs2. KDTreeSingleIndexDynamicAdaptor 3 3 (\<lambda>p d. 0) 1 10 1000 = Inr f \<and> removePoint 0 f = Inr f1 \<and>
     forest_findNeighbors Radius_ops L2_Simple (\<lambda>p d. 0) f1 (RadiusResultSet 9 []) [0, 0, 0] 0 = Inr (True, rs1) \<and>
     0 \<notin> fst ` set (m_indices_dists rs1) \<and> addPoints (\<lambda>p d. 0) 1 1 f1 = Inr f2 \<and>
     forest_findNeighbors Radius_ops L2_Simple (\<lambda>p d. 0) f2 (RadiusResultSet 9 []) [0, 0, 0] 0 = Inr (True, rs2) \<and>
     0 \<in> fst ` set (m_indices_dists rs2)"
proof -
  let ?g = "\<lambda>p d. 0 :: real" and ?e = "empty_forest 3 3 10 (floorlog 2 1000 - 1)"
  have room: "(2::nat) ^ 9 \<le> 2 ^ (floorlog 2 1000 - 1)"
    using floorlog_geI [of 2 10 1000] by (intro power_increasing) auto
  have e: "forest_ok ?g 3 10 ?e" using empty_forest_ok(1) [of ?g 3] by simp
  have "fst (fold spec_op [Add 0] (forest_abs ?e)) < min (2 ^ treeCount ?e) (2 ^ 61)"
    using room by (simp add: empty_forest_ok(3,4) spec_op.simps spec_add_def)
  from run_ops_ok [OF e empty_forest_ok(2) _ _ this] obtain f where
    f: "foldE (run_op ?g) [Add 0] ?e = Inr f" "forest_ok ?g 3 10 f" "forest_full f"
      "forest_abs f = spec_op (Add 0) (0, {})" "treeCount f = floorlog 2 1000 - 1"
    by (auto simp: empty_forest_ok(3,4))
  have n: "pointCount f = 1" using arg_cong [OF f(4), of fst] by (simp add: forest_abs_def spec_op.simps spec_add_def)
  have c: "KDTreeSingleIndexDynamicAdaptor 3 3 ?g 1 10 1000 = Inr f" using f(1) by (simp add: constructor_eq)
  have b: "block_start 1 (First0Bit 1) \<le> 0" using First0Bit_odd [of 1 0] by (simp add: block_start_def First0Bit_even)
  have d: "L2_Simple_evalMetric ?g [0, 0, 0] 0 3 < 9" by (simp add: L2_Simple_evalMetric_sum numeral_3_eq_3)
  have "Suc 1 < (2::nat) ^ 9" by simp
  then have "Suc 1 < (2::nat) ^ (floorlog 2 1000 - 1)" using room by linarith
  with removed_point_returns [OF f(2,3), of 0 "[0, 0, 0]" 9] n c b d f(5) show ?thesis by auto
qed

text \<open>
  C40: the capacity. A forest made for at most \<open>max_points\<close> points holds only fewer than
  \<open>2 ^ \<lfloor>log2 max_points\<rfloor>\<close>: constructing it over fewer points succeeds and stores them all, over as
  many or more, which includes \<open>max_points\<close> itself, it accesses a tree that does not exist.
\<close>

theorem capacity_below_maximum:
  assumes "0 < max_points" "0 < L" "n < 2 ^ 61"
  defines "room \<equiv> 2 ^ (floorlog 2 max_points - 1)"
  shows "room \<le> max_points \<and>
     (if n < room then \<exists>f. KDTreeSingleIndexDynamicAdaptor 3 dimensionality get n L max_points = Inr f \<and>
                         pointCount f = n \<and> forest_ok get 3 L f
      else KDTreeSingleIndexDynamicAdaptor 3 dimensionality get n L max_points = Inl Undefined)"
proof (intro conjI)
  show "room \<le> max_points" using floorlog_bounds [of max_points 2] assms(1) by (simp add: room_def)
  let ?f = "empty_forest 3 dimensionality L (floorlog 2 max_points - 1)"
  have e: "forest_ok get 3 L ?f" using empty_forest_ok(1) [of get 3] by simp
  have L: "1 \<le> L" using assms(2) by simp
  show "if n < room then \<exists>f. KDTreeSingleIndexDynamicAdaptor 3 dimensionality get n L max_points = Inr f \<and> pointCount f = n \<and> forest_ok get 3 L f
      else KDTreeSingleIndexDynamicAdaptor 3 dimensionality get n L max_points = Inl Undefined"
  proof (cases "n < room")
    case True
    let ?qs = "if n = 0 then [] else [Add (n - 1)]"
    have s: "fst (fold spec_op ?qs (0, {})) = n" by (simp add: spec_op.simps del: funpow.simps)
    then have "fst (fold spec_op ?qs (forest_abs ?f)) < min (2 ^ treeCount ?f) (2 ^ 61)"
      using True assms(3) by (simp only: empty_forest_ok(3,4) room_def [symmetric] min_less_iff_conj simp_thms)
    from run_ops_ok [OF e empty_forest_ok(2) L _ this] obtain f where
      f: "foldE (run_op get) ?qs ?f = Inr f" "forest_ok get 3 L f" "forest_abs f = fold spec_op ?qs (0, {})"
      by (auto simp: empty_forest_ok(3))
    have "pointCount f = fst (forest_abs f)" by (simp add: forest_abs_def)
    then have "pointCount f = n" by (simp only: f(3) s)
    then show ?thesis using True f(1,2) by (simp add: constructor_eq [OF assms(1)])
  next
    case False
    define tc where "tc = floorlog 2 max_points - 1"
    define g where "g = empty_forest 3 dimensionality L tc\<lparr>treeIndex := replicate n 0\<rparr>"
    obtain k where k: "Suc k = room" by (cases room) (simp_all add: room_def)
    then have tc: "Suc k = 2 ^ tc" "k < n" using False by (simp_all add: room_def tc_def)
    have g: "forest_ok get 3 L g" "pointCount g = 0" "treeCount g = tc" "length (treeIndex g) = n" using e
      by (auto simp: forest_ok_def empty_forest_def forest_init_def g_def tc_def)
    have "pointCount g + k < 2 ^ treeCount g" "pointCount g + k \<le> length (treeIndex g)" using g tc by auto
    from add_loop_ok [OF g(1) L _ this] obtain f where
      f: "foldE (add_point get) [0..<k] g = Inr f" "forest_ok get 3 L f" "forest_abs f = (spec_add ^^ k) (forest_abs g)" "treeCount f = tc"
      by (auto simp: g)
    have "pointCount f = fst (forest_abs f)" by (simp add: forest_abs_def)
    also have "\<dots> = k" by (simp only: f(3) spec_add_fst) (simp add: forest_abs_def g(2))
    finally have "add_point get k f = Inl Undefined" using tc f(4) by (intro add_point_beyond [OF f(2)]) simp
    moreover have "[0..<n] = [0..<k] @ k # [Suc k..<n]"
      using tc(2) upt_add_eq_append [of 0 k "n - k"] by (simp add: upt_conv_Cons)
    ultimately have loop: "foldE (add_point get) [0..<n] g = Inl Undefined" using f(1) by (simp add: foldE_append)
    have n0: "0 < n" using tc(2) by simp
    have "unat (of_nat n :: 64 word) = n" using assms(3) by (simp add: unat_of_nat take_bit_nat_eq_self)
    moreover have "(of_nat (n - 1) - of_nat 0 + 1 :: 64 word) = of_nat n" using n0 by (cases n) simp_all
    moreover have "treeIndex ?f = []" by (simp add: empty_forest_def forest_init_def)
    moreover have "Suc (n - 1) = n" using n0 by simp
    ultimately have "addPoints get 0 (n - 1) ?f = foldE (add_point get) [0..<n] g"
      unfolding addPoints_def Let_def g_def tc_def using assms(3) by simp
    then show ?thesis using loop False n0 assms(1) by (simp add: constructor_eq) (simp add: empty_forest_def forest_init_def)
  qed
qed

theorem capacity_below_maximum_witness:
  "KDTreeSingleIndexDynamicAdaptor 3 3 (\<lambda>p d. 0) 5 10 5 = Inl Undefined"
proof -
  have "\<not> 5 < (2::nat) ^ (floorlog 2 5 - 1)" using floorlog_bounds [of 5 2] by simp
  with capacity_below_maximum [of 5 10 5 3 "\<lambda>p d. 0"] show ?thesis by simp
qed

end
