(* ===== verification/HT_Text.thy ===== *)
theory HT_Text
  imports MN_Prelude
begin

text \<open>
  What the HTTP library of the gateway poller (src/libs/httplib.h) uses of C strings,
  \<open>std::stoi\<close> and \<open>std::regex\<close>.

  \<^item> A C string ends at its first NUL byte.
  \<^item> \<open>stoi\<close> reads blanks, a sign, for base 16 an optional \<open>0x\<close>, and the
    longest run of digits; it ignores what follows, throws \<open>invalid_argument\<close> without
    a digit and \<open>out_of_range\<close> outside of \<open>int\<close>.
  \<^item> \<open>rx\<close> holds the regular expressions of the library; every repetition in them
    repeats one class of characters. \<open>rx_run\<close> is the backtracking matcher of the
    ECMAScript grammar: it tries the alternatives in order, a lazy repetition from the
    shortest and a greedy one from the longest, and hands the captures and the rest of the
    input to a continuation. \<open>regex_match\<close> demands the whole input.
\<close>

subsection \<open>Characters and C strings\<close>

abbreviation CR :: char where "CR \<equiv> CHR 0x0D"
abbreviation LF :: char where "LF \<equiv> CHR 0x0A"
abbreviation NUL :: char where "NUL \<equiv> CHR 0x00"
abbreviation crlf :: string where "crlf \<equiv> [CR, LF]"

definition c_str :: "string \<Rightarrow> string" where
  "c_str s = takeWhile (\<lambda>c. c \<noteq> NUL) s"

lemma c_str_id [simp]: "NUL \<notin> set s \<Longrightarrow> c_str s = s"
  unfolding c_str_def by (rule takeWhile_eq_all_conv [THEN iffD2]) auto

lemma c_str_idem [simp]: "c_str (c_str s) = c_str s"
  by (simp add: c_str_def)

lemma NUL_notin_c_str [simp]: "NUL \<notin> set (c_str s)"
  by (auto simp: c_str_def dest: set_takeWhileD)

text \<open>Reading a \<open>char\<close> array as a string without a NUL in it leaves the array.\<close>

definition array_str :: "string \<Rightarrow> string result" where
  "array_str a = (if NUL \<in> set a then Inr (c_str a) else Inl Undefined)"

definition isspace :: "char \<Rightarrow> bool" where
  "isspace c = (c = CHR '' '' \<or> (9 \<le> (of_char c :: nat) \<and> (of_char c :: nat) \<le> 13))"

definition isdigit :: "char \<Rightarrow> bool" where
  "isdigit c = (48 \<le> (of_char c :: nat) \<and> (of_char c :: nat) \<le> 57)"

definition dot :: "char \<Rightarrow> bool" where
  "dot c = (c \<noteq> LF \<and> c \<noteq> CR)"

lemma isspace_simps [simp]:
  "isspace CR" "isspace LF" "isspace (CHR '' '')" "\<not> isspace (CHR '':'')"
  by (simp_all add: isspace_def)

lemma dot_simps [simp]: "\<not> dot CR" "\<not> dot LF"
  by (simp_all add: dot_def)

text \<open>Folding the case of a letter sets one bit.\<close>

lemma tolower_Char [code]:
  "tolower (Char b0 b1 b2 b3 b4 b5 b6 b7) =
    (if 65 \<le> (of_char (Char b0 b1 b2 b3 b4 b5 b6 b7) :: nat) \<and> (of_char (Char b0 b1 b2 b3 b4 b5 b6 b7) :: nat) \<le> 90
     then Char b0 b1 b2 b3 b4 True b6 b7 else Char b0 b1 b2 b3 b4 b5 b6 b7)"
proof -
  have "(of_char (Char b0 b1 b2 b3 b4 True b6 b7) :: nat) = of_char (Char b0 b1 b2 b3 b4 b5 b6 b7) + 32"
    if "65 \<le> (of_char (Char b0 b1 b2 b3 b4 b5 b6 b7) :: nat)" "(of_char (Char b0 b1 b2 b3 b4 b5 b6 b7) :: nat) \<le> 90"
    using that by (cases b5; cases b6; cases b7; cases b4) (simp_all add: of_bool_def split: if_splits)
  then show ?thesis
    by (auto simp: tolower_def simp del: of_char_Char) (metis char_of_char)
qed

definition strcasecmp_eq :: "string \<Rightarrow> string \<Rightarrow> bool" where
  "strcasecmp_eq s t = (map tolower (c_str s) = map tolower (c_str t))"

subsection \<open>Numbers\<close>

definition digit_val :: "nat \<Rightarrow> char \<Rightarrow> nat option" where
  "digit_val base c = (let k = (of_char c :: nat); v =
      (if 48 \<le> k \<and> k \<le> 57 then k - 48
       else if 97 \<le> k \<and> k \<le> 122 then k - 87
       else if 65 \<le> k \<and> k \<le> 90 then k - 55 else base)
    in if v < base then Some v else None)"

definition digits_value :: "nat \<Rightarrow> string \<Rightarrow> nat" where
  "digits_value base ds = foldl (\<lambda>v c. base * v + the (digit_val base c)) 0 ds"

definition is_digit_of :: "nat \<Rightarrow> char \<Rightarrow> bool" where
  "is_digit_of base c = (digit_val base c \<noteq> None)"

definition sign_of :: "string \<Rightarrow> bool \<times> string" where
  "sign_of s = (case s of
       [] \<Rightarrow> (False, [])
     | c # r \<Rightarrow> if c = CHR ''-'' then (True, r) else if c = CHR ''+'' then (False, r) else (False, s))"

definition skip_0x :: "nat \<Rightarrow> string \<Rightarrow> string" where
  "skip_0x base s = (case s of
       z # x # c # r \<Rightarrow>
         if base = 16 \<and> z = CHR ''0'' \<and> (x = CHR ''x'' \<or> x = CHR ''X'') \<and> is_digit_of 16 c
         then c # r else s
     | _ \<Rightarrow> s)"

definition stoi :: "nat \<Rightarrow> string \<Rightarrow> int result" where
  "stoi base s =
    (let (neg, t) = sign_of (dropWhile isspace (c_str s));
         ds = takeWhile (is_digit_of base) (skip_0x base t);
         v = (if neg then - int (digits_value base ds) else int (digits_value base ds))
     in if ds = [] then Inl (Throws Invalid_argument)
        else if - (2 ^ 31) \<le> v \<and> v < 2 ^ 31 then Inr v
        else Inl (Throws Out_of_range))"

subsection \<open>Regular expressions\<close>

datatype rx =
    Empty
  | One "char \<Rightarrow> bool"
  | Rep bool nat "char \<Rightarrow> bool"
  | Cat rx rx
  | Alt rx rx
  | Opt rx
  | Group nat rx

type_synonym captures = "(nat \<times> string) list"

text \<open>\<open>Rep lazy m P\<close> is a repetition of at least \<open>m\<close> characters of the class \<open>P\<close>.\<close>

fun lit :: "string \<Rightarrow> rx" where
  "lit [] = Empty"
| "lit (c # cs) = Cat (One (\<lambda>x. x = c)) (lit cs)"

fun first_some :: "('a \<Rightarrow> 'b option) \<Rightarrow> 'a list \<Rightarrow> 'b option" where
  "first_some f [] = None"
| "first_some f (x # xs) = (case f x of None \<Rightarrow> first_some f xs | Some y \<Rightarrow> Some y)"

primrec rx_run :: "rx \<Rightarrow> string \<Rightarrow> (captures \<Rightarrow> string \<Rightarrow> 'b option) \<Rightarrow> 'b option" where
  "rx_run Empty s k = k [] s"
| "rx_run (One P) s k = (case s of [] \<Rightarrow> None | c # r \<Rightarrow> if P c then k [] r else None)"
| "rx_run (Rep lazy m P) s k =
    (let ks = [m ..< Suc (length (takeWhile P s))]
     in first_some (\<lambda>i. k [] (drop i s)) (if lazy then ks else rev ks))"
| "rx_run (Cat p q) s k = rx_run p s (\<lambda>cs r. rx_run q r (\<lambda>ds. k (cs @ ds)))"
| "rx_run (Alt p q) s k = (case rx_run p s k of None \<Rightarrow> rx_run q s k | Some y \<Rightarrow> Some y)"
| "rx_run (Opt p) s k = (case rx_run p s k of None \<Rightarrow> k [] s | Some y \<Rightarrow> Some y)"
| "rx_run (Group n p) s k =
    rx_run p s (\<lambda>cs r. k ((n, take (length s - length r) s) # cs) r)"

definition regex_match :: "rx \<Rightarrow> string \<Rightarrow> captures option" where
  "regex_match r s = rx_run r s (\<lambda>cs rest. if rest = [] then Some cs else None)"

text \<open>\<open>m[n]\<close>: the text of a group, empty when the group took no part in the match.\<close>

definition sub_match :: "captures \<Rightarrow> nat \<Rightarrow> string" where
  "sub_match m n = (case map_of m n of None \<Rightarrow> [] | Some t \<Rightarrow> t)"

subsection \<open>Facts about the matcher\<close>

lemma first_some_append:
  "first_some f (xs @ ys) = (case first_some f xs of None \<Rightarrow> first_some f ys | Some y \<Rightarrow> Some y)"
  by (induction xs) (auto split: option.splits)

lemma first_some_None: "first_some f xs = None \<longleftrightarrow> (\<forall>x \<in> set xs. f x = None)"
  by (induction xs) (auto split: option.splits)

lemma first_some_SomeD: "first_some f xs = Some y \<Longrightarrow> \<exists>x \<in> set xs. f x = Some y"
  by (induction xs) (auto split: option.splits)

lemma rx_run_lit [simp]: "rx_run (lit p) (p @ s) k = k [] s"
  by (induction p arbitrary: k) auto

lemma rx_run_lit_None: "\<not> is_prefix p s \<Longrightarrow> rx_run (lit p) s k = None"
proof (induction p arbitrary: s k)
  case (Cons c cs)
  then show ?case by (cases s) auto
qed simp

lemma rx_run_lit_iff:
  "rx_run (lit p) s k = (if is_prefix p s then k [] (drop (length p) s) else None)"
proof (cases "is_prefix p s")
  case True
  then obtain r where "s = p @ r" by (auto simp: is_prefix_iff)
  then show ?thesis by simp
qed (simp add: rx_run_lit_None)

lemma rx_run_lit1: "rx_run (lit [c]) (d # t) K = (if d = c then K [] t else None)"
  by (simp add: lit.simps)

lemma rx_run_lit_all [simp]: "rx_run (lit p) p k = k [] []"
  using rx_run_lit [of p "[]" k] by simp

lemma rx_run_lit1_None: "t = [] \<or> t ! 0 \<noteq> c \<Longrightarrow> rx_run (lit [c]) t K = None"
  by (cases t) (auto simp: lit.simps)

declare lit.simps [simp del] rx_run.simps(3) [simp del]

text \<open>A lazy repetition stops at the first length that lets the rest match, a greedy one at
  the last.\<close>

lemma rx_run_lazy:
  assumes "m \<le> n" "n \<le> length (takeWhile P s)"
    and "\<And>i. m \<le> i \<Longrightarrow> i < n \<Longrightarrow> k [] (drop i s) = None"
    and "k [] (drop n s) = Some y"
  shows "rx_run (Rep True m P) s k = Some y"
proof -
  let ?f = "\<lambda>i. k [] (drop i s)"
  have "[m ..< Suc (length (takeWhile P s))] = [m ..< n] @ n # [Suc n ..< Suc (length (takeWhile P s))]"
  proof -
    have "[m ..< Suc (length (takeWhile P s))] = [m ..< n] @ [n ..< Suc (length (takeWhile P s))]"
      using assms(1,2) upt_add_eq_append [of m n "Suc (length (takeWhile P s)) - n"] by simp
    also have "[n ..< Suc (length (takeWhile P s))] = n # [Suc n ..< Suc (length (takeWhile P s))]"
      using assms(2) by (intro upt_conv_Cons) simp
    finally show ?thesis .
  qed
  moreover have "first_some ?f [m ..< n] = None"
    using assms(3) by (auto simp: first_some_None)
  ultimately show ?thesis
    using assms(4) by (simp add: rx_run.simps(3) Let_def first_some_append del: upt_Suc)
qed

lemma rx_run_greedy:
  assumes "m \<le> n" "n \<le> length (takeWhile P s)"
    and "\<And>i. n < i \<Longrightarrow> i \<le> length (takeWhile P s) \<Longrightarrow> k [] (drop i s) = None"
    and "k [] (drop n s) = Some y"
  shows "rx_run (Rep False m P) s k = Some y"
proof -
  let ?f = "\<lambda>i. k [] (drop i s)" and ?L = "length (takeWhile P s)"
  have "[m ..< Suc ?L] = [m ..< n] @ n # [Suc n ..< Suc ?L]"
  proof -
    have "[m ..< Suc ?L] = [m ..< n] @ [n ..< Suc ?L]"
      using assms(1,2) upt_add_eq_append [of m n "Suc ?L - n"] by simp
    also have "[n ..< Suc ?L] = n # [Suc n ..< Suc ?L]"
      using assms(2) by (intro upt_conv_Cons) simp
    finally show ?thesis .
  qed
  moreover have "first_some ?f (rev [Suc n ..< Suc ?L]) = None"
    using assms(3) by (auto simp: first_some_None)
  ultimately show ?thesis
    using assms(4) by (simp add: rx_run.simps(3) Let_def first_some_append del: upt_Suc)
qed

lemma rx_run_rep_None:
  assumes "\<And>i. m \<le> i \<Longrightarrow> i \<le> length (takeWhile P s) \<Longrightarrow> k [] (drop i s) = None"
  shows "rx_run (Rep lazy m P) s k = None"
  using assms by (auto simp: rx_run.simps(3) Let_def first_some_None less_Suc_eq_le simp del: upt_Suc)

text \<open>The text of the groups is cut out of the input.\<close>

lemma take_cut [simp]: "take (length s - length (drop i s)) s = take i s"
  by (cases "i \<le> length s") auto

lemma takeWhile_append_stop [simp]:
  "(\<And>x. x \<in> set xs \<Longrightarrow> P x) \<Longrightarrow> \<not> P y \<Longrightarrow> takeWhile P (xs @ y # ys) = xs"
  by (induction xs) auto

lemma takeWhile_neq_append [simp]: "c \<notin> set xs \<Longrightarrow> takeWhile (\<lambda>x. x \<noteq> c) (xs @ c # ys) = xs"
  by (induction xs) auto

lemma dropWhile_neq_append [simp]: "c \<notin> set xs \<Longrightarrow> dropWhile (\<lambda>x. x \<noteq> c) (xs @ c # ys) = c # ys"
  by (induction xs) auto

subsection \<open>Facts about numbers\<close>

lemma digit_chars:
  "digit_char 0 = CHR ''0''" "digit_char 1 = CHR ''1''" "digit_char 2 = CHR ''2''" "digit_char 3 = CHR ''3''"
  "digit_char 4 = CHR ''4''" "digit_char 5 = CHR ''5''" "digit_char 6 = CHR ''6''" "digit_char 7 = CHR ''7''"
  "digit_char 8 = CHR ''8''" "digit_char 9 = CHR ''9''"
  by code_simp+

lemma digits_value_snoc:
  "digits_value base (ds @ [c]) = base * digits_value base ds + the (digit_val base c)"
  by (simp add: digits_value_def)

lemma digit_val_digit_char: "d < base \<Longrightarrow> d < 10 \<Longrightarrow> digit_val base (digit_char d) = Some d"
  by (simp add: digit_val_def digit_char_value Let_def)

lemma to_string_is_digits: "c \<in> set (to_string n) \<Longrightarrow> is_digit_of 10 c"
  using to_string_digits [of c n] by (auto simp: is_digit_of_def digit_val_def Let_def)

lemma digits_value_to_string [simp]: "digits_value 10 (to_string n) = n"
proof (induction n rule: to_string.induct)
  case (1 n)
  show ?case
  proof (cases "n < 10")
    case True
    then show ?thesis
      by (simp add: to_string.simps [of n] digits_value_def digit_val_digit_char)
  next
    case False
    with 1 show ?thesis
      by (simp add: to_string.simps [of n] digits_value_snoc digit_val_digit_char)
  qed
qed

lemma to_string_nonempty [simp]: "to_string n \<noteq> []"
  by (subst to_string.simps) simp

lemma digit_not_blank:
  "48 \<le> (of_char c :: nat) \<Longrightarrow> \<not> isspace c \<and> c \<noteq> NUL \<and> c \<noteq> CHR ''-'' \<and> c \<noteq> CHR ''+''"
  by (auto simp: isspace_def)

lemma stoi_digits:
  assumes "ds \<noteq> []" "\<And>c. c \<in> set ds \<Longrightarrow> is_digit_of base c \<and> 48 \<le> (of_char c :: nat)"
    and "skip_0x base (ds @ c_str rest) = ds @ c_str rest"
    and "c_str rest = [] \<or> \<not> is_digit_of base (rest ! 0)"
    and "digits_value base ds < 2 ^ 31"
  shows "stoi base (ds @ rest) = Inr (int (digits_value base ds))"
proof -
  obtain c cs where ds: "ds = c # cs" using assms(1) by (cases ds) auto
  have nul: "NUL \<notin> set ds" using assms(2) digit_not_blank by blast
  have str: "c_str (ds @ rest) = ds @ c_str rest"
    using nul unfolding c_str_def by (subst takeWhile_append2) auto
  have blank: "dropWhile isspace (ds @ c_str rest) = ds @ c_str rest"
    and sign: "sign_of (ds @ c_str rest) = (False, ds @ c_str rest)"
    using assms(2) [of c] digit_not_blank [of c] by (auto simp: ds sign_of_def)
  have "takeWhile (is_digit_of base) (ds @ c_str rest) = ds"
  proof (cases "c_str rest")
    case Nil
    with assms(2) show ?thesis by simp
  next
    case (Cons d ds')
    then have "rest ! 0 = d" by (cases rest) (auto simp: c_str_def split: if_splits)
    with Cons assms(2,4) show ?thesis by simp
  qed
  then show ?thesis
    using assms(1,3,5) by (simp add: stoi_def str blank sign)
qed

lemma stoi_range: "stoi b t = Inr v \<Longrightarrow> - (2 ^ 31) \<le> v \<and> v < 2 ^ 31"
  unfolding stoi_def Let_def by (auto split: prod.splits if_splits)

lemma stoi_to_string [simp]:
  assumes "n < 2 ^ 31"
  shows "stoi 10 (to_string n) = Inr (int n)"
proof -
  have "skip_0x 10 s = s" for s
    by (cases s rule: list.exhaust [of _ ]) (auto simp: skip_0x_def split: list.splits)
  then show ?thesis
    using stoi_digits [of "to_string n" 10 "[]"] assms to_string_is_digits to_string_digits
    by (auto simp: c_str_def)
qed

lemma stoi_not_a_number:
  assumes "c \<noteq> NUL" "s = c # r" "\<not> isspace c" "c \<noteq> CHR ''-''" "c \<noteq> CHR ''+''"
    "\<not> is_digit_of 10 c"
  shows "stoi 10 s = Inl (Throws Invalid_argument)"
proof -
  have "c_str s = c # c_str r" using assms(1,2) by (simp add: c_str_def)
  moreover have "skip_0x 10 t = t" for t by (auto simp: skip_0x_def split: list.splits)
  ultimately show ?thesis using assms by (simp add: stoi_def sign_of_def)
qed

subsection \<open>What an expression matches\<close>

text \<open>
  \<open>rx_in r s cs rest\<close>: reading \<open>r\<close> at the front of \<open>s\<close> may leave \<open>rest\<close> with the groups \<open>cs\<close>,
  whatever the order in which the alternatives are tried. The matcher finds a way to go on
  exactly when there is one.
\<close>

primrec rx_in :: "rx \<Rightarrow> string \<Rightarrow> captures \<Rightarrow> string \<Rightarrow> bool" where
  "rx_in Empty s cs rest \<longleftrightarrow> cs = [] \<and> rest = s"
| "rx_in (One P) s cs rest \<longleftrightarrow> cs = [] \<and> (\<exists>c. P c \<and> s = c # rest)"
| "rx_in (Rep lazy m P) s cs rest \<longleftrightarrow> cs = [] \<and> (\<exists>t. s = t @ rest \<and> m \<le> length t \<and> list_all P t)"
| "rx_in (Cat p q) s cs rest \<longleftrightarrow>
     (\<exists>cs1 mid cs2. rx_in p s cs1 mid \<and> rx_in q mid cs2 rest \<and> cs = cs1 @ cs2)"
| "rx_in (Alt p q) s cs rest \<longleftrightarrow> rx_in p s cs rest \<or> rx_in q s cs rest"
| "rx_in (Opt p) s cs rest \<longleftrightarrow> rx_in p s cs rest \<or> cs = [] \<and> rest = s"
| "rx_in (Group n p) s cs rest \<longleftrightarrow>
     (\<exists>cs'. rx_in p s cs' rest \<and> cs = (n, take (length s - length rest) s) # cs')"

lemma takeWhile_cuts:
  "i \<le> length (takeWhile P s) \<longleftrightarrow> i \<le> length s \<and> list_all P (take i s)"
proof (induction s arbitrary: i)
  case (Cons c s)
  then show ?case by (cases i) auto
qed simp

lemma rx_in_rep:
  "rx_in (Rep lazy m P) s cs rest \<longleftrightarrow>
     cs = [] \<and> (\<exists>i. m \<le> i \<and> i \<le> length (takeWhile P s) \<and> rest = drop i s)"
proof
  assume "rx_in (Rep lazy m P) s cs rest"
  then obtain t where "cs = []" "s = t @ rest" "m \<le> length t" "list_all P t" by auto
  then show "cs = [] \<and> (\<exists>i. m \<le> i \<and> i \<le> length (takeWhile P s) \<and> rest = drop i s)"
    by (intro conjI exI [of _ "length t"]) (simp_all add: takeWhile_cuts)
next
  assume "cs = [] \<and> (\<exists>i. m \<le> i \<and> i \<le> length (takeWhile P s) \<and> rest = drop i s)"
  then obtain i where "cs = []" "m \<le> i" "i \<le> length (takeWhile P s)" "rest = drop i s" by blast
  then show "rx_in (Rep lazy m P) s cs rest"
    by (auto simp: takeWhile_cuts intro!: exI [of _ "take i s"])
qed

lemma rx_run_rep_iff:
  "rx_run (Rep lazy m P) s k = None \<longleftrightarrow>
     (\<forall>i. m \<le> i \<and> i \<le> length (takeWhile P s) \<longrightarrow> k [] (drop i s) = None)"
  by (auto simp: rx_run.simps(3) Let_def first_some_None less_Suc_eq_le simp del: upt_Suc)

lemma rx_run_sound:
  "rx_run r s k = Some y \<Longrightarrow> \<exists>cs rest. rx_in r s cs rest \<and> k cs rest = Some y"
proof (induction r arbitrary: s k)
  case (One P)
  then show ?case by (cases s) (auto split: if_splits)
next
  case (Rep lazy m P)
  then obtain i where "m \<le> i" "i \<le> length (takeWhile P s)" "k [] (drop i s) = Some y"
    by (auto simp: rx_run.simps(3) Let_def less_Suc_eq_le simp del: upt_Suc dest!: first_some_SomeD split: if_splits)
  then show ?case unfolding rx_in_rep by blast
next
  case (Cat p q)
  from Cat.IH(1) [OF Cat.prems [unfolded rx_run.simps]] obtain cs mid where
    p: "rx_in p s cs mid" "rx_run q mid (\<lambda>ds. k (cs @ ds)) = Some y" by blast
  from Cat.IH(2) [OF p(2)] obtain ds rest where "rx_in q mid ds rest" "k (cs @ ds) rest = Some y" by blast
  with p(1) show ?case unfolding rx_in.simps by blast
next
  case (Alt p q)
  from Alt.prems Alt.IH(1) [of s k] Alt.IH(2) [of s k] show ?case
    unfolding rx_run.simps rx_in.simps by (cases "rx_run p s k") auto
next
  case (Opt p)
  from Opt.prems Opt.IH [of s k] show ?case
    unfolding rx_run.simps rx_in.simps by (cases "rx_run p s k") auto
next
  case (Group n p)
  from Group.IH [OF Group.prems [unfolded rx_run.simps]] show ?case unfolding rx_in.simps by blast
qed simp

lemma rx_run_complete:
  "rx_in r s cs rest \<Longrightarrow> k cs rest \<noteq> None \<Longrightarrow> rx_run r s k \<noteq> None"
proof (induction r arbitrary: s cs rest k)
  case (Rep lazy m P)
  from Rep.prems(1) obtain i where i: "cs = []" "m \<le> i" "i \<le> length (takeWhile P s)" "rest = drop i s"
    unfolding rx_in_rep by blast
  have "k [] (drop i s) \<noteq> None" using Rep.prems(2) unfolding i(1,4) .
  with i(2,3) show ?case by (meson rx_run_rep_iff)
next
  case (Cat p q)
  then obtain cs1 mid cs2 where "rx_in p s cs1 mid" "rx_in q mid cs2 rest" "cs = cs1 @ cs2" by auto
  with Cat.IH(1) [of s cs1 mid "\<lambda>cs r. rx_run q r (\<lambda>ds. k (cs @ ds))"] Cat.IH(2) [of mid cs2 rest "\<lambda>ds. k (cs1 @ ds)"]
    Cat.prems(2) show ?case by simp
next
  case (Alt p q)
  from Alt.prems Alt.IH(1) [of s cs rest k] Alt.IH(2) [of s cs rest k] show ?case
    unfolding rx_run.simps rx_in.simps by (cases "rx_run p s k") auto
next
  case (Opt p)
  from Opt.prems Opt.IH [of s cs rest k] show ?case
    unfolding rx_run.simps rx_in.simps by (cases "rx_run p s k") auto
next
  case (Group n p)
  then obtain cs' where "rx_in p s cs' rest" "cs = (n, take (length s - length rest) s) # cs'" by auto
  with Group.IH [of s cs' rest "\<lambda>cs r. k ((n, take (length s - length r) s) # cs) r"] Group.prems(2)
  show ?case by simp
qed auto

lemma regex_matchD: "regex_match r s = Some m \<Longrightarrow> rx_in r s m []"
  unfolding regex_match_def by (drule rx_run_sound) (auto split: if_splits)

text \<open>An expression with one way to match the whole input has that match.\<close>

lemma regex_match_unique:
  assumes "rx_in r s m []" "\<And>m'. rx_in r s m' [] \<Longrightarrow> m' = m"
  shows "regex_match r s = Some m"
  using rx_run_complete [OF assms(1), of "\<lambda>cs rest. if rest = [] then Some cs else None"]
    regex_matchD [of r s] assms(2) by (auto simp: regex_match_def)

lemma rx_in_lit [simp]: "rx_in (lit p) s cs rest \<longleftrightarrow> cs = [] \<and> s = p @ rest"
  by (induction p arbitrary: s cs) (auto simp: lit.simps)

lemma rx_in_cut: "rx_in r s cs rest \<Longrightarrow> \<exists>t. s = t @ rest"
  by (induction r arbitrary: s cs rest) (auto, (metis append_assoc)+)

lemma rx_in_group:
  "rx_in (Group n p) s cs rest \<longleftrightarrow> (\<exists>t cs'. s = t @ rest \<and> cs = (n, t) # cs' \<and> rx_in p s cs' rest)"
  using rx_in_cut [of p s _ rest] by fastforce

lemma rx_in_CatI: "rx_in p s csa mid \<Longrightarrow> rx_in q mid csb rest \<Longrightarrow> cs = csa @ csb \<Longrightarrow> rx_in (Cat p q) s cs rest"
  by auto

lemma rx_in_litI: "rx_in q mid cs rest \<Longrightarrow> s = p @ mid \<Longrightarrow> rx_in (Cat (lit p) q) s cs rest"
  by auto

lemma rx_in_GroupI: "rx_in p s cs' rest \<Longrightarrow> s = t @ rest \<Longrightarrow> rx_in (Group n p) s ((n, t) # cs') rest"
  unfolding rx_in_group by blast

lemma rx_in_RepI: "s = t @ rest \<Longrightarrow> m \<le> length t \<Longrightarrow> list_all P t \<Longrightarrow> rx_in (Rep lazy m P) s [] rest"
  by auto

lemma rx_in_CatE:
  assumes "rx_in (Cat p q) s cs rest"
  obtains csa mid csb where "rx_in p s csa mid" "rx_in q mid csb rest" "cs = csa @ csb"
  using assms by auto

lemma rx_in_GroupE:
  assumes "rx_in (Group n p) s cs rest"
  obtains t cs' where "s = t @ rest" "cs = (n, t) # cs'" "rx_in p s cs' rest"
  using assms unfolding rx_in_group by blast

lemma rx_in_litE:
  assumes "rx_in (Cat (lit p) q) s cs rest"
  obtains mid where "s = p @ mid" "rx_in q mid cs rest"
  using assms by auto

end
