(* ===== verification/HT_Stream.thy ===== *)
theory HT_Stream
  imports HT_Text
begin

text \<open>
  \<open>httplib::Stream\<close>, \<open>detail::stream_line_reader\<close> and the readers of message bodies with and
  without a length (src/libs/httplib.h).

  \<^item> A stream is a table of its virtual functions (\<open>stream_ops\<close>) over a state. \<open>s_read s n\<close> is
    \<open>read(ptr, n)\<close>: the bytes stored at \<open>ptr\<close> (none: the call returned 0), \<open>Failed\<close> for a
    negative result, and no result at all when the call blocks for ever.
  \<^item> The line reader keeps the array it was given, how much of it is used and the growing
    string; \<open>ptr\<close> is the C string it exposes.
  \<^item> The locale \<open>byte_source\<close> states what \<open>recv\<close> promises: some, not necessarily all, of the
    bytes that are still to come, in order. The lemmas proved in it say what the readers
    return in terms of the bytes alone, however they arrive.
  \<^item> \<open>socket_ops\<close> is a socket that delivers given segments and then closes, fails or stays
    silent; \<open>BufferStream\<close> is the string buffer of the library.
\<close>

subsection \<open>Streams\<close>

datatype recv = Received string | Failed

record 's stream_ops =
  s_read :: "'s \<Rightarrow> nat \<Rightarrow> (recv \<times> 's) option"
  s_write :: "'s \<Rightarrow> string \<Rightarrow> int \<times> 's"
  s_remote_addr :: "'s \<Rightarrow> string"

text \<open>A loop that does not end returns nothing; for its caller that is \<open>Diverges\<close>.\<close>

definition loopE :: "'a result option \<Rightarrow> 'a result" where
  "loopE m = (case m of None \<Rightarrow> Inl Diverges | Some r \<Rightarrow> r)"

lemma loopE_simps [simp, outcome_simps]: "loopE None = Inl Diverges" "loopE (Some r) = r"
  by (simp_all add: loopE_def)

subsection \<open>stream_line_reader\<close>

record line_reader =
  fixed_buffer :: string
  fixed_buffer_used_size :: nat
  glowable_buffer :: string

definition stream_line_reader :: "string \<Rightarrow> line_reader" where
  "stream_line_reader buf =
     \<lparr>fixed_buffer = buf, fixed_buffer_used_size = 0, glowable_buffer = []\<rparr>"

text \<open>The arrays are local variables without an initialiser.\<close>

definition uninit :: "nat \<Rightarrow> string" where
  "uninit n = replicate n (CHR ''?'')"

definition line_ptr :: "line_reader \<Rightarrow> string result" where
  "line_ptr r = (if glowable_buffer r = [] then array_str (fixed_buffer r)
                 else Inr (c_str (glowable_buffer r)))"

definition line_append :: "char \<Rightarrow> line_reader \<Rightarrow> line_reader result" where
  "line_append c r =
     (let u = fixed_buffer_used_size r in
      if u < length (fixed_buffer r) - 1
      then Inr (r\<lparr>fixed_buffer := (fixed_buffer r)[u := c, u + 1 := NUL], fixed_buffer_used_size := u + 1\<rparr>)
      else if glowable_buffer r = []
      then (if fixed_buffer r ! u = NUL
            then Inr (r\<lparr>glowable_buffer := take u (fixed_buffer r) @ [c]\<rparr>)
            else Inl (Aborts ''assert''))
      else Inr (r\<lparr>glowable_buffer := glowable_buffer r @ [c]\<rparr>))"

partial_function (option) getline_loop :: "'s stream_ops \<Rightarrow> nat \<Rightarrow> line_reader \<Rightarrow> 's \<Rightarrow>
    ((bool \<times> line_reader) \<times> 's) result option" where
  "getline_loop S i r s =
     (case s_read S s 1 of
        None \<Rightarrow> None
      | Some (v, s') \<Rightarrow>
          (case v of
             Failed \<Rightarrow> Some (Inr ((False, r), s'))
           | Received bs \<Rightarrow>
               (case bs of
                  [] \<Rightarrow> Some (Inr ((i \<noteq> 0, r), s'))
                | byte # _ \<Rightarrow>
                    (case line_append byte r of
                       Inl e \<Rightarrow> Some (Inl e)
                     | Inr r' \<Rightarrow>
                         if byte = LF then Some (Inr ((True, r'), s'))
                         else getline_loop S (i + 1) r' s'))))"

definition getline :: "'s stream_ops \<Rightarrow> line_reader \<Rightarrow> 's \<Rightarrow> ((bool \<times> line_reader) \<times> 's) result" where
  "getline S r s = loopE (getline_loop S 0
     (r\<lparr>fixed_buffer_used_size := 0, glowable_buffer := []\<rparr>) s)"

subsection \<open>Reading a body\<close>

type_synonym progress = "nat \<Rightarrow> nat \<Rightarrow> bool"

text \<open>A progress callback that never asks to stop.\<close>

definition goes_on :: "progress option \<Rightarrow> bool" where
  "goes_on progress \<longleftrightarrow> (\<forall>p. progress = Some p \<longrightarrow> (\<forall>a b. p a b))"

lemma goes_on_None [simp]: "goes_on None"
  by (simp add: goes_on_def)

definition overwrite :: "string \<Rightarrow> nat \<Rightarrow> string \<Rightarrow> string" where
  "overwrite out r bs = take r out @ bs @ drop (r + length bs) out"

partial_function (option) content_loop :: "'s stream_ops \<Rightarrow> nat \<Rightarrow> progress option \<Rightarrow> nat \<Rightarrow>
    string \<Rightarrow> 's \<Rightarrow> ((bool \<times> string) \<times> 's) result option" where
  "content_loop S len progress r out s =
     (if r < len
      then (case s_read S s (len - r) of
              None \<Rightarrow> None
            | Some (v, s') \<Rightarrow>
                (case v of
                   Failed \<Rightarrow> Some (Inr ((False, out), s'))
                 | Received bs \<Rightarrow>
                     (if bs = [] then Some (Inr ((False, out), s'))
                      else (case progress of
                              None \<Rightarrow> content_loop S len progress (r + length bs) (overwrite out r bs) s'
                            | Some p \<Rightarrow>
                                (if p (r + length bs) len
                                 then content_loop S len progress (r + length bs) (overwrite out r bs) s'
                                 else Some (Inr ((False, overwrite out r bs), s')))))))
      else Some (Inr ((True, out), s)))"

text \<open>\<open>std::string::assign\<close> throws beyond \<open>max_size()\<close>.\<close>

definition string_max_size :: nat where "string_max_size = 2 ^ 62 - 1"

definition read_content_with_length :: "'s stream_ops \<Rightarrow> nat \<Rightarrow> progress option \<Rightarrow> 's \<Rightarrow>
    ((bool \<times> string) \<times> 's) result" where
  "read_content_with_length S len progress s =
     (if len > string_max_size then Inl (Throws Length_error)
      else loopE (content_loop S len progress 0 (replicate len NUL) s))"

partial_function (option) until_close_loop :: "'s stream_ops \<Rightarrow> string \<Rightarrow> 's \<Rightarrow>
    ((bool \<times> string) \<times> 's) result option" where
  "until_close_loop S out s =
     (case s_read S s 1 of
        None \<Rightarrow> None
      | Some (v, s') \<Rightarrow>
          (case v of
             Failed \<Rightarrow> Some (Inr ((False, out), s'))
           | Received bs \<Rightarrow>
               (case bs of
                  [] \<Rightarrow> Some (Inr ((True, out), s'))
                | byte # _ \<Rightarrow> until_close_loop S (out @ [byte]) s')))"

definition read_content_without_length :: "'s stream_ops \<Rightarrow> string \<Rightarrow> 's \<Rightarrow>
    ((bool \<times> string) \<times> 's) result" where
  "read_content_without_length S out s = loopE (until_close_loop S out s)"

subsection \<open>The line reader holds the line\<close>

definition lr_text :: "line_reader \<Rightarrow> string" where
  "lr_text r = (if glowable_buffer r = [] then take (fixed_buffer_used_size r) (fixed_buffer r)
                else glowable_buffer r)"

definition lr_ok :: "nat \<Rightarrow> line_reader \<Rightarrow> bool" where
  "lr_ok n r \<longleftrightarrow> length (fixed_buffer r) = n \<and> fixed_buffer_used_size r < n \<and>
     (lr_text r \<noteq> [] \<longrightarrow> fixed_buffer r ! fixed_buffer_used_size r = NUL) \<and>
     (glowable_buffer r \<noteq> [] \<longrightarrow> fixed_buffer_used_size r = n - 1)"

lemma c_str_append_NUL: "c_str (xs @ NUL # ys) = c_str xs"
  by (induction xs) (simp_all add: c_str_def)

lemma line_ptr_text:
  assumes "lr_ok n r" "lr_text r \<noteq> []"
  shows "line_ptr r = Inr (c_str (lr_text r))"
proof (cases "glowable_buffer r = []")
  case True
  let ?u = "fixed_buffer_used_size r" and ?f = "fixed_buffer r"
  have u: "?u < length ?f" "?f ! ?u = NUL" using assms by (auto simp: lr_ok_def)
  then have "?f = take ?u ?f @ NUL # drop (Suc ?u) ?f" by (metis id_take_nth_drop)
  then have "c_str ?f = c_str (take ?u ?f)" by (metis c_str_append_NUL)
  moreover have "NUL \<in> set ?f" using u by (metis nth_mem)
  ultimately show ?thesis using True by (simp add: line_ptr_def array_str_def lr_text_def)
qed (simp add: line_ptr_def lr_text_def)

lemma line_append_ok:
  assumes "lr_ok n r" "1 < n"
  obtains r' where "line_append c r = Inr r'" "lr_ok n r'" "lr_text r' = lr_text r @ [c]"
proof -
  let ?u = "fixed_buffer_used_size r" and ?f = "fixed_buffer r"
  consider (room) "?u < n - 1" | (full) "?u = n - 1" "glowable_buffer r = []"
    | (grown) "?u = n - 1" "glowable_buffer r \<noteq> []"
    using assms(1) by (fastforce simp: lr_ok_def)
  then show thesis
  proof cases
    case room
    then have g: "glowable_buffer r = []" using assms(1) by (auto simp: lr_ok_def)
    have len: "length ?f = n" using assms(1) by (simp add: lr_ok_def)
    have "take (Suc ?u) (?f[?u := c, Suc ?u := NUL]) = take ?u ?f @ [c]"
      using room len by (simp add: take_Suc_conv_app_nth)
    with room g len show thesis
      by (intro that [of "r\<lparr>fixed_buffer := ?f[?u := c, ?u + 1 := NUL], fixed_buffer_used_size := ?u + 1\<rparr>"])
        (auto simp: line_append_def lr_ok_def lr_text_def Let_def)
  next
    case full
    have "lr_text r \<noteq> []" using full assms by (auto simp: lr_text_def lr_ok_def)
    with full assms show thesis
      by (intro that [of "r\<lparr>glowable_buffer := take ?u ?f @ [c]\<rparr>"])
        (auto simp: line_append_def lr_ok_def lr_text_def Let_def)
  next
    case grown
    with assms show thesis
      by (intro that [of "r\<lparr>glowable_buffer := glowable_buffer r @ [c]\<rparr>"])
        (auto simp: line_append_def lr_ok_def lr_text_def Let_def)
  qed
qed

lemma lr_ok_start [simp]:
  "length (fixed_buffer r) = n \<Longrightarrow> 1 < n \<Longrightarrow>
   lr_ok n (r\<lparr>fixed_buffer_used_size := 0, glowable_buffer := []\<rparr>)"
  "lr_text (r\<lparr>fixed_buffer_used_size := 0, glowable_buffer := []\<rparr>) = []"
  by (auto simp: lr_ok_def lr_text_def)

lemma length_uninit [simp]: "length (uninit n) = n"
  by (simp add: uninit_def)

lemma stream_line_reader_buffer [simp]: "fixed_buffer (stream_line_reader buf) = buf"
  by (simp add: stream_line_reader_def)

subsection \<open>What a source of bytes promises\<close>

datatype ending = Closes | Breaks | Stalls

text \<open>
  How a source goes on after its last byte: the peer closed the connection (0), the
  connection is broken (a negative result) or nothing comes any more and the call blocks.
\<close>

locale byte_source =
  fixes S :: "'s stream_ops"
    and bytes :: "'s \<Rightarrow> string"
    and ending :: "'s \<Rightarrow> ending"
  assumes read_bytes: "bytes s \<noteq> [] \<Longrightarrow> 0 < n \<Longrightarrow>
      \<exists>k s'. 0 < k \<and> k \<le> n \<and> k \<le> length (bytes s) \<and>
        s_read S s n = Some (Received (take k (bytes s)), s') \<and>
        bytes s' = drop k (bytes s) \<and> ending s' = ending s"
    and read_closed: "bytes s = [] \<Longrightarrow> 0 < n \<Longrightarrow> ending s = Closes \<Longrightarrow>
      \<exists>s'. s_read S s n = Some (Received [], s') \<and> bytes s' = [] \<and> ending s' = ending s"
    and read_broken: "bytes s = [] \<Longrightarrow> 0 < n \<Longrightarrow> ending s = Breaks \<Longrightarrow>
      \<exists>s'. s_read S s n = Some (Failed, s') \<and> bytes s' = [] \<and> ending s' = ending s"
    and read_stalled: "bytes s = [] \<Longrightarrow> 0 < n \<Longrightarrow> ending s = Stalls \<Longrightarrow> s_read S s n = None"
begin

lemma read_one:
  assumes "bytes s = b # bs"
  obtains s' where "s_read S s 1 = Some (Received [b], s')" "bytes s' = bs" "ending s' = ending s"
proof -
  obtain k s' where k: "0 < k" "k \<le> 1"
    "s_read S s 1 = Some (Received (take k (bytes s)), s')"
    "bytes s' = drop k (bytes s)" "ending s' = ending s"
    using read_bytes [of s 1] assms by auto
  then have "k = 1" by simp
  with k assms show thesis by (intro that [of s']) auto
qed

lemma getline_loop_line:
  assumes "bytes s = l @ LF # rest" "LF \<notin> set l" "lr_ok n r" "1 < n"
  shows "\<exists>r' s'. getline_loop S i r s = Some (Inr ((True, r'), s')) \<and> lr_ok n r' \<and>
           lr_text r' = lr_text r @ l @ [LF] \<and> bytes s' = rest \<and> ending s' = ending s"
  using assms(1-3)
proof (induction l arbitrary: i r s)
  case Nil
  obtain s' where s': "s_read S s 1 = Some (Received [LF], s')" "bytes s' = rest" "ending s' = ending s"
    using Nil.prems(1) read_one [of s LF rest] by auto
  obtain r' where r': "line_append LF r = Inr r'" "lr_ok n r'" "lr_text r' = lr_text r @ [LF]"
    using line_append_ok [OF Nil.prems(3) assms(4), of LF] by blast
  show ?case by (subst getline_loop.simps) (simp add: s' r' del: One_nat_def)
next
  case (Cons c l)
  obtain s' where s': "s_read S s 1 = Some (Received [c], s')" "bytes s' = l @ LF # rest" "ending s' = ending s"
    using Cons.prems(1) read_one [of s c "l @ LF # rest"] by auto
  obtain r' where r': "line_append c r = Inr r'" "lr_ok n r'" "lr_text r' = lr_text r @ [c]"
    using line_append_ok [OF Cons.prems(3) assms(4), of c] by blast
  have "c \<noteq> LF" "LF \<notin> set l" using Cons.prems(2) by auto
  with Cons.IH [OF s'(2) _ r'(2), of "i + 1"] r'(3) s'(3) show ?case
    by (subst getline_loop.simps) (simp add: s'(1) r'(1) del: One_nat_def add_Suc_right)
qed

lemma getline_loop_rest:
  assumes "LF \<notin> set (bytes s)" "lr_ok n r" "1 < n"
  shows "case ending s of
      Stalls \<Rightarrow> getline_loop S i r s = None
    | Breaks \<Rightarrow> \<exists>r' s'. getline_loop S i r s = Some (Inr ((False, r'), s')) \<and> lr_ok n r' \<and>
                 bytes s' = [] \<and> ending s' = ending s
    | Closes \<Rightarrow> \<exists>r' s'. getline_loop S i r s = Some (Inr ((i \<noteq> 0 \<or> bytes s \<noteq> [], r'), s')) \<and>
                 lr_ok n r' \<and> lr_text r' = lr_text r @ bytes s \<and> bytes s' = [] \<and> ending s' = ending s"
  using assms(1,2)
proof (induction "bytes s" arbitrary: i r s)
  case Nil
  then have b: "bytes s = []" by simp
  show ?case
  proof (cases "ending s")
    case Closes
    obtain s' where "s_read S s 1 = Some (Received [], s')" "bytes s' = []" "ending s' = ending s"
      using read_closed [OF b _ Closes, of 1] by auto
    with b Closes Nil.prems show ?thesis
      by (subst getline_loop.simps) (simp del: One_nat_def)
  next
    case Breaks
    obtain s' where "s_read S s 1 = Some (Failed, s')" "bytes s' = []" "ending s' = ending s"
      using read_broken [OF b _ Breaks, of 1] by auto
    with b Breaks Nil.prems show ?thesis
      by (subst getline_loop.simps) (simp del: One_nat_def)
  next
    case Stalls
    then have "s_read S s 1 = None" using read_stalled [OF b _ Stalls, of 1] by simp
    with Stalls show ?thesis by (subst getline_loop.simps) (simp del: One_nat_def)
  qed
next
  case (Cons c bs)
  obtain s' where s': "s_read S s 1 = Some (Received [c], s')" "bytes s' = bs" "ending s' = ending s"
    using Cons.hyps(2) read_one [of s c bs] by metis
  obtain r' where r': "line_append c r = Inr r'" "lr_ok n r'" "lr_text r' = lr_text r @ [c]"
    using line_append_ok [OF Cons.prems(2) assms(3), of c] by blast
  have c: "c \<noteq> LF" "LF \<notin> set (bytes s')"
    using Cons.prems(1) unfolding Cons.hyps(2) [symmetric] s'(2) by auto
  have step: "getline_loop S i r s = getline_loop S (i + 1) r' s'"
    by (subst getline_loop.simps) (simp add: s'(1) r'(1) c(1) del: One_nat_def add_Suc_right)
  have IH: "case ending s' of
      Stalls \<Rightarrow> getline_loop S (i + 1) r' s' = None
    | Breaks \<Rightarrow> \<exists>ra sa. getline_loop S (i + 1) r' s' = Some (Inr ((False, ra), sa)) \<and> lr_ok n ra \<and>
                 bytes sa = [] \<and> ending sa = ending s'
    | Closes \<Rightarrow> \<exists>ra sa. getline_loop S (i + 1) r' s' = Some (Inr ((i + 1 \<noteq> 0 \<or> bytes s' \<noteq> [], ra), sa)) \<and>
                 lr_ok n ra \<and> lr_text ra = lr_text r' @ bytes s' \<and> bytes sa = [] \<and> ending sa = ending s'"
    using Cons.hyps(1) [OF s'(2) [symmetric] c(2) r'(2), of "i + 1"] .
  have ne: "bytes s \<noteq> []" "bytes s = [c] @ bytes s'" unfolding s'(2) Cons.hyps(2) [symmetric] by simp_all
  have nonempty: "i + 1 \<noteq> 0 \<or> bytes s' \<noteq> []" "i \<noteq> 0 \<or> bytes s \<noteq> []" using ne(1) by auto
  have both: "lr_text r' @ bytes s' = lr_text r @ bytes s" using r'(3) ne(2) by simp
  show ?case
    using IH unfolding step s'(3) both eqTrueI [OF nonempty(1)] eqTrueI [OF nonempty(2)] .
qed

text \<open>What \<open>getline\<close> returns, whatever was in the array before.\<close>

lemma getline_line:
  assumes "bytes s = l @ LF # rest" "LF \<notin> set l" "length (fixed_buffer r) = n" "1 < n"
  obtains r' s' where "getline S r s = Inr ((True, r'), s')" "length (fixed_buffer r') = n"
    "line_ptr r' = Inr (c_str (l @ [LF]))" "bytes s' = rest" "ending s' = ending s"
proof -
  let ?r = "r\<lparr>fixed_buffer_used_size := 0, glowable_buffer := []\<rparr>"
  have "lr_ok n ?r" "lr_text ?r = []" using assms(3,4) by simp_all
  with getline_loop_line [OF assms(1,2) _ assms(4), of ?r 0]
  obtain r' s' where *: "getline_loop S 0 ?r s = Some (Inr ((True, r'), s'))" "lr_ok n r'"
    "lr_text r' = l @ [LF]" "bytes s' = rest" "ending s' = ending s" by auto
  show thesis
    using * by (intro that [of r' s']) (simp_all add: getline_def line_ptr_text, simp add: lr_ok_def)
qed

lemma getline_rest:
  assumes "LF \<notin> set (bytes s)" "length (fixed_buffer r) = n" "1 < n"
  shows "case ending s of
      Stalls \<Rightarrow> getline S r s = Inl Diverges
    | Breaks \<Rightarrow> \<exists>r' s'. getline S r s = Inr ((False, r'), s') \<and> length (fixed_buffer r') = n \<and>
                 bytes s' = [] \<and> ending s' = ending s
    | Closes \<Rightarrow> \<exists>r' s'. getline S r s = Inr ((bytes s \<noteq> [], r'), s') \<and> length (fixed_buffer r') = n \<and>
                 (bytes s \<noteq> [] \<longrightarrow> line_ptr r' = Inr (c_str (bytes s))) \<and> bytes s' = [] \<and> ending s' = ending s"
proof -
  let ?r = "r\<lparr>fixed_buffer_used_size := 0, glowable_buffer := []\<rparr>"
  have r: "lr_ok n ?r" "lr_text ?r = []" using assms(2,3) by simp_all
  note * = getline_loop_rest [OF assms(1) r(1) assms(3), of 0]
  show ?thesis
  proof (cases "ending s")
    case Closes
    with * r(2) obtain r' s' where **: "getline_loop S 0 ?r s = Some (Inr ((bytes s \<noteq> [], r'), s'))"
      "lr_ok n r'" "lr_text r' = bytes s" "bytes s' = []" "ending s' = ending s" by auto
    then have "length (fixed_buffer r') = n" "bytes s \<noteq> [] \<longrightarrow> line_ptr r' = Inr (c_str (bytes s))"
      using line_ptr_text [of n r'] by (simp_all add: lr_ok_def)
    with ** Closes show ?thesis by (simp add: getline_def)
  next
    case Breaks
    with * show ?thesis by (auto simp: getline_def lr_ok_def)
  next
    case Stalls
    with * show ?thesis by (simp add: getline_def)
  qed
qed

text \<open>A body of known length: the next \<open>len\<close> bytes when there are as many, and failure when
  the stream ends before.\<close>

lemma content_loop_enough:
  assumes "r \<le> len" "len - r \<le> length (bytes s)" "length out = len"
    and go: "goes_on progress"
  shows "\<exists>s'. content_loop S len progress r out s =
           Some (Inr ((True, take r out @ take (len - r) (bytes s)), s')) \<and>
           bytes s' = drop (len - r) (bytes s) \<and> ending s' = ending s"
  using assms(1-3)
proof (induction "len - r" arbitrary: r out s rule: less_induct)
  case less
  show ?case
  proof (cases "r < len")
    case False
    with less.prems show ?thesis by (subst content_loop.simps) simp
  next
    case True
    then have "bytes s \<noteq> []" using less.prems(2) by auto
    then obtain k s' where k: "0 < k" "k \<le> len - r" "k \<le> length (bytes s)"
      "s_read S s (len - r) = Some (Received (take k (bytes s)), s')"
      "bytes s' = drop k (bytes s)" "ending s' = ending s"
      using read_bytes [of s "len - r"] True by auto
    let ?out = "overwrite out r (take k (bytes s))"
    have lenk: "length (take k (bytes s)) = k" using k(3) by simp
    have ne: "take k (bytes s) \<noteq> []" using k(1) lenk by (metis length_0_conv less_irrefl)
    have out: "length ?out = len" using k less.prems True by (simp add: overwrite_def)
    have step: "content_loop S len progress r out s = content_loop S len progress (r + k) ?out s'"
    proof (cases progress)
      case None
      with True ne show ?thesis by (subst content_loop.simps) (simp add: k(3,4) min_absorb2 goes_on_def)
    next
      case (Some p)
      with go True ne show ?thesis by (subst content_loop.simps) (simp add: k(3,4) min_absorb2 goes_on_def)
    qed
    have "len - (r + k) < len - r" "r + k \<le> len" "len - (r + k) \<le> length (bytes s')"
      using k True less.prems by auto
    from less.hyps [OF this out] obtain s'' where s'':
      "content_loop S len progress (r + k) ?out s' =
         Some (Inr ((True, take (r + k) ?out @ take (len - (r + k)) (bytes s')), s''))"
      "bytes s'' = drop (len - (r + k)) (bytes s')" "ending s'' = ending s'" by blast
    have "take (r + k) ?out = take r out @ take k (bytes s)"
      using less.prems True k(2,3) by (simp add: overwrite_def)
    moreover have "take k (bytes s) @ take (len - (r + k)) (drop k (bytes s)) = take (len - r) (bytes s)"
    proof -
      have "k + (len - (r + k)) = len - r" using k(2) by simp
      then show ?thesis by (metis take_add)
    qed
    moreover have "drop (len - (r + k)) (drop k (bytes s)) = drop (len - r) (bytes s)"
    proof -
      have "len - (r + k) + k = len - r" using k(2) True by simp
      then show ?thesis by (metis drop_drop)
    qed
    ultimately show ?thesis using s'' k(5,6) by (simp add: step)
  qed
qed

lemma content_loop_short:
  assumes "length (bytes s) < len - r" "length out = len"
    and go: "goes_on progress"
  shows "if ending s = Stalls then content_loop S len progress r out s = None
         else \<exists>s'. content_loop S len progress r out s =
            Some (Inr ((False, overwrite out r (bytes s)), s')) \<and> bytes s' = [] \<and> ending s' = ending s"
  using assms(1,2)
proof (induction "length (bytes s)" arbitrary: r out s rule: less_induct)
  case less
  have n: "r < len" "0 < len - r" using less.prems by auto
  show ?case
  proof (cases "bytes s = []")
    case True
    have out: "overwrite out r [] = out" by (simp add: overwrite_def)
    show ?thesis
    proof (cases "ending s")
      case Closes
      from read_closed [OF True n(2) Closes] n(1) Closes True out show ?thesis
        by (auto simp: content_loop.simps [of S len progress r out s])
    next
      case Breaks
      from read_broken [OF True n(2) Breaks] n(1) Breaks True out show ?thesis
        by (auto simp: content_loop.simps [of S len progress r out s])
    next
      case Stalls
      from read_stalled [OF True n(2) Stalls] n(1) Stalls show ?thesis
        by (auto simp: content_loop.simps [of S len progress r out s])
    qed
  next
    case False
    then obtain k s' where k: "0 < k" "k \<le> len - r" "k \<le> length (bytes s)"
      "s_read S s (len - r) = Some (Received (take k (bytes s)), s')"
      "bytes s' = drop k (bytes s)" "ending s' = ending s"
      using read_bytes [of s "len - r"] n(2) by auto
    let ?out = "overwrite out r (take k (bytes s))"
    have lenk: "length (take k (bytes s)) = k" using k(3) by simp
    have ne: "take k (bytes s) \<noteq> []" using k(1) lenk by (metis length_0_conv less_irrefl)
    have step: "content_loop S len progress r out s = content_loop S len progress (r + k) ?out s'"
    proof (cases progress)
      case None
      with n(1) ne show ?thesis by (subst content_loop.simps) (simp add: k(3,4) min_absorb2 goes_on_def)
    next
      case (Some p)
      with go n(1) ne show ?thesis by (subst content_loop.simps) (simp add: k(3,4) min_absorb2 goes_on_def)
    qed
    have len: "length ?out = len" using less.prems n k by (simp add: overwrite_def)
    have both: "overwrite ?out (r + k) (bytes s') = overwrite out r (bytes s)"
    proof -
      have "take (r + k) ?out = take r out @ take k (bytes s)"
        using less.prems n(1) k by (simp add: overwrite_def)
      moreover have "drop (r + k + length (bytes s')) ?out = drop (r + length (bytes s)) out"
        using less.prems n(1) k by (simp add: overwrite_def add.commute)
      ultimately show ?thesis using k(5) by (simp add: overwrite_def [of ?out] overwrite_def [of out r "bytes s"])
    qed
    have "length (bytes s') < length (bytes s)" "length (bytes s') < len - (r + k)"
      using k less.prems False by auto
    from less.hyps [OF this len] show ?thesis unfolding step k(6) both .
  qed
qed

lemma until_close_loop_all:
  "case ending s of
      Stalls \<Rightarrow> until_close_loop S out s = None
    | Breaks \<Rightarrow> \<exists>s'. until_close_loop S out s = Some (Inr ((False, out @ bytes s), s')) \<and>
                 bytes s' = [] \<and> ending s' = ending s
    | Closes \<Rightarrow> \<exists>s'. until_close_loop S out s = Some (Inr ((True, out @ bytes s), s')) \<and>
                 bytes s' = [] \<and> ending s' = ending s"
proof (induction "bytes s" arbitrary: out s)
  case Nil
  then have b: "bytes s = []" by simp
  show ?case
  proof (cases "ending s")
    case Closes
    from read_closed [OF b _ Closes, of 1] b Closes show ?thesis
      by (auto simp: until_close_loop.simps [of S out s] simp del: One_nat_def)
  next
    case Breaks
    from read_broken [OF b _ Breaks, of 1] b Breaks show ?thesis
      by (auto simp: until_close_loop.simps [of S out s] simp del: One_nat_def)
  next
    case Stalls
    from read_stalled [OF b _ Stalls, of 1] Stalls show ?thesis
      by (auto simp: until_close_loop.simps [of S out s] simp del: One_nat_def)
  qed
next
  case (Cons c bs)
  obtain s' where s': "s_read S s 1 = Some (Received [c], s')" "bytes s' = bs" "ending s' = ending s"
    using Cons.hyps(2) read_one [of s c bs] by metis
  have step: "until_close_loop S out s = until_close_loop S (out @ [c]) s'"
    by (subst until_close_loop.simps) (simp add: s'(1) del: One_nat_def)
  have all: "(out @ [c]) @ bytes s' = out @ bytes s"
    unfolding s'(2) Cons.hyps(2) [symmetric] by simp
  from Cons.hyps(1) [OF s'(2) [symmetric], of "out @ [c]"]
  show ?case unfolding step all s'(3) .
qed

end

subsection \<open>The streams\<close>

text \<open>
  A socket on which the operating system delivers given segments: \<open>recv\<close> returns what is
  there of the first segment, \<open>send\<close> takes everything.
\<close>

record sock =
  inbox :: "string list"
  sock_end :: ending
  sent :: string
  peer_addr :: string

fun sock_recv :: "string list \<Rightarrow> nat \<Rightarrow> string \<times> string list" where
  "sock_recv [] n = ([], [])"
| "sock_recv (seg # segs) n =
     (if seg = [] then sock_recv segs n else (take n seg, drop n seg # segs))"

definition socket_read :: "sock \<Rightarrow> nat \<Rightarrow> (recv \<times> sock) option" where
  "socket_read s n =
     (let (bs, segs) = sock_recv (inbox s) n; s' = s\<lparr>inbox := segs\<rparr> in
      if bs \<noteq> [] then Some (Received bs, s')
      else (case sock_end s of
              Closes \<Rightarrow> Some (Received [], s')
            | Breaks \<Rightarrow> Some (Failed, s')
            | Stalls \<Rightarrow> None))"

definition socket_ops :: "sock stream_ops" where
  "socket_ops = \<lparr>s_read = socket_read,
     s_write = (\<lambda>s data. (int (length data), s\<lparr>sent := sent s @ data\<rparr>)),
     s_remote_addr = peer_addr\<rparr>"

lemma sock_recv_bytes:
  assumes "0 < n"
  shows "\<exists>k. sock_recv segs n = (take k (concat segs), snd (sock_recv segs n)) \<and>
    concat (snd (sock_recv segs n)) = drop k (concat segs) \<and> k \<le> n \<and> k \<le> length (concat segs) \<and>
    (concat segs \<noteq> [] \<longrightarrow> 0 < k)"
proof (induction segs)
  case (Cons seg segs)
  show ?case
  proof (cases "seg = []")
    case False
    then show ?thesis using assms
      by (intro exI [of _ "min n (length seg)"]) (cases "n \<le> length seg"; auto)
  qed (use Cons in auto)
qed auto

lemma socket_read_bytes:
  assumes "0 < n"
  shows "\<exists>k segs. concat segs = drop k (concat (inbox s)) \<and> k \<le> n \<and> k \<le> length (concat (inbox s)) \<and>
    (concat (inbox s) \<noteq> [] \<longrightarrow> 0 < k) \<and>
    sock_recv (inbox s) n = (take k (concat (inbox s)), segs)"
  using sock_recv_bytes [OF assms, of "inbox s"] by (metis)

interpretation socket: byte_source socket_ops "\<lambda>s. concat (inbox s)" sock_end
proof
  fix s :: sock and n :: nat
  assume n: "0 < n"
  obtain k segs where k: "concat segs = drop k (concat (inbox s))" "k \<le> n" "k \<le> length (concat (inbox s))"
    "concat (inbox s) \<noteq> [] \<longrightarrow> 0 < k" "sock_recv (inbox s) n = (take k (concat (inbox s)), segs)"
    using socket_read_bytes [OF n] by blast
  { assume ne: "concat (inbox s) \<noteq> []"
    then have "take k (concat (inbox s)) \<noteq> []" using k(4) by auto
    with k ne show "\<exists>k s'. 0 < k \<and> k \<le> n \<and> k \<le> length (concat (inbox s)) \<and>
        s_read socket_ops s n = Some (Received (take k (concat (inbox s))), s') \<and>
        concat (inbox s') = drop k (concat (inbox s)) \<and> sock_end s' = sock_end s"
      by (intro exI [of _ k] exI [of _ "s\<lparr>inbox := segs\<rparr>"]) (simp add: socket_ops_def socket_read_def Let_def) }
  assume e: "concat (inbox s) = []"
  then have "sock_recv (inbox s) n = ([], segs)" "concat segs = []"
    using k(1,5) by (simp_all only: take_Nil drop_Nil)
  then show "sock_end s = Closes \<Longrightarrow> \<exists>s'. s_read socket_ops s n = Some (Received [], s') \<and>
      concat (inbox s') = [] \<and> sock_end s' = sock_end s"
    and "sock_end s = Breaks \<Longrightarrow> \<exists>s'. s_read socket_ops s n = Some (Failed, s') \<and>
      concat (inbox s') = [] \<and> sock_end s' = sock_end s"
    and "sock_end s = Stalls \<Longrightarrow> s_read socket_ops s n = None"
    by (auto simp: socket_ops_def socket_read_def)
qed

text \<open>
  \<open>BufferStream\<close>: \<open>write\<close> appends and \<open>read\<close> copies from the front of the string, which it
  leaves as it is.
\<close>

definition buffer_ops :: "string stream_ops" where
  "buffer_ops = \<lparr>s_read = (\<lambda>b n. Some (Received (take n b), b)),
     s_write = (\<lambda>b data. (int (length data), b @ data)),
     s_remote_addr = (\<lambda>b. [])\<rparr>"

lemma buffer_getline_loop_stuck:
  assumes "getline_loop S i r s = Some y"
  shows "S = buffer_ops \<Longrightarrow> s = c # cs \<Longrightarrow> c \<noteq> LF \<Longrightarrow> lr_ok n r \<Longrightarrow> 1 < n \<Longrightarrow> False"
  using assms
proof (induction S i r s y rule: getline_loop.raw_induct [rotated, consumes 1, case_names 1])
  case (1 loop S i r s y)
  obtain r' where r': "line_append c r = Inr r'" "lr_ok n r'"
    using line_append_ok [OF "1.prems"(4,5), of c] by blast
  have "loop S (i + 1) r' s = Some y"
    using "1.hyps" "1.prems"(1-3) r'(1) by (simp add: buffer_ops_def)
  then show ?case using "1.IH" "1.prems"(1-3,5) r'(2) by blast
qed

text \<open>Reading a line from a \<open>BufferStream\<close> never returns, unless the buffer is empty or
  starts with a newline: its \<open>read\<close> does not advance, so the reader sees the first byte for
  ever.\<close>

theorem buffer_stream_getline_diverges:
  assumes "b = c # cs" "c \<noteq> LF" "1 < length (fixed_buffer r)"
  shows "getline buffer_ops r b = Inl Diverges"
proof -
  let ?r = "r\<lparr>fixed_buffer_used_size := 0, glowable_buffer := []\<rparr>"
  have "getline_loop buffer_ops 0 ?r b = None"
    using buffer_getline_loop_stuck [OF _ refl assms(1,2) _ assms(3), of 0 ?r] assms(3)
    by (cases "getline_loop buffer_ops 0 ?r b") auto
  then show ?thesis by (simp add: getline_def)
qed

theorem buffer_stream_getline_diverges_witness:
  "getline buffer_ops (stream_line_reader (uninit 16)) ''GET'' = Inl Diverges"
  by (rule buffer_stream_getline_diverges [of _ "CHR ''G''" "''ET''"]) simp_all

end
