(* ===== verification/HT_Headers.thy ===== *)
theory HT_Headers
  imports HT_Stream
begin

text \<open>
  \<open>Headers\<close>, \<open>Params\<close>, \<open>Request\<close> and \<open>Response\<close> of src/libs/httplib.h.

  \<^item> \<open>std::multimap\<close> is the list of its elements in order, under a comparison: \<open>emplace\<close>
    inserts after the elements with an equivalent key, \<open>find\<close> returns the first of them.
    The comparison of \<open>Headers\<close> is \<open>detail::ci\<close>, which folds upper case; that of \<open>Params\<close> and
    \<open>MultipartFiles\<close> is the order of bytes.
  \<^item> The locale \<open>multimap_order\<close> is what \<open>std::multimap\<close> asks of a comparison; the laws of
    insertion and lookup are proved in it and used at both comparisons.
\<close>

subsection \<open>std::multimap\<close>

fun mm_emplace :: "('k \<Rightarrow> 'k \<Rightarrow> bool) \<Rightarrow> 'k \<Rightarrow> 'v \<Rightarrow> ('k \<times> 'v) list \<Rightarrow> ('k \<times> 'v) list" where
  "mm_emplace lt k v [] = [(k, v)]"
| "mm_emplace lt k v (x # m) =
     (if lt k (fst x) then (k, v) # x # m else x # mm_emplace lt k v m)"

fun mm_find :: "('k \<Rightarrow> 'k \<Rightarrow> bool) \<Rightarrow> 'k \<Rightarrow> ('k \<times> 'v) list \<Rightarrow> 'v option" where
  "mm_find lt k [] = None"
| "mm_find lt k (x # m) =
     (if \<not> lt (fst x) k \<and> \<not> lt k (fst x) then Some (snd x) else mm_find lt k m)"

definition mm_sorted :: "('k \<Rightarrow> 'k \<Rightarrow> bool) \<Rightarrow> ('k \<times> 'v) list \<Rightarrow> bool" where
  "mm_sorted lt m = sorted_wrt (\<lambda>a b. \<not> lt (fst b) (fst a)) m"

lemma mm_sorted_Nil [simp]: "mm_sorted lt []"
  by (simp add: mm_sorted_def)

lemma set_mm_emplace [simp]: "set (mm_emplace lt k v m) = insert (k, v) (set m)"
  by (induction m) auto

lemma mset_mm_emplace: "mset (mm_emplace lt k v m) = add_mset (k, v) (mset m)"
  by (induction m) auto

locale multimap_order =
  fixes lt :: "'k \<Rightarrow> 'k \<Rightarrow> bool"
  assumes irrefl: "\<not> lt a a"
    and trans: "lt a b \<Longrightarrow> lt b c \<Longrightarrow> lt a c"
    and weak: "lt a c \<Longrightarrow> lt a b \<or> lt b c"
begin

definition equiv :: "'k \<Rightarrow> 'k \<Rightarrow> bool" where
  "equiv a b \<longleftrightarrow> \<not> lt a b \<and> \<not> lt b a"

lemma equiv_refl [simp]: "equiv a a"
  by (simp add: equiv_def irrefl)

lemma emplace_sorted: "mm_sorted lt m \<Longrightarrow> mm_sorted lt (mm_emplace lt k v m)"
proof (induction m)
  case Nil
  show ?case by (simp add: mm_sorted_def)
next
  case (Cons x m)
  have tail: "mm_sorted lt m" and head: "\<forall>y \<in> set m. \<not> lt (fst y) (fst x)"
    using Cons.prems by (auto simp: mm_sorted_def)
  show ?case
  proof (cases "lt k (fst x)")
    case True
    then have "\<not> lt (fst y) k" if "y \<in> set (x # m)" for y
      using that head trans irrefl by (metis set_ConsD)
    with True Cons.prems show ?thesis by (auto simp: mm_sorted_def)
  next
    case False
    with Cons.IH [OF tail] head show ?thesis by (auto simp: mm_sorted_def)
  qed
qed

text \<open>Elements inserted in order go to the end.\<close>

lemma emplace_last: "mm_sorted lt (m @ [(k, v)]) \<Longrightarrow> mm_emplace lt k v m = m @ [(k, v)]"
  by (induction m) (auto simp: mm_sorted_def)

lemma fold_emplace_sorted:
  "mm_sorted lt (m @ xs) \<Longrightarrow> fold (\<lambda>(k, v). mm_emplace lt k v) xs m = m @ xs"
proof (induction xs arbitrary: m)
  case (Cons x xs)
  obtain k v where x: "x = (k, v)" by (cases x)
  have "mm_sorted lt (m @ [(k, v)])" using Cons.prems by (auto simp: mm_sorted_def x sorted_wrt_append)
  with Cons show ?case by (simp add: x emplace_last)
qed simp

lemma find_None: "mm_find lt k m = None \<longleftrightarrow> (\<forall>x \<in> set m. \<not> equiv (fst x) k)"
  by (induction m) (auto simp: equiv_def)

lemma equiv_lt: "equiv a b \<Longrightarrow> lt a c \<longleftrightarrow> lt b c" "equiv a b \<Longrightarrow> lt c a \<longleftrightarrow> lt c b"
  using weak by (auto simp: equiv_def)

text \<open>An insertion is found under its key unless there was an element with that key, which
  keeps its place before it.\<close>

lemma find_emplace:
  assumes "mm_sorted lt m"
  shows "mm_find lt k (mm_emplace lt j v m) =
    (if equiv j k then (case mm_find lt k m of None \<Rightarrow> Some v | Some w \<Rightarrow> Some w)
     else mm_find lt k m)"
  using assms
proof (induction m)
  case Nil
  show ?case by (auto simp: equiv_def)
next
  case (Cons x m)
  have tail: "mm_sorted lt m" and head: "\<forall>y \<in> set m. \<not> lt (fst y) (fst x)"
    using Cons.prems by (auto simp: mm_sorted_def)
  show ?case
  proof (cases "lt j (fst x)")
    case False
    with Cons.IH [OF tail] show ?thesis by (auto simp: equiv_def)
  next
    case True
    have "mm_find lt k (x # m) = None" if "equiv j k"
    proof -
      have "lt k (fst x)" using True equiv_lt(1) [OF that] by simp
      then have "lt k (fst y)" if "y \<in> set (x # m)" for y
        using that head weak by (metis set_ConsD)
      then show ?thesis by (auto simp: find_None equiv_def)
    qed
    with True show ?thesis by (auto simp: equiv_def split: option.splits)
  qed
qed

end

subsection \<open>Comparisons\<close>

text \<open>\<open>char\<close> is signed; \<open>std::string\<close> compares its bytes as unsigned.\<close>

definition schar :: "char \<Rightarrow> int" where
  "schar c = (let n = (of_char c :: int) in if n < 128 then n else n - 256)"

fun lexicographical_compare :: "int list \<Rightarrow> int list \<Rightarrow> bool" where
  "lexicographical_compare xs [] = False"
| "lexicographical_compare [] (y # ys) = True"
| "lexicographical_compare (x # xs) (y # ys) =
     (x < y \<or> (\<not> y < x \<and> lexicographical_compare xs ys))"

definition ci :: "string \<Rightarrow> string \<Rightarrow> bool" where
  "ci s1 s2 = lexicographical_compare (map (schar \<circ> tolower) s1) (map (schar \<circ> tolower) s2)"

definition str_less :: "string \<Rightarrow> string \<Rightarrow> bool" where
  "str_less s1 s2 = lexicographical_compare (map of_char s1) (map of_char s2)"

lemma lexc_irrefl: "\<not> lexicographical_compare xs xs"
  by (induction xs) auto

lemma lexc_trans:
  "lexicographical_compare xs ys \<Longrightarrow> lexicographical_compare ys zs \<Longrightarrow> lexicographical_compare xs zs"
proof (induction xs ys arbitrary: zs rule: lexicographical_compare.induct)
  case (2 y ys)
  then show ?case by (cases zs) auto
next
  case (3 x xs y ys)
  then show ?case by (cases zs) auto
qed simp

lemma lexc_total: "\<not> lexicographical_compare xs ys \<Longrightarrow> \<not> lexicographical_compare ys xs \<Longrightarrow> xs = ys"
  by (induction xs ys rule: lexicographical_compare.induct) (auto elim: lexicographical_compare.elims)

lemma lexc_weak:
  assumes "lexicographical_compare xs zs"
  shows "lexicographical_compare xs ys \<or> lexicographical_compare ys zs"
  using assms lexc_total [of xs ys] lexc_trans [of ys xs zs] by metis

lemma lexc_order: "multimap_order (\<lambda>a b. lexicographical_compare (f a) (f b))"
  by unfold_locales (auto simp: lexc_irrefl intro: lexc_trans dest: lexc_weak)

interpretation headers: multimap_order ci
  using lexc_order [of "map (schar \<circ> tolower)"] by (simp add: ci_def [abs_def])

interpretation params: multimap_order str_less
  using lexc_order [of "map of_char"] by (simp add: str_less_def [abs_def])

lemma schar_inject [simp]: "schar c = schar d \<longleftrightarrow> c = d"
proof
  have range: "0 \<le> (of_char x :: int)" "(of_char x :: int) < 256" for x
  proof -
    have "(of_char x :: int) = int (of_char x :: nat)" by (rule of_nat_of_char [symmetric])
    moreover have "(of_char x :: nat) < 256" by (rule nat_of_char_less_256)
    ultimately show "0 \<le> (of_char x :: int)" "(of_char x :: int) < 256" by linarith+
  qed
  assume "schar c = schar d"
  then have "(of_char c :: int) = of_char d"
    using range [of c] range [of d] by (auto simp: schar_def Let_def split: if_splits)
  then show "c = d" by simp
qed simp

text \<open>Two header names are equivalent exactly when they agree up to the case of letters.\<close>

lemma headers_equiv: "headers.equiv a b \<longleftrightarrow> map tolower a = map tolower b"
proof
  assume "headers.equiv a b"
  then have "map schar (map tolower a) = map schar (map tolower b)"
    using lexc_total by (auto simp: headers.equiv_def ci_def)
  moreover have "inj schar" by (simp add: inj_def)
  ultimately show "map tolower a = map tolower b" by (simp only: inj_map_eq_map)
next
  assume "map tolower a = map tolower b"
  then have "map (schar \<circ> tolower) a = map (schar \<circ> tolower) b"
    by (simp flip: map_map)
  then show "headers.equiv a b" by (simp add: headers.equiv_def ci_def lexc_irrefl)
qed

subsection \<open>Requests and responses\<close>

type_synonym headers = "(string \<times> string) list"
type_synonym params = "(string \<times> string) list"

record multipart_file =
  mf_filename :: string
  mf_content_type :: string
  mf_offset :: nat
  mf_length :: nat

definition MultipartFile :: multipart_file where
  "MultipartFile = \<lparr>mf_filename = [], mf_content_type = [], mf_offset = 0, mf_length = 0\<rparr>"

record http_request =
  req_version :: string
  req_method :: string
  req_target :: string
  req_path :: string
  req_headers :: headers
  req_body :: string
  req_params :: params
  req_files :: "(string \<times> multipart_file) list"
  req_matches :: captures
  req_progress :: "progress option"

definition Request :: http_request where
  "Request = \<lparr>req_version = [], req_method = [], req_target = [], req_path = [], req_headers = [],
     req_body = [], req_params = [], req_files = [], req_matches = [], req_progress = None\<rparr>"

text \<open>\<open>streamcb\<close> gives the next part of a streamed body from its offset.\<close>

record http_response =
  res_version :: string
  res_status :: int
  res_headers :: headers
  res_body :: string
  res_streamcb :: "(nat \<Rightarrow> string) option"

definition Response :: http_response where
  "Response = \<lparr>res_version = [], res_status = -1, res_headers = [], res_body = [], res_streamcb = None\<rparr>"

subsection \<open>Headers\<close>

definition has_header :: "headers \<Rightarrow> string \<Rightarrow> bool" where
  "has_header hs key = (mm_find ci key hs \<noteq> None)"

definition get_header_value :: "headers \<Rightarrow> string \<Rightarrow> string \<Rightarrow> string" where
  "get_header_value hs key def =
     (case mm_find ci key hs of Some v \<Rightarrow> c_str v | None \<Rightarrow> def)"

definition get_header_value_int :: "headers \<Rightarrow> string \<Rightarrow> int \<Rightarrow> int result" where
  "get_header_value_int hs key def =
     (case mm_find ci key hs of Some v \<Rightarrow> stoi 10 v | None \<Rightarrow> Inr def)"

text \<open>Keys and values given as C strings.\<close>

definition set_header :: "string \<Rightarrow> string \<Rightarrow> headers \<Rightarrow> headers" where
  "set_header key val hs = mm_emplace ci (c_str key) (c_str val) hs"

definition req_set_header :: "string \<Rightarrow> string \<Rightarrow> http_request \<Rightarrow> http_request" where
  "req_set_header key val r = r\<lparr>req_headers := set_header key val (req_headers r)\<rparr>"

definition req_has_header :: "http_request \<Rightarrow> string \<Rightarrow> bool" where
  "req_has_header r key = has_header (req_headers r) key"

definition req_get_header_value :: "http_request \<Rightarrow> string \<Rightarrow> string" where
  "req_get_header_value r key = get_header_value (req_headers r) key []"

definition has_param :: "http_request \<Rightarrow> string \<Rightarrow> bool" where
  "has_param r key = (mm_find str_less key (req_params r) \<noteq> None)"

definition get_param_value :: "http_request \<Rightarrow> string \<Rightarrow> string" where
  "get_param_value r key = (case mm_find str_less key (req_params r) of Some v \<Rightarrow> v | None \<Rightarrow> [])"

definition has_file :: "http_request \<Rightarrow> string \<Rightarrow> bool" where
  "has_file r key = (mm_find str_less key (req_files r) \<noteq> None)"

definition get_file_value :: "http_request \<Rightarrow> string \<Rightarrow> multipart_file" where
  "get_file_value r key =
     (case mm_find str_less key (req_files r) of Some f \<Rightarrow> f | None \<Rightarrow> MultipartFile)"

definition res_has_header :: "http_response \<Rightarrow> string \<Rightarrow> bool" where
  "res_has_header r key = (mm_find ci key (res_headers r) \<noteq> None)"

definition res_get_header_value :: "http_response \<Rightarrow> string \<Rightarrow> string" where
  "res_get_header_value r key = get_header_value (res_headers r) key []"

definition res_set_header :: "string \<Rightarrow> string \<Rightarrow> http_response \<Rightarrow> http_response" where
  "res_set_header key val r = r\<lparr>res_headers := set_header key val (res_headers r)\<rparr>"

definition set_redirect :: "string \<Rightarrow> http_response \<Rightarrow> http_response" where
  "set_redirect url r = (res_set_header ''Location'' url r)\<lparr>res_status := 302\<rparr>"

definition set_content :: "string \<Rightarrow> string \<Rightarrow> http_response \<Rightarrow> http_response" where
  "set_content s content_type r =
     res_set_header ''Content-Type'' content_type (r\<lparr>res_body := s\<rparr>)"

subsection \<open>Looking up what was set\<close>

definition headers_ok :: "headers \<Rightarrow> bool" where
  "headers_ok hs \<longleftrightarrow> mm_sorted ci hs \<and> (\<forall>(k, v) \<in> set hs. NUL \<notin> set k \<and> NUL \<notin> set v)"

lemma headers_ok_Nil [simp]: "headers_ok []"
  by (simp add: headers_ok_def)

lemma headers_ok_emplace:
  "headers_ok hs \<Longrightarrow> NUL \<notin> set k \<Longrightarrow> NUL \<notin> set v \<Longrightarrow> headers_ok (mm_emplace ci k v hs)"
  by (auto simp: headers_ok_def headers.emplace_sorted)

lemma headers_ok_set_header [simp]: "headers_ok hs \<Longrightarrow> headers_ok (set_header k v hs)"
  by (simp add: set_header_def headers_ok_emplace)

lemma mm_find_in: "mm_find lt k m = Some v \<Longrightarrow> \<exists>j. (j, v) \<in> set m"
  by (induction m) (auto split: if_splits)

lemma headers_ok_find: "headers_ok hs \<Longrightarrow> mm_find ci k hs = Some v \<Longrightarrow> c_str v = v"
  by (drule mm_find_in) (auto simp: headers_ok_def)

lemma mm_find_set_header:
  assumes "headers_ok hs" "NUL \<notin> set j"
  shows "mm_find ci k (set_header j v hs) =
    (if map tolower j = map tolower k
     then (case mm_find ci k hs of None \<Rightarrow> Some (c_str v) | Some w \<Rightarrow> Some w)
     else mm_find ci k hs)"
  using assms headers.find_emplace [of hs k j "c_str v"]
  by (simp add: set_header_def headers_ok_def headers_equiv)

text \<open>\<open>set_header\<close> adds a value; it does not replace one: the first value set for a name, in
  any spelling of upper and lower case, is the one that is read back.\<close>

lemma get_after_set_header:
  assumes "headers_ok hs" "NUL \<notin> set j"
  shows "get_header_value (set_header j v hs) k def =
    (if map tolower j = map tolower k \<and> \<not> has_header hs k then c_str v
     else get_header_value hs k def)"
  using mm_find_set_header [OF assms, of k v]
  by (auto simp: get_header_value_def has_header_def split: option.splits)

lemma has_after_set_header:
  assumes "headers_ok hs" "NUL \<notin> set j"
  shows "has_header (set_header j v hs) k \<longleftrightarrow> map tolower j = map tolower k \<or> has_header hs k"
  using mm_find_set_header [OF assms, of k v]
  by (auto simp: has_header_def split: option.splits)

end
