(* ===== verification/HT_Message.thy ===== *)
theory HT_Message
  imports HT_Headers
begin

text \<open>
  The readers and writers of HTTP messages in src/libs/httplib.h: header lines, bodies with
  a length, chunked or up to the end of the connection, formatted output.

  Beside each reader stands its reference: the same reading of a plain string, given how the
  source goes on after it. The lemmas at the end, proved for every source of bytes, say that
  a reader computes its reference, in whatever pieces the bytes arrive.
\<close>

subsection \<open>Reading\<close>

text \<open>\<open>reader.getline()\<close>, and \<open>reader.ptr()\<close> when it succeeded.\<close>

definition next_line :: "'s stream_ops \<Rightarrow> line_reader \<Rightarrow> 's \<Rightarrow> ((string option \<times> line_reader) \<times> 's) result" where
  "next_line S r s =
     bindE (getline S r s) (\<lambda>((ok, r'), s').
       if ok then bindE (line_ptr r') (\<lambda>l. Inr ((Some l, r'), s')) else Inr ((None, r'), s'))"

text \<open>The expression \<open>(.+?):\s*(.+?)\s*\r\n\<close>.\<close>

definition header_rx :: rx where
  "header_rx = Cat (Group 1 (Rep True 1 dot)) (Cat (lit '':'') (Cat (Rep False 0 isspace)
     (Cat (Group 2 (Rep True 1 dot)) (Cat (Rep False 0 isspace) (lit crlf)))))"

definition add_header_line :: "string \<Rightarrow> headers \<Rightarrow> headers" where
  "add_header_line l hs =
     (case regex_match header_rx l of
        None \<Rightarrow> hs
      | Some m \<Rightarrow> mm_emplace ci (sub_match m 1) (sub_match m 2) hs)"

partial_function (option) headers_loop :: "'s stream_ops \<Rightarrow> line_reader \<Rightarrow> headers \<Rightarrow> 's \<Rightarrow>
    ((bool \<times> headers) \<times> 's) result option" where
  "headers_loop S r hs s =
     (case next_line S r s of
        Inl e \<Rightarrow> Some (Inl e)
      | Inr ((None, r'), s') \<Rightarrow> Some (Inr ((False, hs), s'))
      | Inr ((Some l, r'), s') \<Rightarrow>
          (if l = crlf then Some (Inr ((True, hs), s'))
           else headers_loop S r' (add_header_line l hs) s'))"

definition read_headers :: "'s stream_ops \<Rightarrow> headers \<Rightarrow> 's \<Rightarrow> ((bool \<times> headers) \<times> 's) result" where
  "read_headers S hs s = loopE (headers_loop S (stream_line_reader (uninit 2048)) hs s)"

text \<open>
  The chunks of a chunked body: a line with the length, the data, an empty line. A line other
  than the empty one after the data leaves the loop, and a negative length is not read on.
\<close>

definition chunk_end :: "'s stream_ops \<Rightarrow> line_reader \<Rightarrow> int \<Rightarrow> string \<Rightarrow> 's \<Rightarrow>
    ((bool \<times> string) \<times> 's) result" where
  "chunk_end S r chunk_len out s =
     (if chunk_len = 0 then bindE (next_line S r s) (\<lambda>((l, r'), s'). Inr ((l = Some crlf, out), s'))
      else Inr ((True, out), s))"

partial_function (option) chunk_loop :: "'s stream_ops \<Rightarrow> line_reader \<Rightarrow> int \<Rightarrow> string \<Rightarrow> 's \<Rightarrow>
    ((bool \<times> string) \<times> 's) result option" where
  "chunk_loop S r chunk_len out s =
     (if chunk_len \<le> 0 then Some (chunk_end S r chunk_len out s)
      else (case read_content_with_length S (nat chunk_len) None s of
              Inl e \<Rightarrow> Some (Inl e)
            | Inr ((ok, chunk), s1) \<Rightarrow>
                (if \<not> ok then Some (Inr ((False, out), s1))
                 else (case next_line S r s1 of
                         Inl e \<Rightarrow> Some (Inl e)
                       | Inr ((None, r1), s2) \<Rightarrow> Some (Inr ((False, out), s2))
                       | Inr ((Some l, r1), s2) \<Rightarrow>
                           (if l \<noteq> crlf then Some (chunk_end S r1 chunk_len out s2)
                            else (case next_line S r1 s2 of
                                    Inl e \<Rightarrow> Some (Inl e)
                                  | Inr ((None, r2), s3) \<Rightarrow> Some (Inr ((False, out @ chunk), s3))
                                  | Inr ((Some l2, r2), s3) \<Rightarrow>
                                      (case stoi 16 l2 of
                                         Inl e \<Rightarrow> Some (Inl e)
                                       | Inr len \<Rightarrow> chunk_loop S r2 len (out @ chunk) s3)))))))"

definition read_content_chunked :: "'s stream_ops \<Rightarrow> string \<Rightarrow> 's \<Rightarrow> ((bool \<times> string) \<times> 's) result" where
  "read_content_chunked S out s =
     bindE (next_line S (stream_line_reader (uninit 16)) s) (\<lambda>((l, r), s1).
       case l of
         None \<Rightarrow> Inr ((False, out), s1)
       | Some t \<Rightarrow> bindE (stoi 16 t) (\<lambda>chunk_len. loopE (chunk_loop S r chunk_len out s1)))"

text \<open>\<open>int\<close> to \<open>size_t\<close>.\<close>

definition size_of_int :: "int \<Rightarrow> nat" where
  "size_of_int v = nat (v mod 2 ^ 64)"

lemma size_of_int_negative:
  assumes "n < 0" "- (2 ^ 31) \<le> n"
  shows "size_of_int n > string_max_size"
proof -
  have "n mod 2 ^ 64 = (n + 2 ^ 64) mod 2 ^ 64" by simp
  also have "\<dots> = n + 2 ^ 64" using assms by (intro mod_pos_pos_trivial) simp_all
  finally have "n mod 2 ^ 64 = n + 2 ^ 64" .
  with assms show ?thesis by (simp add: size_of_int_def string_max_size_def nat_less_iff zless_nat_eq_int_zless)
qed

lemma size_of_int_nonneg: "0 \<le> n \<Longrightarrow> n < 2 ^ 31 \<Longrightarrow> size_of_int n = nat n"
  by (simp add: size_of_int_def)

definition is_chunked :: "headers \<Rightarrow> bool" where
  "is_chunked hs = strcasecmp_eq (get_header_value hs ''Transfer-Encoding'' []) ''chunked''"

definition read_content :: "'s stream_ops \<Rightarrow> headers \<Rightarrow> string \<Rightarrow> progress option \<Rightarrow> 's \<Rightarrow>
    ((bool \<times> string) \<times> 's) result" where
  "read_content S hs body progress s =
     (if has_header hs ''Content-Length''
      then bindE (get_header_value_int hs ''Content-Length'' 0) (\<lambda>len.
        if len = 0 \<and> is_chunked hs then read_content_chunked S body s
        else read_content_with_length S (size_of_int len) progress s)
      else if is_chunked hs then read_content_chunked S body s
      else read_content_without_length S body s)"

subsection \<open>Writing\<close>

text \<open>
  \<open>write_format\<close>: \<open>snprintf\<close> into a buffer of 2048 bytes, then into a growing one until the
  text fits; the text that is written is the formatted one, of which an empty one is not
  written at all. The arguments are C strings.
\<close>

function grow :: "nat \<Rightarrow> nat \<Rightarrow> nat" where
  "grow n sz = (if sz < 2 \<or> n < sz - 1 then sz else grow n (2 * sz))"
  by pat_completeness auto
termination by (relation "measure (\<lambda>(n, sz). n + 2 - sz)") auto

declare grow.simps [simp del]

definition snprintf :: "nat \<Rightarrow> string \<Rightarrow> string" where
  "snprintf limit formatted = take (limit - 1) formatted"

definition write_format :: "'s stream_ops \<Rightarrow> string \<Rightarrow> 's \<Rightarrow> 's" where
  "write_format S formatted s =
     (let n = length formatted in
      if n = 0 then s
      else if n \<ge> 2048 - 1
      then snd (s_write S s (take n (snprintf (grow n 2048 - 1) formatted)))
      else snd (s_write S s (take n (snprintf (2048 - 1) formatted))))"

lemma grow_fits: "2 \<le> sz \<Longrightarrow> n < grow n sz - 1"
  by (induction n sz rule: grow.induct) (subst grow.simps, auto)

lemma write_format_all:
  "write_format S f s = (if f = [] then s else snd (s_write S s f))"
  using grow_fits [of 2048 "length f"] by (simp add: write_format_def snprintf_def Let_def)

fun write_header_lines :: "'s stream_ops \<Rightarrow> headers \<Rightarrow> 's \<Rightarrow> 's" where
  "write_header_lines S [] s = s"
| "write_header_lines S ((k, v) # hs) s =
     write_header_lines S hs (write_format S (c_str k @ '': '' @ c_str v @ crlf) s)"

definition write_headers :: "'s stream_ops \<Rightarrow> headers \<Rightarrow> 's \<Rightarrow> 's" where
  "write_headers S hs s = snd (s_write S (write_header_lines S hs s) crlf)"

fun status_message :: "int \<Rightarrow> string" where
  "status_message s =
     (if s = 200 then ''OK''
      else if s = 301 then ''Moved Permanently''
      else if s = 302 then ''Found''
      else if s = 303 then ''See Other''
      else if s = 304 then ''Not Modified''
      else if s = 400 then ''Bad Request''
      else if s = 403 then ''Forbidden''
      else if s = 404 then ''Not Found''
      else if s = 415 then ''Unsupported Media Type''
      else ''Internal Server Error'')"

declare status_message.simps [simp del]

subsection \<open>References on strings\<close>

text \<open>The next line of \<open>bs\<close>, cut at its first NUL, and what follows it.\<close>

definition ref_line :: "string \<Rightarrow> ending \<Rightarrow> (string option \<times> string) result" where
  "ref_line bs e =
     (if LF \<in> set bs
      then Inr (Some (c_str (takeWhile (\<lambda>c. c \<noteq> LF) bs @ [LF])), tl (dropWhile (\<lambda>c. c \<noteq> LF) bs))
      else (case e of
              Stalls \<Rightarrow> Inl Diverges
            | Breaks \<Rightarrow> Inr (None, [])
            | Closes \<Rightarrow> Inr (if bs = [] then None else Some (c_str bs), [])))"

lemma ref_line_shorter:
  assumes "ref_line bs e = Inr (Some l, rest)"
  shows "length rest < length bs"
proof (cases "LF \<in> set bs")
  case True
  then obtain xs ys where bs: "bs = xs @ LF # ys" "LF \<notin> set xs" by (metis split_list_first)
  with assms True show ?thesis by (auto simp: ref_line_def)
next
  case False
  with assms show ?thesis by (auto simp: ref_line_def split: ending.splits if_splits)
qed

lemma ref_line_line [simp]:
  "LF \<notin> set l \<Longrightarrow> ref_line (l @ LF # rest) e = Inr (Some (c_str (l @ [LF])), rest)"
  by (simp add: ref_line_def)

function ref_headers :: "headers \<Rightarrow> string \<Rightarrow> ending \<Rightarrow> ((bool \<times> headers) \<times> string) result" where
  "ref_headers hs bs e =
     (case ref_line bs e of
        Inl f \<Rightarrow> Inl f
      | Inr (None, rest) \<Rightarrow> Inr ((False, hs), rest)
      | Inr (Some l, rest) \<Rightarrow>
          (if l = crlf then Inr ((True, hs), rest) else ref_headers (add_header_line l hs) rest e))"
  by pat_completeness auto
termination
  by (relation "measure (\<lambda>(hs, bs, e). length bs)") (auto dest: ref_line_shorter)

declare ref_headers.simps [simp del]

definition ref_content :: "nat \<Rightarrow> string \<Rightarrow> ending \<Rightarrow> ((bool \<times> string) \<times> string) result" where
  "ref_content len bs e =
     (if len > string_max_size then Inl (Throws Length_error)
      else if len \<le> length bs then Inr ((True, take len bs), drop len bs)
      else if e = Stalls then Inl Diverges
      else Inr ((False, overwrite (replicate len NUL) 0 bs), []))"

lemma ref_content_shorter:
  "ref_content len bs e = Inr (a, rest) \<Longrightarrow> length rest \<le> length bs"
  by (auto simp: ref_content_def split: if_splits)

definition ref_until_close :: "string \<Rightarrow> string \<Rightarrow> ending \<Rightarrow> ((bool \<times> string) \<times> string) result" where
  "ref_until_close out bs e =
     (case e of
        Stalls \<Rightarrow> Inl Diverges
      | Breaks \<Rightarrow> Inr ((False, out @ bs), [])
      | Closes \<Rightarrow> Inr ((True, out @ bs), []))"

definition ref_chunk_end :: "int \<Rightarrow> string \<Rightarrow> string \<Rightarrow> ending \<Rightarrow> ((bool \<times> string) \<times> string) result" where
  "ref_chunk_end chunk_len out bs e =
     (if chunk_len = 0 then bindE (ref_line bs e) (\<lambda>(l, rest). Inr ((l = Some crlf, out), rest))
      else Inr ((True, out), bs))"

function ref_chunks :: "int \<Rightarrow> string \<Rightarrow> string \<Rightarrow> ending \<Rightarrow> ((bool \<times> string) \<times> string) result" where
  "ref_chunks chunk_len out bs e =
     (if chunk_len \<le> 0 then ref_chunk_end chunk_len out bs e
      else (case ref_content (nat chunk_len) bs e of
              Inl f \<Rightarrow> Inl f
            | Inr ((ok, chunk), bs1) \<Rightarrow>
                (if \<not> ok then Inr ((False, out), bs1)
                 else (case ref_line bs1 e of
                         Inl f \<Rightarrow> Inl f
                       | Inr (None, bs2) \<Rightarrow> Inr ((False, out), bs2)
                       | Inr (Some l, bs2) \<Rightarrow>
                           (if l \<noteq> crlf then ref_chunk_end chunk_len out bs2 e
                            else (case ref_line bs2 e of
                                    Inl f \<Rightarrow> Inl f
                                  | Inr (None, bs3) \<Rightarrow> Inr ((False, out @ chunk), bs3)
                                  | Inr (Some l2, bs3) \<Rightarrow>
                                      (case stoi 16 l2 of
                                         Inl f \<Rightarrow> Inl f
                                       | Inr len \<Rightarrow> ref_chunks len (out @ chunk) bs3 e)))))))"
  by pat_completeness auto
termination
  by (relation "measure (\<lambda>(n, out, bs, e). length bs)")
    (auto dest!: ref_line_shorter ref_content_shorter)

declare ref_chunks.simps [simp del]

definition ref_chunked :: "string \<Rightarrow> string \<Rightarrow> ending \<Rightarrow> ((bool \<times> string) \<times> string) result" where
  "ref_chunked out bs e =
     bindE (ref_line bs e) (\<lambda>(l, bs1).
       case l of
         None \<Rightarrow> Inr ((False, out), bs1)
       | Some t \<Rightarrow> bindE (stoi 16 t) (\<lambda>chunk_len. ref_chunks chunk_len out bs1 e))"

definition ref_read_content :: "headers \<Rightarrow> string \<Rightarrow> string \<Rightarrow> ending \<Rightarrow>
    ((bool \<times> string) \<times> string) result" where
  "ref_read_content hs body bs e =
     (if has_header hs ''Content-Length''
      then bindE (get_header_value_int hs ''Content-Length'' 0) (\<lambda>len.
        if len = 0 \<and> is_chunked hs then ref_chunked body bs e
        else ref_content (size_of_int len) bs e)
      else if is_chunked hs then ref_chunked body bs e
      else ref_until_close body bs e)"

subsection \<open>Readers compute their references\<close>

context byte_source begin

text \<open>A reader agrees with a reference: the same fault, or the same value, with the same bytes
  left and the same ending.\<close>

definition agrees :: "('a \<times> 's) result \<Rightarrow> ('a \<times> string) result \<Rightarrow> ending \<Rightarrow> bool" where
  "agrees m p e \<longleftrightarrow> (case p of
       Inl f \<Rightarrow> m = Inl f
     | Inr (a, rest) \<Rightarrow> \<exists>s'. m = Inr (a, s') \<and> bytes s' = rest \<and> ending s' = e)"

lemma agrees_Inl [simp]: "agrees m (Inl f) e \<longleftrightarrow> m = Inl f"
  by (simp add: agrees_def)

lemma agrees_Inr: "agrees m (Inr (a, rest)) e \<longleftrightarrow> (\<exists>s'. m = Inr (a, s') \<and> bytes s' = rest \<and> ending s' = e)"
  by (simp add: agrees_def)

lemma agrees_value [simp]: "agrees (Inr (a, s)) (Inr (b, bytes s)) (ending s) \<longleftrightarrow> a = b"
  by (auto simp: agrees_Inr)

lemma agrees_bind:
  assumes "agrees m p e"
    and "\<And>a s'. m = Inr (a, s') \<Longrightarrow> ending s' = e \<Longrightarrow> agrees (f (a, s')) (g (a, bytes s')) e"
  shows "agrees (bindE m f) (bindE p g) e"
proof (cases p)
  case (Inl fa)
  with assms(1) show ?thesis by simp
next
  case (Inr b)
  with assms(1) obtain a s' where "p = Inr (a, bytes s')" "m = Inr (a, s')" "ending s' = e"
    by (cases b) (auto simp: agrees_Inr)
  with assms(2) show ?thesis by simp
qed

text \<open>Lines come with the reader they leave behind.\<close>

definition line_agrees :: "nat \<Rightarrow> ((string option \<times> line_reader) \<times> 's) result \<Rightarrow>
    (string option \<times> string) result \<Rightarrow> ending \<Rightarrow> bool" where
  "line_agrees n m p e \<longleftrightarrow> (case p of
       Inl f \<Rightarrow> m = Inl f
     | Inr (l, rest) \<Rightarrow> \<exists>r' s'. m = Inr ((l, r'), s') \<and> length (fixed_buffer r') = n \<and>
         bytes s' = rest \<and> ending s' = e)"

lemma next_line_ref:
  assumes "length (fixed_buffer r) = n" "1 < n"
  shows "line_agrees n (next_line S r s) (ref_line (bytes s) (ending s)) (ending s)"
proof (cases "LF \<in> set (bytes s)")
  case True
  then obtain l rest where b: "bytes s = l @ LF # rest" "LF \<notin> set l" by (metis split_list_first)
  obtain r' s' where "getline S r s = Inr ((True, r'), s')" "length (fixed_buffer r') = n"
    "line_ptr r' = Inr (c_str (l @ [LF]))" "bytes s' = rest" "ending s' = ending s"
    using getline_line [OF b assms] by blast
  with b show ?thesis by (simp add: line_agrees_def next_line_def)
next
  case False
  from getline_rest [OF False assms] show ?thesis
    using False by (cases "ending s") (auto simp: line_agrees_def next_line_def ref_line_def)
qed

lemma line_agrees_cases:
  assumes "line_agrees n m p e"
  obtains (fault) f where "p = Inl f" "m = Inl f"
  | (none) r' s' where "p = Inr (None, bytes s')" "m = Inr ((None, r'), s')"
      "length (fixed_buffer r') = n" "ending s' = e"
  | (line) l r' s' where "p = Inr (Some l, bytes s')" "m = Inr ((Some l, r'), s')"
      "length (fixed_buffer r') = n" "ending s' = e"
proof (cases p)
  case (Inl f)
  with assms fault show thesis by (simp add: line_agrees_def)
next
  case (Inr b)
  with assms obtain l r' s' where "p = Inr (l, bytes s')" "m = Inr ((l, r'), s')"
    "length (fixed_buffer r') = n" "ending s' = e"
    by (cases b) (auto simp: line_agrees_def)
  then show thesis using none line by (cases l) blast+
qed

lemma read_content_with_length_ref:
  assumes "goes_on progress"
  shows "agrees (read_content_with_length S len progress s) (ref_content len (bytes s) (ending s)) (ending s)"
proof (cases "len > string_max_size")
  case True
  then show ?thesis by (simp add: read_content_with_length_def ref_content_def)
next
  case False
  show ?thesis
  proof (cases "len \<le> length (bytes s)")
    case True
    from content_loop_enough [of 0 len s "replicate len NUL" progress, OF _ _ _ assms] True False
    show ?thesis by (auto simp: read_content_with_length_def ref_content_def agrees_Inr)
  next
    case short: False
    from content_loop_short [of s len 0 "replicate len NUL" progress, OF _ _ assms] short False
    show ?thesis
      by (cases "ending s = Stalls")
        (auto simp: read_content_with_length_def ref_content_def agrees_Inr)
  qed
qed

lemma read_content_without_length_ref:
  "agrees (read_content_without_length S out s) (ref_until_close out (bytes s) (ending s)) (ending s)"
  using until_close_loop_all [where s = s and out = out]
  by (cases "ending s") (auto simp: read_content_without_length_def ref_until_close_def agrees_Inr)

lemma headers_loop_ref:
  assumes "length (fixed_buffer r) = n" "1 < n"
  shows "agrees (loopE (headers_loop S r hs s)) (ref_headers hs (bytes s) (ending s)) (ending s)"
  using assms(1)
proof (induction "length (bytes s)" arbitrary: r hs s rule: less_induct)
  case less
  from next_line_ref [OF less.prems assms(2), of s] show ?case
  proof (cases rule: line_agrees_cases)
    case (fault f)
    then show ?thesis by (subst headers_loop.simps, subst ref_headers.simps) simp
  next
    case (none r' s')
    then show ?thesis
      by (subst headers_loop.simps, subst ref_headers.simps) (auto simp: agrees_Inr)
  next
    case (line l r' s')
    show ?thesis
    proof (cases "l = crlf")
      case True
      with line show ?thesis
        by (subst headers_loop.simps, subst ref_headers.simps) (auto simp: agrees_Inr)
    next
      case False
      from less.hyps [OF ref_line_shorter [OF line(1)] line(3), of "add_header_line l hs"] line False
      show ?thesis by (subst headers_loop.simps, subst ref_headers.simps) simp
    qed
  qed
qed

lemma read_headers_ref:
  "agrees (read_headers S hs s) (ref_headers hs (bytes s) (ending s)) (ending s)"
  unfolding read_headers_def by (rule headers_loop_ref [of _ 2048]) simp_all

end

context byte_source begin

lemma chunk_end_ref:
  assumes "length (fixed_buffer r) = n" "1 < n"
  shows "agrees (chunk_end S r chunk_len out s) (ref_chunk_end chunk_len out (bytes s) (ending s)) (ending s)"
proof (cases "chunk_len = 0")
  case True
  from next_line_ref [OF assms, of s] show ?thesis
    by (cases rule: line_agrees_cases) (auto simp: chunk_end_def ref_chunk_end_def True agrees_Inr)
qed (simp add: chunk_end_def ref_chunk_end_def)

lemma chunk_loop_ref:
  assumes "length (fixed_buffer r) = n" "1 < n"
  shows "agrees (loopE (chunk_loop S r chunk_len out s)) (ref_chunks chunk_len out (bytes s) (ending s)) (ending s)"
  using assms(1)
proof (induction "length (bytes s)" arbitrary: r chunk_len out s rule: less_induct)
  case less
  show ?case
  proof (cases "chunk_len \<le> 0")
    case True
    with chunk_end_ref [OF less.prems assms(2)] show ?thesis
      by (subst chunk_loop.simps, subst ref_chunks.simps) simp
  next
    case pos: False
    let ?p = "ref_content (nat chunk_len) (bytes s) (ending s)"
    have content: "agrees (read_content_with_length S (nat chunk_len) None s) ?p (ending s)"
      by (rule read_content_with_length_ref) simp
    show ?thesis
    proof (cases ?p)
      case (Inl f)
      with content pos show ?thesis by (subst chunk_loop.simps, subst ref_chunks.simps) simp
    next
      case (Inr b)
      with content obtain ok chunk s1 where s1: "?p = Inr ((ok, chunk), bytes s1)"
        "read_content_with_length S (nat chunk_len) None s = Inr ((ok, chunk), s1)" "ending s1 = ending s"
        by (cases b) (auto simp: agrees_Inr)
      show ?thesis
      proof (cases ok)
        case False
        with s1 pos show ?thesis
          by (subst chunk_loop.simps, subst ref_chunks.simps) (auto simp: agrees_Inr)
      next
        case True
        note step = chunk_loop.simps [of S r chunk_len out s] ref_chunks.simps [of chunk_len out "bytes s" "ending s"]
        note s1 = s1 [unfolded eqTrueI [OF True]]
        from next_line_ref [OF less.prems assms(2), of s1] show ?thesis
        proof (cases rule: line_agrees_cases)
          case (fault f)
          with s1 pos show ?thesis unfolding step by simp
        next
          case (none r' s')
          with s1 pos show ?thesis unfolding step by (auto simp: agrees_Inr)
        next
          case sep: (line l r1 s2)
          show ?thesis
          proof (cases "l = crlf")
            case False
            from chunk_end_ref [OF sep(3) assms(2), of chunk_len out s2] sep s1 pos False
            show ?thesis unfolding step by simp
          next
            case True
            note sep = sep [unfolded True]
            from next_line_ref [OF sep(3) assms(2), of s2] show ?thesis
            proof (cases rule: line_agrees_cases)
              case (fault f)
              with sep s1 pos show ?thesis unfolding step by simp
            next
              case (none r' s')
              with sep s1 pos show ?thesis unfolding step by (auto simp: agrees_Inr)
            next
              case nxt: (line l2 r2 s3)
              show ?thesis
              proof (cases "stoi 16 l2")
                case (Inl f)
                with nxt sep s1 pos show ?thesis unfolding step by simp
              next
                case (Inr len)
                have "length (bytes s3) < length (bytes s)"
                  using ref_content_shorter [OF s1(1)] ref_line_shorter [OF sep(1)]
                    ref_line_shorter [OF nxt(1)] by simp
                from less.hyps [OF this nxt(3), of len "out @ chunk"] Inr nxt sep s1 pos
                show ?thesis unfolding step by simp
              qed
            qed
          qed
        qed
      qed
    qed
  qed
qed

lemma read_content_chunked_ref:
  "agrees (read_content_chunked S out s) (ref_chunked out (bytes s) (ending s)) (ending s)"
proof -
  have buf: "length (fixed_buffer (stream_line_reader (uninit 16))) = 16" "1 < (16::nat)" by simp_all
  from next_line_ref [OF buf, of s] show ?thesis
  proof (cases rule: line_agrees_cases)
    case (fault f)
    then show ?thesis by (simp add: read_content_chunked_def ref_chunked_def)
  next
    case (none r' s')
    then show ?thesis by (auto simp: read_content_chunked_def ref_chunked_def agrees_Inr)
  next
    case (line l r' s')
    with chunk_loop_ref [OF line(3) buf(2), of _ out s'] show ?thesis
      by (cases "stoi 16 l") (simp_all add: read_content_chunked_def ref_chunked_def)
  qed
qed

lemma read_content_ref:
  assumes "goes_on progress"
  shows "agrees (read_content S hs body progress s) (ref_read_content hs body (bytes s) (ending s)) (ending s)"
proof (cases "has_header hs ''Content-Length''")
  case True
  show ?thesis
  proof (cases "get_header_value_int hs ''Content-Length'' 0")
    case (Inr len)
    with True read_content_chunked_ref [of body s] read_content_with_length_ref [OF assms, of "size_of_int len" s]
    show ?thesis by (simp add: read_content_def ref_read_content_def)
  qed (use True in \<open>simp add: read_content_def ref_read_content_def\<close>)
next
  case False
  with read_content_chunked_ref [of body s] read_content_without_length_ref [of body s]
  show ?thesis by (simp add: read_content_def ref_read_content_def)
qed

end

subsection \<open>Header lines\<close>

text \<open>Names and values that survive being written as a line.\<close>

definition header_name :: "string \<Rightarrow> bool" where
  "header_name k \<longleftrightarrow> k \<noteq> [] \<and> CR \<notin> set k \<and> LF \<notin> set k \<and> CHR '':'' \<notin> set k \<and> NUL \<notin> set k"

definition header_value :: "string \<Rightarrow> bool" where
  "header_value v \<longleftrightarrow> v \<noteq> [] \<and> CR \<notin> set v \<and> LF \<notin> set v \<and> NUL \<notin> set v \<and>
     \<not> isspace (v ! 0) \<and> \<not> isspace (last v)"

lemma drop_append_cut: "i \<le> length v \<Longrightarrow> drop i (v @ w) = drop i v @ w"
  by simp

lemma blank_crlf_end:
  assumes "K [] [] [] = Some y"
  shows "rx_run (Rep False 0 isspace) crlf (\<lambda>cs r. rx_run (lit crlf) r (K cs)) = Some y"
  using assms by (simp add: rx_run.simps(3) lit.simps upt_rec numeral_2_eq_2)

lemma blank_crlf_more:
  assumes "\<not> isspace (last t)" "t \<noteq> []"
    and K: "\<And>cs ds rest. rest \<noteq> [] \<Longrightarrow> K cs ds rest = None"
  shows "rx_run (Rep False 0 isspace) (t @ crlf) (\<lambda>cs r. rx_run (lit crlf) r (K cs)) = None"
proof (rule rx_run_rep_None)
  fix i assume "i \<le> length (takeWhile isspace (t @ crlf))"
  moreover have "length (takeWhile isspace (t @ crlf)) < length t"
  proof -
    obtain t' c where t: "t = t' @ [c]" "\<not> isspace c" using assms by (cases t rule: rev_cases) auto
    then have "takeWhile isspace (t @ crlf) = takeWhile isspace t'"
      by (cases "\<exists>x \<in> set t'. \<not> isspace x") (auto simp: takeWhile_append1 takeWhile_append2 takeWhile_eq_all_conv [THEN iffD2])
    with t show ?thesis using length_takeWhile_le [of isspace t'] by simp
  qed
  ultimately have "i < length t" by simp
  then obtain c r where "drop i (t @ crlf) = c # r @ crlf" by (auto simp: Cons_nth_drop_Suc [symmetric])
  then show "rx_run (lit crlf) (drop i (t @ crlf)) (K []) = None"
    using K by (cases r) (auto simp: rx_run_lit_iff numeral_2_eq_2)
qed

lemma blank_one:
  assumes "\<not> isspace c" "K [] (c # r) = Some y"
  shows "rx_run (Rep False 0 isspace) (CHR '' '' # c # r) K = Some y"
  using assms by (simp add: rx_run.simps(3) upt_rec)

lemma value_crlf:
  assumes "header_value v" "k [(2, v)] [] = Some y"
    and k: "\<And>cs rest. rest \<noteq> [] \<Longrightarrow> k cs rest = None"
  shows "rx_run (Cat (Group 2 (Rep True 1 dot)) (Cat (Rep False 0 isspace) (lit crlf))) (v @ crlf) k = Some y"
  unfolding rx_run.simps(4,7)
proof (rule rx_run_lazy [where n = "length v"])
  have v: "v \<noteq> []" "\<And>c. c \<in> set v \<Longrightarrow> dot c" "\<not> isspace (last v)"
    using assms(1) by (auto simp: header_value_def dot_def)
  then show "1 \<le> length v" "length v \<le> length (takeWhile dot (v @ crlf))"
    by (simp_all add: Suc_le_eq)
  show "rx_run (Rep False 0 isspace) (drop i (v @ crlf)) (\<lambda>cs r. rx_run (lit crlf) r
      (\<lambda>ds. k (((2, take (length (v @ crlf) - length (drop i (v @ crlf))) (v @ crlf)) # []) @ cs @ ds))) = None"
    if "i < length v" for i
    using that v(3) by (subst drop_append_cut) (auto intro!: blank_crlf_more k)
  show "rx_run (Rep False 0 isspace) (drop (length v) (v @ crlf)) (\<lambda>cs r. rx_run (lit crlf) r
      (\<lambda>ds. k (((2, take (length (v @ crlf) - length (drop (length v) (v @ crlf))) (v @ crlf)) # []) @ cs @ ds))) = Some y"
    using assms(2) by (simp add: blank_crlf_end)
qed

lemma regex_header_line:
  assumes "header_name n" "header_value v"
  shows "regex_match header_rx (n @ '': '' @ v @ crlf) = Some [(1, n), (2, v)]"
  unfolding regex_match_def header_rx_def rx_run.simps(4) [where p = "Group 1 _"] rx_run.simps(7) [where n = 1]
proof (rule rx_run_lazy [where n = "length n"])
  let ?s = "n @ '': '' @ v @ crlf"
  have n: "n \<noteq> []" "\<And>c. c \<in> set n \<Longrightarrow> dot c \<and> c \<noteq> CHR '':''" using assms(1)
    by (auto simp: header_name_def dot_def)
  then show "1 \<le> length n" "length n \<le> length (takeWhile dot ?s)"
    by (simp_all add: Suc_le_eq takeWhile_append2)
  obtain c r where v: "v = c # r" "\<not> isspace c" using assms(2) by (cases v) (auto simp: header_value_def)
  show "rx_run (Cat (lit '':'') q) (drop i ?s) k = None" if i: "1 \<le> i" "i < length n" for i q k
  proof -
    obtain d ds where d: "drop i n = d # ds" using i by (cases "drop i n") auto
    then have "d \<in> set n" using in_set_dropD [of d i n] by simp
    with d show ?thesis using i n(2) by (simp add: lit.simps)
  qed
  have blank: "rx_run (Rep False 0 isspace) (CHR '' '' # v @ crlf) K = Some y"
    if "K [] (v @ crlf) = Some y" for K and y :: captures
    using blank_one [OF v(2), of K "r @ crlf" y] that by (simp add: v(1))
  have cut: "drop (length n) ?s = CHR '':'' # CHR '' '' # v @ crlf" by simp
  show "rx_run (Cat (lit '':'') (Cat (Rep False 0 isspace) (Cat (Group 2 (Rep True 1 dot))
      (Cat (Rep False 0 isspace) (lit crlf))))) (drop (length n) ?s)
      (\<lambda>ds. (\<lambda>cs rest. if rest = [] then Some cs else None)
        (((1, take (length ?s - length (drop (length n) ?s)) ?s) # []) @ ds)) = Some [(1, n), (2, v)]"
    unfolding take_cut cut rx_run.simps(4) [where p = "lit _"] rx_run_lit1 if_P [OF refl]
      rx_run.simps(4) [where p = "Rep False 0 isspace" and q = "Cat (Group _ _) _"]
    by (rule blank, rule value_crlf [OF assms(2)]) simp_all
qed

lemma add_header_line_text:
  assumes "header_name n" "header_value v"
  shows "add_header_line (n @ '': '' @ v @ crlf) hs = mm_emplace ci n v hs"
  by (simp only: add_header_line_def regex_header_line [OF assms]) (simp add: sub_match_def)

definition header_text :: "headers \<Rightarrow> string" where
  "header_text hs = concat (map (\<lambda>(n, v). n @ '': '' @ v @ crlf) hs)"

definition headers_clean :: "headers \<Rightarrow> bool" where
  "headers_clean hs \<longleftrightarrow> (\<forall>(n, v) \<in> set hs. header_name n \<and> header_value v)"

lemma ref_headers_text:
  assumes "headers_clean xs"
  shows "ref_headers hs (header_text xs @ crlf @ rest) e =
    Inr ((True, fold (\<lambda>(n, v). mm_emplace ci n v) xs hs), rest)"
  using assms
proof (induction xs arbitrary: hs)
  case Nil
  have "ref_line ([CR] @ LF # rest) e = Inr (Some crlf, rest)"
    by (subst ref_line_line) (simp_all add: c_str_def)
  then show ?case by (subst ref_headers.simps) (simp add: header_text_def)
next
  case (Cons x xs)
  obtain n v where x: "x = (n, v)" by (cases x)
  have nv: "header_name n" "header_value v" "headers_clean xs"
    using Cons.prems by (auto simp: x headers_clean_def)
  let ?l = "n @ '': '' @ v @ [CR]"
  have l: "LF \<notin> set ?l" "NUL \<notin> set ?l" using nv by (auto simp: header_name_def header_value_def)
  have line: "?l @ [LF] = n @ '': '' @ v @ crlf" by simp
  have "ref_line (?l @ LF # header_text xs @ crlf @ rest) e =
      Inr (Some (n @ '': '' @ v @ crlf), header_text xs @ crlf @ rest)"
    using l unfolding ref_line_line [OF l(1)] line by simp
  moreover have "header_text (x # xs) @ crlf @ rest = ?l @ LF # header_text xs @ crlf @ rest"
    by (simp add: header_text_def x)
  moreover have "n @ '': '' @ v @ crlf \<noteq> crlf" by (cases n) auto
  ultimately show ?case
    using Cons.IH [OF nv(3)] by (subst ref_headers.simps) (simp add: x add_header_line_text [OF nv(1,2), simplified])
qed

end
