(* ===== verification/HT_Url.thy ===== *)
theory HT_Url
  imports HT_Headers
begin

unbundle bit_operations_syntax

text \<open>
  The codecs of src/libs/httplib.h: percent encoding of request targets, hexadecimal numbers,
  UTF-8, and the text of queries. A loop over the index of a string is a recursion on the rest
  of the string; reading the terminating NUL of a \<open>std::string\<close> is \<open>char_at\<close>.
\<close>

subsection \<open>split\<close>

text \<open>The callback of \<open>detail::split\<close> is called on each part; an empty text has none.\<close>

fun split_text_loop :: "char \<Rightarrow> string \<Rightarrow> string \<Rightarrow> string list" where
  "split_text_loop d part [] = [part]"
| "split_text_loop d part (c # s) =
     (if c = d then part # split_text_loop d [] s else split_text_loop d (part @ [c]) s)"

definition split :: "string \<Rightarrow> char \<Rightarrow> string list" where
  "split s d = (if s = [] then [] else split_text_loop d [] s)"

subsection \<open>Hexadecimal numbers\<close>

definition hex_upper :: "nat \<Rightarrow> char" where
  "hex_upper n = ''0123456789ABCDEF'' ! n"

definition hex_lower :: "nat \<Rightarrow> char" where
  "hex_lower n = ''0123456789abcdef'' ! n"

definition is_hex :: "char \<Rightarrow> nat option" where
  "is_hex c = (let k = (of_char c :: nat) in
     if isdigit c then Some (k - 48)
     else if 65 \<le> k \<and> k \<le> 70 then Some (k - 65 + 10)
     else if 97 \<le> k \<and> k \<le> 102 then Some (k - 97 + 10)
     else None)"

definition char_at :: "string \<Rightarrow> nat \<Rightarrow> char" where
  "char_at s i = (if i < length s then s ! i else NUL)"

fun hex_loop :: "string \<Rightarrow> nat \<Rightarrow> nat \<Rightarrow> nat \<Rightarrow> nat option" where
  "hex_loop s i 0 val = Some val"
| "hex_loop s i (Suc cnt) val =
     (if char_at s i = NUL then None
      else (case is_hex (char_at s i) of
              None \<Rightarrow> None
            | Some v \<Rightarrow> hex_loop s (i + 1) cnt (val * 16 + v)))"

definition from_hex_to_i :: "string \<Rightarrow> nat \<Rightarrow> nat \<Rightarrow> nat option" where
  "from_hex_to_i s i cnt = (if i \<ge> length s then None else hex_loop s i cnt 0)"

fun from_i_to_hex :: "nat \<Rightarrow> string" where
  "from_i_to_hex n = (if n < 16 then [hex_lower (n mod 16)]
                      else from_i_to_hex (n div 16) @ [hex_lower (n mod 16)])"

declare from_i_to_hex.simps [simp del]

subsection \<open>UTF-8\<close>

definition to_utf8 :: "int \<Rightarrow> string" where
  "to_utf8 code =
     (if code < 0x0080 then [char_of (code AND 0x7F)]
      else if code < 0x0800 then
        [char_of (0xC0 OR (drop_bit 6 code AND 0x1F)),
         char_of (0x80 OR (code AND 0x3F))]
      else if code < 0xD800 then
        [char_of (0xE0 OR (drop_bit 12 code AND 0xF)),
         char_of (0x80 OR (drop_bit 6 code AND 0x3F)),
         char_of (0x80 OR (code AND 0x3F))]
      else if code < 0xE000 then []
      else if code < 0x10000 then
        [char_of (0xE0 OR (drop_bit 12 code AND 0xF)),
         char_of (0x80 OR (drop_bit 6 code AND 0x3F)),
         char_of (0x80 OR (code AND 0x3F))]
      else if code < 0x110000 then
        [char_of (0xF0 OR (drop_bit 18 code AND 0x7)),
         char_of (0x80 OR (drop_bit 12 code AND 0x3F)),
         char_of (0x80 OR (drop_bit 6 code AND 0x3F)),
         char_of (0x80 OR (code AND 0x3F))]
      else [])"

subsection \<open>Percent encoding\<close>

definition encode_char :: "char \<Rightarrow> string" where
  "encode_char c =
     (if c = CHR '' '' then ''%20''
      else if c = CHR ''+'' then ''%2B''
      else if c = CHR 0x27 then ''%27''
      else if c = CHR '','' then ''%2C''
      else if c = CHR '':'' then ''%3A''
      else if c = CHR '';'' then ''%3B''
      else let k = (of_char c :: nat) in
        if k \<ge> 0x80 then CHR ''%'' # [hex_upper (k div 16), hex_upper (k mod 16)] else [c])"

definition encode_url :: "string \<Rightarrow> string" where
  "encode_url s = concat (map encode_char (c_str s))"

fun decode_url :: "string \<Rightarrow> string" where
  "decode_url [] = []"
| "decode_url (c # r) =
     (if c = CHR ''%'' \<and> r \<noteq> [] then
        (if r ! 0 = CHR ''u'' then
           (case from_hex_to_i r 1 4 of
              Some v \<Rightarrow> to_utf8 (int v) @ decode_url (drop 5 r)
            | None \<Rightarrow> c # decode_url r)
         else
           (case from_hex_to_i r 0 2 of
              Some v \<Rightarrow> char_of v # decode_url (drop 2 r)
            | None \<Rightarrow> c # decode_url r))
      else if c = CHR ''+'' then CHR '' '' # decode_url r
      else c # decode_url r)"

declare decode_url.simps(2) [simp del]

subsection \<open>Queries\<close>

text \<open>The parts between \<open>=\<close>: the first that is not empty is the key, the last of the others
  the value.\<close>

fun key_and_value :: "string list \<Rightarrow> string \<times> string \<Rightarrow> string \<times> string" where
  "key_and_value [] (key, val) = (key, val)"
| "key_and_value (p # ps) (key, val) =
     key_and_value ps (if key = [] then (p, val) else (key, p))"

definition parse_query_text :: "string \<Rightarrow> params \<Rightarrow> params" where
  "parse_query_text s params = fold (\<lambda>part ps.
     let (key, val) = key_and_value (split part (CHR ''='')) ([], [])
     in mm_emplace str_less key (decode_url val) ps) (split s (CHR ''&'')) params"

subsection \<open>Round trips\<close>

lemma isdigit_hex: "isdigit c \<Longrightarrow> 48 \<le> (of_char c :: nat) \<and> (of_char c :: nat) \<le> 57"
  by (simp add: isdigit_def)

lemma hex_digits:
  assumes "n < 16"
  shows "is_hex (hex_upper n) = Some n" "hex_upper n \<noteq> NUL" "hex_upper n \<noteq> CHR ''u''"
    "digit_val 16 (hex_lower n) = Some n" "48 \<le> (of_char (hex_lower n) :: nat)"
    "hex_lower n \<noteq> CHR ''x''" "hex_lower n \<noteq> CHR ''X''"
proof -
  have "\<forall>n \<in> set [0..<16]. is_hex (hex_upper n) = Some n \<and> hex_upper n \<noteq> NUL \<and>
      hex_upper n \<noteq> CHR ''u'' \<and> digit_val 16 (hex_lower n) = Some n \<and>
      48 \<le> (of_char (hex_lower n) :: nat) \<and> hex_lower n \<noteq> CHR ''x'' \<and> hex_lower n \<noteq> CHR ''X''"
    by code_simp
  then show "is_hex (hex_upper n) = Some n" "hex_upper n \<noteq> NUL" "hex_upper n \<noteq> CHR ''u''"
    "digit_val 16 (hex_lower n) = Some n" "48 \<le> (of_char (hex_lower n) :: nat)"
    "hex_lower n \<noteq> CHR ''x''" "hex_lower n \<noteq> CHR ''X''"
    using assms by auto
qed

lemma decode_hex_pair:
  assumes "k < 256"
  shows "decode_url (CHR ''%'' # hex_upper (k div 16) # hex_upper (k mod 16) # r) = char_of k # decode_url r"
proof -
  have "k div 16 < 16" "k mod 16 < 16" using assms by auto
  note h = hex_digits [OF this(1)] hex_digits [OF this(2)]
  show ?thesis
    by (subst decode_url.simps) (simp add: h from_hex_to_i_def numeral_2_eq_2 char_at_def)
qed

lemma decode_plain: "c \<noteq> CHR ''%'' \<Longrightarrow> c \<noteq> CHR ''+'' \<Longrightarrow> decode_url (c # r) = c # decode_url r"
  by (simp add: decode_url.simps)

lemma decode_encode_char:
  assumes "c \<noteq> CHR ''%''"
  shows "decode_url (encode_char c @ r) = c # decode_url r"
proof -
  let ?k = "of_char c :: nat"
  consider (plain) "encode_char c = [c]" "c \<noteq> CHR ''+''"
    | (escaped) "encode_char c = CHR ''%'' # [hex_upper (?k div 16), hex_upper (?k mod 16)]"
  proof (cases "c \<in> set [CHR '' '', CHR ''+'', CHR 0x27, CHR '','', CHR '':'', CHR '';'']")
    case True
    then show thesis by (intro escaped) (auto simp: encode_char_def hex_upper_def)
  next
    case False
    then show thesis
      by (cases "?k \<ge> 0x80") (auto intro: plain escaped simp: encode_char_def Let_def)
  qed
  then show ?thesis
    using decode_hex_pair [of ?k r] assms by cases (simp_all add: decode_plain)
qed

lemma decode_encode_chars: "CHR ''%'' \<notin> set t \<Longrightarrow> decode_url (concat (map encode_char t)) = t"
  by (induction t) (auto simp: decode_encode_char)

lemma hex_upper_char: "n < 16 \<Longrightarrow> hex_upper n \<in> set ''0123456789ABCDEF''"
proof -
  have "\<forall>n \<in> set [0..<16]. hex_upper n \<in> set ''0123456789ABCDEF''" by code_simp
  then show "n < 16 \<Longrightarrow> hex_upper n \<in> set ''0123456789ABCDEF''" by simp
qed

lemma encode_char_chars: "x \<in> set (encode_char c) \<Longrightarrow> x = c \<or> x \<in> set ''%0123456789ABCDEF''"
proof -
  have "(of_char c :: nat) div 16 < 16" "(of_char c :: nat) mod 16 < 16"
    using nat_of_char_less_256 [of c] by (simp_all add: less_mult_imp_div_less)
  from hex_upper_char [OF this(1)] hex_upper_char [OF this(2)]
  show "x \<in> set (encode_char c) \<Longrightarrow> x = c \<or> x \<in> set ''%0123456789ABCDEF''"
    by (auto simp: encode_char_def Let_def split: if_splits)
qed

lemma encode_url_chars: "x \<in> set (encode_url s) \<Longrightarrow> x \<in> set (c_str s) \<or> x \<in> set ''%0123456789ABCDEF''"
  unfolding encode_url_def using encode_char_chars by fastforce

lemma encode_char_nonempty [simp]: "encode_char c \<noteq> []"
  by (simp add: encode_char_def Let_def)

text \<open>Decoding undoes encoding for every text without a percent sign (the encoder does not
  escape it), up to the first NUL.\<close>

theorem decode_encode_url:
  assumes "CHR ''%'' \<notin> set s"
  shows "decode_url (encode_url s) = c_str s"
proof -
  have "CHR ''%'' \<notin> set (c_str s)" using assms by (auto simp: c_str_def dest: set_takeWhileD)
  then show ?thesis by (simp add: encode_url_def decode_encode_chars)
qed

theorem decode_encode_url_witness:
  "decode_url (encode_url ''/a b+c:'') = ''/a b+c:''"
  using decode_encode_url [of "''/a b+c:''"] by simp

text \<open>A percent sign is not escaped, so different texts have the same encoding and the
  decoder changes a text that looks like an escape.\<close>

theorem encode_url_not_injective:
  "encode_url ''/%20'' = encode_url ''/ '' \<and> decode_url (encode_url ''/%41'') = ''/A''"
  by code_simp

text \<open>A hexadecimal number as \<open>stoi\<close> reads it.\<close>

lemma from_i_to_hex_digits:
  "c \<in> set (from_i_to_hex n) \<Longrightarrow> \<exists>d < 16. c = hex_lower d"
proof (induction n rule: from_i_to_hex.induct)
  case (1 n)
  then show ?case
    by (cases "n < 16") (auto simp: from_i_to_hex.simps [of n] intro: exI [of _ "n mod 16"])
qed

lemma digits_value_hex [simp]: "digits_value 16 (from_i_to_hex n) = n"
proof (induction n rule: from_i_to_hex.induct)
  case (1 n)
  have d: "the (digit_val 16 (hex_lower (n mod 16))) = n mod 16" by (simp add: hex_digits)
  show ?case
  proof (cases "n < 16")
    case True
    then show ?thesis using d by (simp add: from_i_to_hex.simps [of n] digits_value_def)
  next
    case False
    with 1 d show ?thesis by (simp add: from_i_to_hex.simps [of n] digits_value_snoc)
  qed
qed

lemma from_i_to_hex_nonempty [simp]: "from_i_to_hex n \<noteq> []"
  by (subst from_i_to_hex.simps) simp

lemma stoi_hex_line:
  assumes "n < 2 ^ 31"
  shows "stoi 16 (from_i_to_hex n @ crlf) = Inr (int n)"
proof -
  let ?h = "from_i_to_hex n"
  have h: "is_digit_of 16 c \<and> 48 \<le> (of_char c :: nat) \<and> c \<noteq> CHR ''x'' \<and> c \<noteq> CHR ''X''"
    if "c \<in> set ?h" for c
    using from_i_to_hex_digits [OF that] hex_digits by (auto simp: is_digit_of_def)
  have crlf: "c_str crlf = crlf" by simp
  have "skip_0x 16 (?h @ crlf) = ?h @ crlf"
  proof (cases ?h)
    case (Cons a t)
    with h show ?thesis by (cases t) (auto simp: skip_0x_def split: list.splits)
  qed simp
  moreover have "\<not> is_digit_of 16 CR" by (simp add: is_digit_of_def digit_val_def)
  ultimately have "stoi 16 (?h @ crlf) = Inr (int (digits_value 16 ?h))"
    using h assms by (intro stoi_digits) (simp_all add: crlf)
  then show ?thesis by simp
qed

subsection \<open>UTF-8 as the standard defines it\<close>

text \<open>The value of a sequence of bytes, \<open>None\<close> unless it is the shortest encoding of a scalar
  value.\<close>

definition cont_byte :: "char \<Rightarrow> int option" where
  "cont_byte c = (let k = (of_char c :: int) in if 0x80 \<le> k \<and> k < 0xC0 then Some (k - 0x80) else None)"

fun utf8_value :: "string \<Rightarrow> int option" where
  "utf8_value [a] = (let k = (of_char a :: int) in if k < 0x80 then Some k else None)"
| "utf8_value [a, b] = (let k = (of_char a :: int) in
     case cont_byte b of
       Some y \<Rightarrow> (let v = (k - 0xC0) * 64 + y in
         if 0xC0 \<le> k \<and> k < 0xE0 \<and> 0x80 \<le> v then Some v else None)
     | None \<Rightarrow> None)"
| "utf8_value [a, b, c] = (let k = (of_char a :: int) in
     case (cont_byte b, cont_byte c) of
       (Some y, Some z) \<Rightarrow> (let v = ((k - 0xE0) * 64 + y) * 64 + z in
         if 0xE0 \<le> k \<and> k < 0xF0 \<and> 0x800 \<le> v \<and> (v < 0xD800 \<or> 0xE000 \<le> v) then Some v else None)
     | _ \<Rightarrow> None)"
| "utf8_value [a, b, c, d] = (let k = (of_char a :: int) in
     case (cont_byte b, cont_byte c, cont_byte d) of
       (Some y, Some z, Some w) \<Rightarrow> (let v = (((k - 0xF0) * 64 + y) * 64 + z) * 64 + w in
         if 0xF0 \<le> k \<and> k < 0xF8 \<and> 0x10000 \<le> v \<and> v < 0x110000 then Some v else None)
     | _ \<Rightarrow> None)"
| "utf8_value _ = None"

lemma and_masks:
  fixes x :: int
  shows "x AND 0x7F = x mod 128" "x AND 0x3F = x mod 64" "x AND 0x1F = x mod 32"
    "x AND 0xF = x mod 16" "x AND 0x7 = x mod 8"
  using take_bit_eq_mask [of 7 x] take_bit_eq_mask [of 6 x] take_bit_eq_mask [of 5 x]
    take_bit_eq_mask [of 4 x] take_bit_eq_mask [of 3 x]
  by (simp_all add: take_bit_eq_mod mask_eq_exp_minus_1)

lemma or_tags:
  "\<forall>y \<in> set [0..63 :: int]. 0x80 OR y = 0x80 + y"
  "\<forall>y \<in> set [0..31 :: int]. 0xC0 OR y = 0xC0 + y"
  "\<forall>y \<in> set [0..15 :: int]. 0xE0 OR y = 0xE0 + y"
  "\<forall>y \<in> set [0..7 :: int]. 0xF0 OR y = 0xF0 + y"
  by code_simp+

lemma tagged:
  fixes x :: int
  shows "0x80 OR (x mod 64) = 0x80 + x mod 64" "0xC0 OR (x mod 32) = 0xC0 + x mod 32"
    "0xE0 OR (x mod 16) = 0xE0 + x mod 16" "0xF0 OR (x mod 8) = 0xF0 + x mod 8"
  using or_tags by (simp_all add: zless_imp_add1_zle [of _ "_ :: int"])

lemma of_char_byte: "0 \<le> x \<Longrightarrow> x < 256 \<Longrightarrow> (of_char (char_of (x :: int)) :: int) = x"
  by simp

lemma drop_bits:
  fixes x :: int
  shows "drop_bit 6 x = x div 64" "drop_bit 12 x = x div 4096" "drop_bit 18 x = x div 262144"
  by (simp_all add: drop_bit_eq_div)

lemmas utf8_bytes = and_masks tagged drop_bits

text \<open>The groups of bits of an encoding.\<close>

lemma cont_byte_low: "0 \<le> y \<Longrightarrow> y < 64 \<Longrightarrow> cont_byte (char_of (0x80 + y :: int)) = Some y"
  using of_char_byte [of "0x80 + y"] by (simp add: cont_byte_def del: of_char_of)

lemma utf8_value_groups:
  fixes y z v w :: int
  assumes "0 \<le> z" "z < 64" "0 \<le> v" "v < 64" "0 \<le> w" "w < 64"
  shows "0 \<le> y \<Longrightarrow> y < 32 \<Longrightarrow> 0x80 \<le> y * 64 + z \<Longrightarrow>
      utf8_value [char_of (0xC0 + y), char_of (0x80 + z)] = Some (y * 64 + z)"
    and "0 \<le> y \<Longrightarrow> y < 16 \<Longrightarrow> u = (y * 64 + z) * 64 + v \<Longrightarrow> 0x800 \<le> u \<Longrightarrow> u < 0xD800 \<or> 0xE000 \<le> u \<Longrightarrow>
      utf8_value [char_of (0xE0 + y), char_of (0x80 + z), char_of (0x80 + v)] = Some u"
    and "0 \<le> y \<Longrightarrow> y < 8 \<Longrightarrow> u = ((y * 64 + z) * 64 + v) * 64 + w \<Longrightarrow> 0x10000 \<le> u \<Longrightarrow> u < 0x110000 \<Longrightarrow>
      utf8_value [char_of (0xF0 + y), char_of (0x80 + z), char_of (0x80 + v), char_of (0x80 + w)] = Some u"
  using assms of_char_byte [of "0xC0 + y"] of_char_byte [of "0xE0 + y"] of_char_byte [of "0xF0 + y"]
  by (simp_all add: cont_byte_low Let_def del: of_char_of) linarith

text \<open>A number is put together again from its groups of six bits.\<close>

lemma six_bits:
  fixes x :: int
  assumes "0 \<le> x"
  shows "x < 0x800 \<Longrightarrow> x div 64 mod 32 * 64 + x mod 64 = x"
    and "x < 0x10000 \<Longrightarrow> (x div 4096 mod 16 * 64 + x div 64 mod 64) * 64 + x mod 64 = x"
    and "x < 0x200000 \<Longrightarrow>
      ((x div 262144 mod 8 * 64 + x div 4096 mod 64) * 64 + x div 64 mod 64) * 64 + x mod 64 = x"
proof -
  have d: "x div 4096 = x div 64 div 64" "x div 262144 = x div 64 div 64 div 64"
    by (simp_all flip: zdiv_zmult2_eq)
  have e: "x = 64 * (x div 64) + x mod 64" "x div 64 = 64 * (x div 64 div 64) + x div 64 mod 64"
    "x div 64 div 64 = 64 * (x div 64 div 64 div 64) + x div 64 div 64 mod 64"
    by simp_all
  have q: "0 \<le> y div 64" if "0 \<le> y" for y :: int using that by simp
  have m: "0 \<le> x mod 64" "0 \<le> x div 64 mod 64" "0 \<le> x div 64 div 64 mod 64"
    "0 \<le> x div 64" "0 \<le> x div 64 div 64" "0 \<le> x div 64 div 64 div 64"
    by (rule pos_mod_sign, simp)+ (intro q assms)+
  show "x div 64 mod 32 * 64 + x mod 64 = x" if "x < 0x800"
  proof -
    have "x div 64 < 32" using that e(1) m(1) by linarith
    then have "x div 64 mod 32 = x div 64" using m(4) by simp
    then show ?thesis by simp
  qed
  show "(x div 4096 mod 16 * 64 + x div 64 mod 64) * 64 + x mod 64 = x" if "x < 0x10000"
  proof -
    have "x div 64 div 64 < 16" using that e(1,2) m(1,2) by linarith
    then have "x div 4096 mod 16 = x div 64 div 64" using m(5) unfolding d by simp
    then show ?thesis by (simp only: div_mult_mod_eq)
  qed
  show "((x div 262144 mod 8 * 64 + x div 4096 mod 64) * 64 + x div 64 mod 64) * 64 + x mod 64 = x"
    if "x < 0x200000"
  proof -
    have "x div 64 div 64 div 64 < 8" using that e m(1,2,3) by linarith
    then have "x div 262144 mod 8 = x div 64 div 64 div 64" using m(6) unfolding d by simp
    then show ?thesis by (simp only: d(1) div_mult_mod_eq)
  qed
qed

definition scalar_value :: "int \<Rightarrow> bool" where
  "scalar_value code \<longleftrightarrow> 0 \<le> code \<and> (code < 0xD800 \<or> 0xE000 \<le> code \<and> code < 0x110000)"

text \<open>\<open>to_utf8\<close> produces the UTF-8 encoding of every Unicode scalar value, and nothing for
  surrogates and for numbers beyond Unicode.\<close>

theorem to_utf8_correct:
  assumes "0 \<le> cp"
  shows "if scalar_value cp then utf8_value (to_utf8 cp) = Some cp else to_utf8 cp = []"
proof -
  consider "cp < 0x80" | "0x80 \<le> cp" "cp < 0x800"
    | "0x800 \<le> cp" "cp < 0x10000" "cp < 0xD800 \<or> 0xE000 \<le> cp"
    | "0x10000 \<le> cp" "cp < 0x110000" | "\<not> scalar_value cp"
    using assms by (fastforce simp: scalar_value_def)
  note cases = this
  have r: "0 \<le> y mod 64" "y mod 64 < 64" and r16: "0 \<le> y mod 16" "y mod 16 < 16"
    and r8: "0 \<le> y mod 8" "y mod 8 < 8" for y :: int by simp_all
  from cases show ?thesis
  proof cases
    case 1
    have "(of_char (char_of cp) :: int) = cp" by (rule of_char_byte) (use assms 1 in linarith)+
    with 1 assms show ?thesis by (simp add: to_utf8_def scalar_value_def and_masks)
  next
    case 2
    have "to_utf8 cp = [char_of (0xC0 OR (drop_bit 6 cp AND 0x1F)), char_of (0x80 OR (cp AND 0x3F))]"
      using 2 by (simp add: to_utf8_def)
    then have e: "to_utf8 cp = [char_of (0xC0 + cp div 64 mod 32), char_of (0x80 + cp mod 64)]"
      by (simp only: utf8_bytes)
    have "utf8_value (to_utf8 cp) = Some (cp div 64 mod 32 * 64 + cp mod 64)"
      unfolding e by (rule utf8_value_groups(1) [where v = 0 and w = 0])
        (use six_bits(1) [OF assms 2(2)] 2(1) in simp_all)
    with six_bits(1) [OF assms 2(2)] 2 show ?thesis by (simp add: scalar_value_def)
  next
    case 3
    have "to_utf8 cp = [char_of (0xE0 OR (drop_bit 12 cp AND 0xF)),
        char_of (0x80 OR (drop_bit 6 cp AND 0x3F)), char_of (0x80 OR (cp AND 0x3F))]"
      using 3 by (auto simp: to_utf8_def)
    then have e: "to_utf8 cp = [char_of (0xE0 + cp div 4096 mod 16), char_of (0x80 + cp div 64 mod 64),
        char_of (0x80 + cp mod 64)]"
      by (simp only: utf8_bytes)
    have "utf8_value (to_utf8 cp) = Some cp"
      unfolding e by (rule utf8_value_groups(2) [where w = 0])
        (intro r r16 six_bits(2) [OF assms 3(2), symmetric] 3 order_refl zero_less_numeral)+
    with 3 assms show ?thesis by (auto simp: scalar_value_def)
  next
    case 4
    have "to_utf8 cp = [char_of (0xF0 OR (drop_bit 18 cp AND 0x7)), char_of (0x80 OR (drop_bit 12 cp AND 0x3F)),
        char_of (0x80 OR (drop_bit 6 cp AND 0x3F)), char_of (0x80 OR (cp AND 0x3F))]"
      using 4 by (simp add: to_utf8_def)
    then have e: "to_utf8 cp = [char_of (0xF0 + cp div 262144 mod 8), char_of (0x80 + cp div 4096 mod 64),
        char_of (0x80 + cp div 64 mod 64), char_of (0x80 + cp mod 64)]"
      by (simp only: utf8_bytes)
    have lt: "cp < 0x200000" using 4 by simp
    have "utf8_value (to_utf8 cp) = Some cp"
      unfolding e by (rule utf8_value_groups(3))
        (intro r r8 six_bits(3) [OF assms lt, symmetric] 4)+
    with 4 show ?thesis by (simp add: scalar_value_def)
  next
    case 5
    with assms show ?thesis by (auto simp: to_utf8_def scalar_value_def)
  qed
qed


theorem to_utf8_correct_witness:
  "utf8_value (to_utf8 0x20AC) = Some 0x20AC"
  using to_utf8_correct [of "0x20AC"] by (simp add: scalar_value_def)

end
