(* ===== verification/HT_Client.thy ===== *)
theory HT_Client
  imports HT_Message HT_Url
begin

text \<open>
  \<open>httplib::Client\<close> (src/libs/httplib.h): connecting, writing a request, reading the response.

  \<^item> The operating system is a parameter: what \<open>getaddrinfo\<close>, \<open>socket\<close>, \<open>connect\<close> and
    \<open>select\<close> return. Opening and closing descriptors is recorded as a list of events.
  \<^item> The request and the response are passed by reference in the code; here the functions
    return them.
  \<^item> The library is built without \<open>CPPHTTPLIB_ZLIB_SUPPORT\<close>.
\<close>

subsection \<open>Sockets\<close>

datatype fd_event = Opened int | Closed int

text \<open>One result of \<open>getaddrinfo\<close>, with what \<open>socket\<close> returns for it.\<close>

fun create_socket :: "(int \<Rightarrow> 'a \<Rightarrow> bool \<times> fd_event list) \<Rightarrow> (int \<times> 'a) list \<Rightarrow>
    (int \<times> 'a) option \<times> fd_event list" where
  "create_socket fn [] = (None, [])"
| "create_socket fn ((sock, rp) # rps) =
     (if sock = -1 then create_socket fn rps
      else let (ok, evs) = fn sock rp in
        if ok then (Some (sock, rp), Opened sock # evs)
        else let (res, evs') = create_socket fn rps in
          (res, Opened sock # evs @ [Closed sock] @ evs'))"

text \<open>
  How \<open>connect\<close> ends: its result, \<open>errno\<close>, what \<open>select\<close> returns on the socket, whether it
  reports the socket readable or writable, the result and the value of
  \<open>getsockopt(SO_ERROR)\<close>, and the stream that is then connected.
\<close>

record 's connection =
  connect_ret :: int
  connect_errno :: int
  select_ret :: int
  fd_isset :: bool
  getsockopt_ret :: int
  so_error :: int
  connected :: 's

definition is_connection_error :: "'s connection \<Rightarrow> bool" where
  "is_connection_error c = (connect_errno c \<noteq> 115)"

definition wait_until_socket_is_ready :: "'s connection \<Rightarrow> bool" where
  "wait_until_socket_is_ready c =
     (if select_ret c < 0 then False
      else if fd_isset c then \<not> (getsockopt_ret c < 0 \<or> so_error c \<noteq> 0)
      else False)"

definition connect_fn :: "int \<Rightarrow> 's connection \<Rightarrow> bool \<times> fd_event list" where
  "connect_fn sock ai =
     (if connect_ret ai < 0 \<and> (is_connection_error ai \<or> \<not> wait_until_socket_is_ready ai)
      then (False, [Closed sock]) else (True, []))"

type_synonym 's network = "string \<Rightarrow> int \<Rightarrow> (int \<times> 's connection) list option"

record client =
  cl_host :: string
  cl_port :: int
  cl_timeout_sec :: int
  cl_host_and_port :: string

definition int_to_string :: "int \<Rightarrow> string" where
  "int_to_string n = (if n < 0 then CHR ''-'' # to_string (nat (- n)) else to_string (nat n))"

text \<open>\<open>make_range_header\<close> from the bounds of the ranges, of which the last may be open.\<close>

definition range_separator :: "string \<Rightarrow> string" where
  "range_separator field = (if field = [] then [] else '', '')"

fun make_range_header_core :: "string \<Rightarrow> int list \<Rightarrow> string" where
  "make_range_header_core field [] = field"
| "make_range_header_core field [v] = field @ range_separator field @ int_to_string v @ ''-''"
| "make_range_header_core field (v1 # v2 # args) =
     make_range_header_core (field @ range_separator field @ int_to_string v1 @ ''-'' @ int_to_string v2) args"

definition make_range_header :: "int list \<Rightarrow> string \<times> string" where
  "make_range_header args = (''Range'', ''bytes='' @ make_range_header_core [] args)"

definition to_lower :: "string \<Rightarrow> string" where
  "to_lower s = map tolower s"

definition Client :: "string \<Rightarrow> int \<Rightarrow> int \<Rightarrow> client" where
  "Client hst prt timeout_sec = \<lparr>cl_host = hst, cl_port = prt, cl_timeout_sec = timeout_sec,
     cl_host_and_port = hst @ '':'' @ int_to_string prt\<rparr>"

definition create_client_socket :: "'s network \<Rightarrow> client \<Rightarrow> (int \<times> 's connection) option \<times> fd_event list" where
  "create_client_socket N cl =
     (case N (cl_host cl) (cl_port cl) of
        None \<Rightarrow> (None, [])
      | Some rps \<Rightarrow> create_socket connect_fn rps)"

text \<open>
  \<open>detail::read_and_close_socket\<close> with the variables its callback refers to; the last result
  says whether the socket was closed: an exception passes \<open>close_socket\<close>.
\<close>

fun keep_alive_loop :: "('s \<Rightarrow> bool \<times> 's) \<Rightarrow> (bool \<Rightarrow> 'a \<Rightarrow> 's \<Rightarrow> ((bool \<times> bool \<times> 'a) \<times> 's) result) \<Rightarrow>
    nat \<Rightarrow> bool \<Rightarrow> 'a \<Rightarrow> 's \<Rightarrow> ((bool \<times> 'a) \<times> 's) result" where
  "keep_alive_loop select_read cb 0 ret a s = Inr ((ret, a), s)"
| "keep_alive_loop select_read cb (Suc n) ret a s =
     (let (readable, s1) = select_read s in
      if \<not> readable then Inr ((ret, a), s1)
      else bindE (cb (n = 0) a s1) (\<lambda>((ret', connection_close, a'), s2).
        if \<not> ret' \<or> connection_close then Inr ((ret', a'), s2)
        else keep_alive_loop select_read cb n ret' a' s2))"

definition read_and_close_socket :: "('s \<Rightarrow> bool \<times> 's) \<Rightarrow> nat \<Rightarrow>
    (bool \<Rightarrow> 'a \<Rightarrow> 's \<Rightarrow> ((bool \<times> bool \<times> 'a) \<times> 's) result) \<Rightarrow> 'a \<Rightarrow> 's \<Rightarrow>
    ((bool \<times> 'a) \<times> 's) result \<times> bool" where
  "read_and_close_socket select_read keep_alive_max_count cb a s =
     (let m = (if keep_alive_max_count > 0
               then keep_alive_loop select_read cb keep_alive_max_count False a s
               else bindE (cb True a s) (\<lambda>((ret, _, a'), s'). Inr ((ret, a'), s')))
      in (m, case m of Inr _ \<Rightarrow> True | Inl _ \<Rightarrow> False))"

subsection \<open>Request and response\<close>

text \<open>The expression \<open>(HTTP/1\.[01]) (\d+?) .+\r\n\<close>.\<close>

definition response_rx :: rx where
  "response_rx = Cat (Group 1 (Cat (lit ''HTTP/1.'') (One (\<lambda>c. c = CHR ''0'' \<or> c = CHR ''1''))))
     (Cat (lit '' '') (Cat (Group 2 (Rep True 1 isdigit))
     (Cat (lit '' '') (Cat (Rep False 1 dot) (lit crlf)))))"

definition parse_response_line :: "string \<Rightarrow> http_response \<Rightarrow> http_response result" where
  "parse_response_line l res =
     (case regex_match response_rx l of
        None \<Rightarrow> Inr res
      | Some m \<Rightarrow> bindE (stoi 10 (sub_match m 2)) (\<lambda>st.
          Inr (res\<lparr>res_version := sub_match m 1, res_status := st\<rparr>)))"

definition read_response_line :: "'s stream_ops \<Rightarrow> http_response \<Rightarrow> 's \<Rightarrow>
    ((bool \<times> http_response) \<times> 's) result" where
  "read_response_line S res s =
     bindE (next_line S (stream_line_reader (uninit 2048)) s) (\<lambda>((l, r), s').
       case l of
         None \<Rightarrow> Inr ((False, res), s')
       | Some t \<Rightarrow> bindE (parse_response_line t res) (\<lambda>res'. Inr ((True, res'), s')))"

text \<open>The headers that \<open>write_request\<close> sets, in its order.\<close>

definition set_default_header :: "string \<Rightarrow> string \<Rightarrow> http_request \<Rightarrow> http_request" where
  "set_default_header key val req = (if req_has_header req key then req else req_set_header key val req)"

definition request_headers :: "client \<Rightarrow> http_request \<Rightarrow> http_request" where
  "request_headers cl req =
     (let r1 = req_set_header ''Host'' (cl_host_and_port cl) req;
          r2 = set_default_header ''Accept'' ''*/*'' r1;
          r3 = set_default_header ''User-Agent'' ''cpp-httplib/0.2'' r2;
          r4 = req_set_header ''Connection'' ''close'' r3
      in if req_body r4 = []
         then (if req_method r4 = ''POST'' \<or> req_method r4 = ''PUT''
               then req_set_header ''Content-Length'' ''0'' r4 else r4)
         else req_set_header ''Content-Length'' (to_string (length (req_body r4)))
                (set_default_header ''Content-Type'' ''text/plain'' r4))"

definition request_buffer :: "http_request \<Rightarrow> http_request \<Rightarrow> string" where
  "request_buffer req req' =
     (let b1 = write_format buffer_ops
                 (c_str (req_method req) @ '' '' @ c_str (encode_url (req_path req)) @ '' HTTP/1.1'' @ crlf) [];
          b2 = write_headers buffer_ops (req_headers req') b1
      in if req_body req' = [] then b2 else snd (s_write buffer_ops b2 (req_body req')))"

definition write_request :: "'s stream_ops \<Rightarrow> client \<Rightarrow> http_request \<Rightarrow> 's \<Rightarrow> http_request \<times> 's" where
  "write_request S cl req s =
     (let req' = request_headers cl req in (req', snd (s_write S s (request_buffer req req'))))"

definition connection_closes :: "http_response \<Rightarrow> bool" where
  "connection_closes res \<longleftrightarrow>
     res_get_header_value res ''Connection'' = ''close'' \<or> res_version res = ''HTTP/1.0''"

text \<open>\<open>process_request\<close> returns its result, \<open>connection_close\<close>, the request and the response.\<close>

definition Client_process_request :: "'s stream_ops \<Rightarrow> client \<Rightarrow> http_request \<times> http_response \<Rightarrow> 's \<Rightarrow>
    ((bool \<times> bool \<times> http_request \<times> http_response) \<times> 's) result" where
  "Client_process_request S cl rr s =
     (let (req, res) = rr; (req', s1) = write_request S cl req s in
      bindE (read_response_line S res s1) (\<lambda>((ok1, res1), s2).
      if \<not> ok1 then Inr ((False, False, req', res1), s2)
      else bindE (read_headers S (res_headers res1) s2) (\<lambda>((ok2, hs), s3).
      let res2 = res1\<lparr>res_headers := hs\<rparr> in
      if \<not> ok2 then Inr ((False, False, req', res2), s3)
      else let close = connection_closes res2 in
      if req_method req' = ''HEAD'' then Inr ((True, close, req', res2), s3)
      else bindE (read_content S (res_headers res2) (res_body res2) (req_progress req') s3)
        (\<lambda>((ok3, bdy), s4).
        let res3 = res2\<lparr>res_body := bdy\<rparr> in
        Inr ((ok3 \<and> res_get_header_value res3 ''Content-Encoding'' \<noteq> ''gzip'', close, req', res3), s4)))))"

subsection \<open>send and the methods\<close>

definition Client_send :: "'s network \<Rightarrow> 's stream_ops \<Rightarrow> client \<Rightarrow> http_request \<Rightarrow> http_response \<Rightarrow>
    (bool \<times> http_request \<times> http_response) result \<times> fd_event list" where
  "Client_send N S cl req res =
     (if req_path req = [] then (Inr (False, req, res), [])
      else case create_client_socket N cl of
        (None, evs) \<Rightarrow> (Inr (False, req, res), evs)
      | (Some (sock, ai), evs) \<Rightarrow>
          let (m, closed) = read_and_close_socket (\<lambda>s. (True, s)) 0
                (\<lambda>_. Client_process_request S cl) (req, res) (connected ai)
          in (bindE m (\<lambda>((ok, req', res'), s). Inr (ok, req', res')),
              evs @ (if closed then [Closed sock] else [])))"

definition send_response :: "'s network \<Rightarrow> 's stream_ops \<Rightarrow> client \<Rightarrow> http_request \<Rightarrow>
    http_response option result \<times> fd_event list" where
  "send_response N S cl req =
     (let (m, evs) = Client_send N S cl req Response
      in (bindE m (\<lambda>(ok, _, res). Inr (if ok then Some res else None)), evs))"

definition Client_Get :: "'s network \<Rightarrow> 's stream_ops \<Rightarrow> client \<Rightarrow> string \<Rightarrow> headers \<Rightarrow> progress option \<Rightarrow>
    http_response option result \<times> fd_event list" where
  "Client_Get N S cl path hs progress = send_response N S cl
     (Request\<lparr>req_method := ''GET'', req_path := c_str path, req_headers := hs, req_progress := progress\<rparr>)"

definition Client_Head :: "'s network \<Rightarrow> 's stream_ops \<Rightarrow> client \<Rightarrow> string \<Rightarrow> headers \<Rightarrow>
    http_response option result \<times> fd_event list" where
  "Client_Head N S cl path hs = send_response N S cl
     (Request\<lparr>req_method := ''HEAD'', req_headers := hs, req_path := c_str path\<rparr>)"

definition body_request :: "string \<Rightarrow> string \<Rightarrow> headers \<Rightarrow> string \<Rightarrow> string \<Rightarrow> http_request" where
  "body_request mthd path hs bdy content_type =
     Request\<lparr>req_method := mthd, req_path := c_str path,
       req_headers := mm_emplace ci ''Content-Type'' (c_str content_type) hs, req_body := bdy\<rparr>"

definition Client_Post :: "'s network \<Rightarrow> 's stream_ops \<Rightarrow> client \<Rightarrow> string \<Rightarrow> headers \<Rightarrow> string \<Rightarrow> string \<Rightarrow>
    http_response option result \<times> fd_event list" where
  "Client_Post N S cl path hs bdy content_type =
     send_response N S cl (body_request ''POST'' path hs bdy content_type)"

definition Client_Put :: "'s network \<Rightarrow> 's stream_ops \<Rightarrow> client \<Rightarrow> string \<Rightarrow> headers \<Rightarrow> string \<Rightarrow> string \<Rightarrow>
    http_response option result \<times> fd_event list" where
  "Client_Put N S cl path hs bdy content_type =
     send_response N S cl (body_request ''PUT'' path hs bdy content_type)"

fun query_of :: "params \<Rightarrow> string" where
  "query_of [] = []"
| "query_of [(k, v)] = k @ ''='' @ v"
| "query_of ((k, v) # ps) = k @ ''='' @ v @ ''&'' @ query_of ps"

definition Client_Post_params :: "'s network \<Rightarrow> 's stream_ops \<Rightarrow> client \<Rightarrow> string \<Rightarrow> headers \<Rightarrow> params \<Rightarrow>
    http_response option result \<times> fd_event list" where
  "Client_Post_params N S cl path hs ps =
     Client_Post N S cl path hs (query_of ps) ''application/x-www-form-urlencoded''"

definition Client_Delete :: "'s network \<Rightarrow> 's stream_ops \<Rightarrow> client \<Rightarrow> string \<Rightarrow> headers \<Rightarrow>
    http_response option result \<times> fd_event list" where
  "Client_Delete N S cl path hs = send_response N S cl
     (Request\<lparr>req_method := ''DELETE'', req_path := c_str path, req_headers := hs\<rparr>)"

definition Client_Options :: "'s network \<Rightarrow> 's stream_ops \<Rightarrow> client \<Rightarrow> string \<Rightarrow> headers \<Rightarrow>
    http_response option result \<times> fd_event list" where
  "Client_Options N S cl path hs = send_response N S cl
     (Request\<lparr>req_method := ''OPTIONS'', req_path := c_str path, req_headers := hs\<rparr>)"

subsection \<open>The response depends on the bytes alone\<close>

definition ref_response_line :: "http_response \<Rightarrow> string \<Rightarrow> ending \<Rightarrow>
    ((bool \<times> http_response) \<times> string) result" where
  "ref_response_line res bs e =
     bindE (ref_line bs e) (\<lambda>(l, rest).
       case l of
         None \<Rightarrow> Inr ((False, res), rest)
       | Some t \<Rightarrow> bindE (parse_response_line t res) (\<lambda>res'. Inr ((True, res'), rest)))"

definition ref_process :: "client \<Rightarrow> http_request \<times> http_response \<Rightarrow> string \<Rightarrow> ending \<Rightarrow>
    ((bool \<times> bool \<times> http_request \<times> http_response) \<times> string) result" where
  "ref_process cl rr bs e =
     (let (req, res) = rr; req' = request_headers cl req in
      bindE (ref_response_line res bs e) (\<lambda>((ok1, res1), b2).
      if \<not> ok1 then Inr ((False, False, req', res1), b2)
      else bindE (ref_headers (res_headers res1) b2 e) (\<lambda>((ok2, hs), b3).
      let res2 = res1\<lparr>res_headers := hs\<rparr> in
      if \<not> ok2 then Inr ((False, False, req', res2), b3)
      else let close = connection_closes res2 in
      if req_method req' = ''HEAD'' then Inr ((True, close, req', res2), b3)
      else bindE (ref_read_content (res_headers res2) (res_body res2) b3 e)
        (\<lambda>((ok3, bdy), b4).
        let res3 = res2\<lparr>res_body := bdy\<rparr> in
        Inr ((ok3 \<and> res_get_header_value res3 ''Content-Encoding'' \<noteq> ''gzip'', close, req', res3), b4)))))"

lemma set_header_fields [simp]:
  "req_method (req_set_header k v req) = req_method req"
  "req_progress (req_set_header k v req) = req_progress req"
  "req_body (req_set_header k v req) = req_body req"
  "req_method (set_default_header k v req) = req_method req"
  "req_progress (set_default_header k v req) = req_progress req"
  "req_body (set_default_header k v req) = req_body req"
  by (simp_all add: req_set_header_def set_default_header_def)

lemma request_headers_fields [simp]:
  "req_method (request_headers cl req) = req_method req"
  "req_progress (request_headers cl req) = req_progress req"
  "req_body (request_headers cl req) = req_body req"
  by (simp_all add: request_headers_def Let_def)

text \<open>A channel: writing does not change what is to be read.\<close>

locale byte_channel = byte_source +
  assumes write_bytes [simp]: "bytes (snd (s_write S s d)) = bytes s"
    and write_ending [simp]: "ending (snd (s_write S s d)) = ending s"
begin

lemma read_response_line_ref:
  "agrees (read_response_line S res s) (ref_response_line res (bytes s) (ending s)) (ending s)"
proof -
  have buf: "length (fixed_buffer (stream_line_reader (uninit 2048))) = 2048" "1 < (2048::nat)" by simp_all
  from next_line_ref [OF buf, of s] show ?thesis
  proof (cases rule: line_agrees_cases)
    case (line l r' s')
    then show ?thesis
      by (cases "parse_response_line l res")
        (auto simp: read_response_line_def ref_response_line_def agrees_Inr)
  qed (auto simp: read_response_line_def ref_response_line_def agrees_Inr)
qed

lemma process_request_ref:
  assumes "goes_on (req_progress req)"
  shows "agrees (Client_process_request S cl (req, res) s)
    (ref_process cl (req, res) (bytes s) (ending s)) (ending s)"
proof -
  let ?req = "request_headers cl req"
  have content: "agrees (read_content S hs bdy (req_progress req) s') (ref_read_content hs bdy (bytes s') e) e"
    if "ending s' = e" for hs bdy s' e
    using read_content_ref [of "req_progress req" hs bdy s'] assms that by simp
  have hdrs: "agrees (read_headers S hs s') (ref_headers hs (bytes s') e) e" if "ending s' = e" for hs s' e
    using read_headers_ref [of hs s'] that by simp
  obtain s1 where s1: "write_request S cl req s = (?req, s1)" "bytes s1 = bytes s" "ending s1 = ending s"
    by (simp add: write_request_def Let_def)
  have line: "agrees (read_response_line S res s1) (ref_response_line res (bytes s) (ending s)) (ending s)"
    using read_response_line_ref [of res s1] s1(2,3) by simp
  show ?thesis
    unfolding Client_process_request_def ref_process_def Let_def prod.case s1(1)
    by (rule agrees_bind [OF line], simp split: prod.splits)
      (auto simp: agrees_Inr intro!: agrees_bind hdrs content)
qed

text \<open>What \<open>send\<close> makes of a connection whose socket is a channel.\<close>

lemma send_response_ref:
  assumes "goes_on (req_progress req)" "req_path req \<noteq> []"
    "create_client_socket N cl = (Some (sock, ai), evs)"
  shows "send_response N S cl req =
    (case ref_process cl (req, Response) (bytes (connected ai)) (ending (connected ai)) of
       Inl f \<Rightarrow> (Inl f, evs)
     | Inr ((ok, _, _, res), _) \<Rightarrow> (Inr (if ok then Some res else None), evs @ [Closed sock]))"
  using process_request_ref [OF assms(1), of cl Response "connected ai"] assms(2,3)
  by (auto simp: send_response_def Client_send_def read_and_close_socket_def agrees_def
      split: sum.splits prod.splits)

end

lemma socket_write_fields [simp]:
  "inbox (snd (s_write socket_ops s d)) = inbox s"
  "sock_end (snd (s_write socket_ops s d)) = sock_end s"
  "sent (snd (s_write socket_ops s d)) = sent s @ d"
  by (simp_all add: socket_ops_def)

interpretation socket: byte_channel socket_ops "\<lambda>s. concat (inbox s)" sock_end
  by unfold_locales simp_all

subsection \<open>Status lines\<close>

lemma http_version_rx:
  assumes "d = CHR ''0'' \<or> d = CHR ''1''"
  shows "rx_run (Cat (Group g (Cat (lit ''HTTP/1.'') (One (\<lambda>c. c = CHR ''0'' \<or> c = CHR ''1'')))) q)
     (''HTTP/1.'' @ d # t) k = rx_run q t (\<lambda>ds. k ((g, ''HTTP/1.'' @ [d]) # ds))"
proof -
  have "length (''HTTP/1.'' @ d # t) - length t = 8" by simp
  moreover have "take 8 (''HTTP/1.'' @ d # t) = ''HTTP/1.'' @ [d]" by simp
  ultimately show ?thesis
    using assms by (simp only: rx_run.simps(1,2,4,7) rx_run_lit) simp
qed

lemma digits_then:
  assumes "ds \<noteq> []" "\<And>c. c \<in> set ds \<Longrightarrow> isdigit c" "\<not> isdigit x"
    and "K [(g, ds)] (x # t) = Some y"
    and stuck: "\<And>cs c r. isdigit c \<Longrightarrow> K cs (c # r) = None"
  shows "rx_run (Group g (Rep True 1 isdigit)) (ds @ x # t) K = Some y"
  unfolding rx_run.simps(7)
proof (rule rx_run_lazy [where n = "length ds"])
  show "1 \<le> length ds" using assms(1) by (simp add: Suc_le_eq)
  show "length ds \<le> length (takeWhile isdigit (ds @ x # t))" using assms(2,3) by simp
  show "K ((g, take (length (ds @ x # t) - length (drop i (ds @ x # t))) (ds @ x # t)) # []) (drop i (ds @ x # t)) = None"
    if i: "i < length ds" for i
  proof -
    have d: "drop i (ds @ x # t) = ds ! i # drop (Suc i) (ds @ x # t)"
      using i by (simp add: Cons_nth_drop_Suc)
    show ?thesis unfolding d by (rule stuck) (use i assms(2) in simp)
  qed
  show "K ((g, take (length (ds @ x # t) - length (drop (length ds) (ds @ x # t))) (ds @ x # t)) # [])
      (drop (length ds) (ds @ x # t)) = Some y"
    unfolding take_cut using assms(4) by simp
qed

lemma regex_response_line:
  assumes "d = CHR ''0'' \<or> d = CHR ''1''" "ds \<noteq> []" "\<And>c. c \<in> set ds \<Longrightarrow> isdigit c"
    and "reason \<noteq> []" "\<And>c. c \<in> set reason \<Longrightarrow> dot c"
  shows "regex_match response_rx (''HTTP/1.'' @ d # CHR '' '' # ds @ CHR '' '' # reason @ crlf) =
    Some [(1, ''HTTP/1.'' @ [d]), (2, ds)]"
proof -
  let ?fin = "\<lambda>cs rest. if rest = [] then Some cs else None"
  have tail: "rx_run (Cat (Rep False 1 dot) (lit crlf)) (reason @ crlf) K = Some y"
    if K: "K [] [] = Some y" for K and y :: captures
    unfolding rx_run.simps(4)
  proof (rule rx_run_greedy [where n = "length reason"])
    show "1 \<le> length reason" using assms(4) by (simp add: Suc_le_eq)
    show "length reason \<le> length (takeWhile dot (reason @ crlf))" using assms(5) by simp
    show "rx_run (lit crlf) (drop i (reason @ crlf)) (\<lambda>ds. K ([] @ ds)) = None"
      if "length reason < i" "i \<le> length (takeWhile dot (reason @ crlf))" for i
      using that assms(5) by simp
    show "rx_run (lit crlf) (drop (length reason) (reason @ crlf)) (\<lambda>ds. K ([] @ ds)) = Some y"
      using K by simp
  qed
  have sp: "\<not> isdigit (CHR '' '')" by (simp add: isdigit_def)
  have "rx_run (Cat (Group 2 (Rep True 1 isdigit)) (Cat (lit '' '') (Cat (Rep False 1 dot) (lit crlf))))
      (ds @ CHR '' '' # reason @ crlf) (\<lambda>es. ?fin ((1, ''HTTP/1.'' @ [d]) # [] @ es)) = Some [(1, ''HTTP/1.'' @ [d]), (2, ds)]"
    unfolding rx_run.simps(4) [where p = "Group _ _"]
  proof (rule digits_then [OF assms(2,3) sp])
    show "rx_run (Cat (lit '' '') (Cat (Rep False 1 dot) (lit crlf))) (CHR '' '' # reason @ crlf)
       (\<lambda>dsa. ?fin ((1, ''HTTP/1.'' @ [d]) # [] @ [(2, ds)] @ dsa)) = Some [(1, ''HTTP/1.'' @ [d]), (2, ds)]"
      unfolding rx_run.simps(4) [where p = "lit _"] rx_run_lit1 if_P [OF refl]
      by (rule tail) simp
  qed (auto simp: rx_run_lit1 isdigit_def)
  then show ?thesis
    unfolding regex_match_def response_rx_def
    by (simp only: http_version_rx [OF assms(1)] rx_run.simps(4) [where p = "lit '' ''"] rx_run_lit1 if_True simp_thms)
qed

subsection \<open>Connections and descriptors\<close>

text \<open>C19: What the client makes of a response depends on the bytes the socket delivers and on how
  it ends, and not on the segments in which the bytes arrive.\<close>

theorem response_independent_of_segments:
  assumes "concat (inbox s) = concat (inbox t)" "sock_end s = sock_end t" "goes_on (req_progress req)"
  shows "map_sum id fst (Client_process_request socket_ops cl (req, res) s) =
         map_sum id fst (Client_process_request socket_ops cl (req, res) t)"
  using socket.process_request_ref [OF assms(3), of cl res s]
    socket.process_request_ref [OF assms(3), of cl res t] assms(1,2)
  by (cases "ref_process cl (req, res) (concat (inbox t)) (sock_end t)")
    (auto simp: socket.agrees_def)

theorem response_independent_of_segments_witness:
  "map_sum id fst (Client_process_request socket_ops (Client ''gw'' 80 300) (Request, Response)
      \<lparr>inbox = [''HTTP/1.1 2'', ''00 OK'' @ crlf, crlf], sock_end = Closes, sent = [], peer_addr = []\<rparr>) =
   map_sum id fst (Client_process_request socket_ops (Client ''gw'' 80 300) (Request, Response)
      \<lparr>inbox = [''HTTP/1.1 200 OK'' @ crlf @ crlf], sock_end = Closes, sent = [], peer_addr = []\<rparr>)"
  by (rule response_independent_of_segments) (simp_all add: Request_def)

definition refused :: "int \<times> 's connection \<Rightarrow> bool" where
  "refused rp \<longleftrightarrow> fst rp \<noteq> -1 \<and> connect_ret (snd rp) < 0 \<and>
     (is_connection_error (snd rp) \<or> \<not> wait_until_socket_is_ready (snd rp))"

text \<open>A socket that cannot be connected is closed twice, by the lambda of
  \<open>create_client_socket\<close> and by \<open>create_socket\<close>: when every address of the host is refused, no
  socket is returned and each one opened is closed two times.\<close>

theorem refused_sockets_closed_twice:
  assumes "N (cl_host cl) (cl_port cl) = Some rps" "\<forall>rp \<in> set rps. refused rp"
  shows "create_client_socket N cl =
    (None, concat (map (\<lambda>(sock, _). [Opened sock, Closed sock, Closed sock]) rps))"
proof -
  have "create_socket connect_fn rps =
      (None, concat (map (\<lambda>(sock, _). [Opened sock, Closed sock, Closed sock]) rps))"
    using assms(2)
  proof (induction rps)
    case (Cons rp rps)
    obtain sock ai where "rp = (sock, ai)" by (cases rp)
    with Cons show ?case by (simp add: refused_def connect_fn_def)
  qed simp
  with assms(1) show ?thesis by (simp add: create_client_socket_def)
qed

theorem refused_sockets_closed_twice_witness:
  "create_client_socket (\<lambda>_ _. Some [(7, \<lparr>connect_ret = -1, connect_errno = 111, select_ret = 0,
       fd_isset = False, getsockopt_ret = 0, so_error = 0, connected = ()\<rparr>)]) (Client ''gw'' 80 300) =
   (None, [Opened 7, Closed 7, Closed 7])"
  by (subst refused_sockets_closed_twice [where rps = "[(7, \<lparr>connect_ret = -1, connect_errno = 111, select_ret = 0,
       fd_isset = False, getsockopt_ret = 0, so_error = 0, connected = ()\<rparr>)]"])
    (simp_all add: refused_def is_connection_error_def)

text \<open>The socket of a request is closed exactly when the response could be read to a result: an
  exception while reading it (a length that is no number, for instance) or a stall leaves the
  descriptor open.\<close>

theorem socket_closed_unless_fault:
  assumes "path \<noteq> []" "NUL \<notin> set path" "create_client_socket N cl = (Some (sock, ai), evs)"
  shows "snd (Client_Get N socket_ops cl path hs None) =
    (case fst (Client_Get N socket_ops cl path hs None) of
       Inl _ \<Rightarrow> evs
     | Inr _ \<Rightarrow> evs @ [Closed sock])"
proof -
  let ?req = "Request\<lparr>req_method := ''GET'', req_path := c_str path, req_headers := hs, req_progress := None\<rparr>"
  have "goes_on (req_progress ?req)" "req_path ?req \<noteq> []" using assms(1,2) by simp_all
  from socket.send_response_ref [OF this assms(3)] show ?thesis
    by (simp add: Client_Get_def split: sum.splits prod.splits)
qed

definition garbage_length :: sock where
  "garbage_length = \<lparr>inbox = [''HTTP/1.1 200 OK'' @ crlf @ ''Content-Length: x'' @ crlf @ crlf],
     sock_end = Closes, sent = [], peer_addr = []\<rparr>"

definition direct_network :: "'s \<Rightarrow> 's network" where
  "direct_network s = (\<lambda>_ _. Some [(7, \<lparr>connect_ret = 0, connect_errno = 0, select_ret = 1, fd_isset = True,
     getsockopt_ret = 0, so_error = 0, connected = s\<rparr>)])"

lemma direct_network_socket:
  "create_client_socket (direct_network s) cl = (Some (7, \<lparr>connect_ret = 0, connect_errno = 0,
     select_ret = 1, fd_isset = True, getsockopt_ret = 0, so_error = 0, connected = s\<rparr>), [Opened 7])"
  by (simp add: create_client_socket_def direct_network_def connect_fn_def)

theorem socket_closed_unless_fault_witness:
  "snd (Client_Get (direct_network garbage_length) socket_ops (Client ''gw'' 80 300) ''/api'' [] None) =
    (case fst (Client_Get (direct_network garbage_length) socket_ops (Client ''gw'' 80 300) ''/api'' [] None) of
       Inl _ \<Rightarrow> [Opened 7]
     | Inr _ \<Rightarrow> [Opened 7] @ [Closed 7])"
  by (rule socket_closed_unless_fault [OF _ _ direct_network_socket]) simp_all

end
