(* ===== verification/HT_Server.thy ===== *)
theory HT_Server
  imports HT_Client
begin

text \<open>
  \<open>httplib::Server\<close> (src/libs/httplib.h), the peer of the client in the tests: reading a
  request, finding a handler, writing the response.

  \<^item> Handlers, the file system and streamed bodies are parameters.
  \<^item> \<open>write_response\<close> and \<open>process_request\<close> run on any stream; accepting connections and the
    threads are in HT_Listen.
\<close>

subsection \<open>Paths and files\<close>

text \<open>
  \<open>is_valid_path\<close>: the loop reads one component after another; \<open>level\<close> counts how deep the
  path is below its start. A component is never empty (\<open>assert(len > 0)\<close>), slashes having been
  skipped before it.
\<close>

function valid_components :: "nat \<Rightarrow> string \<Rightarrow> bool" where
  "valid_components level p =
     (if p = [] then True
      else let part = takeWhile (\<lambda>c. c \<noteq> CHR ''/'') p;
               rest = dropWhile (\<lambda>c. c = CHR ''/'') (dropWhile (\<lambda>c. c \<noteq> CHR ''/'') p)
        in if part = [] then False
           else if part = ''.'' then valid_components level rest
           else if part = ''..'' then (if level = 0 then False else valid_components (level - 1) rest)
           else valid_components (level + 1) rest)"
  by pat_completeness auto
termination
proof (relation "measure (\<lambda>(l, p). length p)", goal_cases)
  case 1
  show ?case by simp
next
  have shorter: "length (dropWhile P (dropWhile Q p)) < length p" if "takeWhile Q p \<noteq> []" for P Q and p :: string
  proof -
    have "length (dropWhile P (dropWhile Q p)) \<le> length (dropWhile Q p)" by (rule length_dropWhile_le)
    moreover have "length (takeWhile Q p) + length (dropWhile Q p) = length p"
      by (metis length_append takeWhile_dropWhile_id)
    ultimately show ?thesis using that by (cases "takeWhile Q p") auto
  qed
  {
    case 2
    then show ?case using shorter by simp
  next
    case 3
    then show ?case using shorter by simp
  next
    case 4
    then show ?case using shorter by simp
  }
qed

declare valid_components.simps [simp del]

definition is_valid_path :: "string \<Rightarrow> bool" where
  "is_valid_path path = valid_components 0 (dropWhile (\<lambda>c. c = CHR ''/'') path)"

definition isalnum :: "char \<Rightarrow> bool" where
  "isalnum c = (let k = (of_char c :: nat) in
     (48 \<le> k \<and> k \<le> 57) \<or> (65 \<le> k \<and> k \<le> 90) \<or> (97 \<le> k \<and> k \<le> 122))"

text \<open>\<open>regex_search\<close> for \<open>\.([a-zA-Z0-9]+)$\<close>: a dot and letters or digits up to the end.\<close>

definition file_extension :: "string \<Rightarrow> string" where
  "file_extension path =
     (let ext = takeWhile isalnum (rev path); rest = dropWhile isalnum (rev path)
      in if ext \<noteq> [] \<and> rest \<noteq> [] \<and> rest ! 0 = CHR ''.'' then rev ext else [])"

definition find_content_type :: "string \<Rightarrow> string option" where
  "find_content_type path =
     (let ext = file_extension path in
      if ext = ''txt'' then Some ''text/plain''
      else if ext = ''html'' then Some ''text/html''
      else if ext = ''css'' then Some ''text/css''
      else if ext = ''jpeg'' \<or> ext = ''jpg'' then Some ''image/jpg''
      else if ext = ''png'' then Some ''image/png''
      else if ext = ''gif'' then Some ''image/gif''
      else if ext = ''svg'' then Some ''image/svg+xml''
      else if ext = ''ico'' then Some ''image/x-icon''
      else if ext = ''json'' then Some ''application/json''
      else if ext = ''pdf'' then Some ''application/pdf''
      else if ext = ''js'' then Some ''application/javascript''
      else if ext = ''xml'' then Some ''application/xml''
      else if ext = ''xhtml'' then Some ''application/xhtml+xml''
      else None)"

text \<open>The file system by the C strings it is asked with: \<open>is_file\<close>, \<open>is_dir\<close>, and the bytes
  that \<open>read_file\<close> reads.\<close>

record file_system =
  fs_is_file :: "string \<Rightarrow> bool"
  fs_is_dir :: "string \<Rightarrow> bool"
  fs_content :: "string \<Rightarrow> string"

subsection \<open>The server\<close>

type_synonym http_handler = "http_request \<Rightarrow> http_response \<Rightarrow> http_response"

record server =
  keep_alive_max_count :: nat
  is_running :: bool
  svr_sock :: int
  base_dir :: string
  get_handlers :: "(rx \<times> http_handler) list"
  post_handlers :: "(rx \<times> http_handler) list"
  put_handlers :: "(rx \<times> http_handler) list"
  delete_handlers :: "(rx \<times> http_handler) list"
  options_handlers :: "(rx \<times> http_handler) list"
  error_handler :: "http_handler option"

definition Server :: server where
  "Server = \<lparr>keep_alive_max_count = 5, is_running = False, svr_sock = -1, base_dir = [],
     get_handlers = [], post_handlers = [], put_handlers = [], delete_handlers = [],
     options_handlers = [], error_handler = None\<rparr>"

definition Server_Get :: "rx \<Rightarrow> http_handler \<Rightarrow> server \<Rightarrow> server" where
  "Server_Get pattern handler srv = srv\<lparr>get_handlers := get_handlers srv @ [(pattern, handler)]\<rparr>"

definition Server_Post :: "rx \<Rightarrow> http_handler \<Rightarrow> server \<Rightarrow> server" where
  "Server_Post pattern handler srv = srv\<lparr>post_handlers := post_handlers srv @ [(pattern, handler)]\<rparr>"

definition Server_Put :: "rx \<Rightarrow> http_handler \<Rightarrow> server \<Rightarrow> server" where
  "Server_Put pattern handler srv = srv\<lparr>put_handlers := put_handlers srv @ [(pattern, handler)]\<rparr>"

definition Server_Delete :: "rx \<Rightarrow> http_handler \<Rightarrow> server \<Rightarrow> server" where
  "Server_Delete pattern handler srv = srv\<lparr>delete_handlers := delete_handlers srv @ [(pattern, handler)]\<rparr>"

definition Server_Options :: "rx \<Rightarrow> http_handler \<Rightarrow> server \<Rightarrow> server" where
  "Server_Options pattern handler srv = srv\<lparr>options_handlers := options_handlers srv @ [(pattern, handler)]\<rparr>"

definition set_base_dir :: "file_system \<Rightarrow> string \<Rightarrow> server \<Rightarrow> bool \<times> server" where
  "set_base_dir fs path srv =
     (if fs_is_dir fs (c_str path) then (True, srv\<lparr>base_dir := c_str path\<rparr>) else (False, srv))"

definition set_error_handler :: "http_handler \<Rightarrow> server \<Rightarrow> server" where
  "set_error_handler handler srv = srv\<lparr>error_handler := Some handler\<rparr>"

definition set_keep_alive_max_count :: "nat \<Rightarrow> server \<Rightarrow> server" where
  "set_keep_alive_max_count n srv = srv\<lparr>keep_alive_max_count := n\<rparr>"

subsection \<open>Requests\<close>

text \<open>The expression \<open>(GET|HEAD|POST|PUT|DELETE|OPTIONS) (([^?]+)(?:\?(.+?))?) (HTTP/1\.[01])\r\n\<close>.\<close>

definition method_rx :: rx where
  "method_rx = Alt (lit ''GET'') (Alt (lit ''HEAD'') (Alt (lit ''POST'') (Alt (lit ''PUT'')
     (Alt (lit ''DELETE'') (lit ''OPTIONS'')))))"

definition request_rx :: rx where
  "request_rx = Cat (Group 1 method_rx) (Cat (lit '' '')
     (Cat (Group 2 (Cat (Group 3 (Rep False 1 (\<lambda>c. c \<noteq> CHR ''?'')))
        (Opt (Cat (lit ''?'') (Group 4 (Rep True 1 dot))))))
     (Cat (lit '' '')
     (Cat (Group 5 (Cat (lit ''HTTP/1.'') (One (\<lambda>c. c = CHR ''0'' \<or> c = CHR ''1''))))
     (lit crlf)))))"

definition parse_request_line :: "string \<Rightarrow> http_request \<Rightarrow> http_request option" where
  "parse_request_line s req =
     (case regex_match request_rx s of
        None \<Rightarrow> None
      | Some m \<Rightarrow>
          let req1 = req\<lparr>req_version := sub_match m 5, req_method := sub_match m 1,
                         req_target := sub_match m 2, req_path := decode_url (sub_match m 3)\<rparr>
          in Some (if length (sub_match m 4) > 0
                   then req1\<lparr>req_params := parse_query_text (sub_match m 4) (req_params req1)\<rparr>
                   else req1))"

definition handle_file_request :: "file_system \<Rightarrow> server \<Rightarrow> http_request \<Rightarrow> http_response \<Rightarrow>
    bool \<times> http_response" where
  "handle_file_request fs srv req res =
     (if base_dir srv \<noteq> [] \<and> is_valid_path (req_path req)
      then let path0 = base_dir srv @ req_path req;
               path = (if path0 \<noteq> [] \<and> last path0 = CHR ''/'' then path0 @ ''index.html'' else path0)
        in if fs_is_file fs (c_str path)
           then let res1 = res\<lparr>res_body := fs_content fs (c_str path)\<rparr>;
                    res2 = (case find_content_type path of
                              Some t \<Rightarrow> res_set_header ''Content-Type'' t res1 | None \<Rightarrow> res1)
             in (True, res2\<lparr>res_status := 200\<rparr>)
           else (False, res)
      else (False, res))"

fun dispatch_request :: "http_request \<Rightarrow> http_response \<Rightarrow> (rx \<times> http_handler) list \<Rightarrow>
    bool \<times> http_request \<times> http_response" where
  "dispatch_request req res [] = (False, req, res)"
| "dispatch_request req res ((pattern, handler) # hs) =
     (case regex_match pattern (req_path req) of
        Some m \<Rightarrow> let req' = req\<lparr>req_matches := m\<rparr> in (True, req', handler req' res)
      | None \<Rightarrow> dispatch_request (req\<lparr>req_matches := []\<rparr>) res hs)"

definition routing :: "file_system \<Rightarrow> server \<Rightarrow> http_request \<Rightarrow> http_response \<Rightarrow>
    bool \<times> http_request \<times> http_response" where
  "routing fs srv req res =
     (let (found, res') = (if req_method req = ''GET'' then handle_file_request fs srv req res else (False, res)) in
      if found then (True, req, res')
      else if req_method req = ''GET'' \<or> req_method req = ''HEAD'' then dispatch_request req res' (get_handlers srv)
      else if req_method req = ''POST'' then dispatch_request req res' (post_handlers srv)
      else if req_method req = ''PUT'' then dispatch_request req res' (put_handlers srv)
      else if req_method req = ''DELETE'' then dispatch_request req res' (delete_handlers srv)
      else if req_method req = ''OPTIONS'' then dispatch_request req res' (options_handlers srv)
      else (False, req, res'))"

subsection \<open>Responses\<close>

text \<open>\<open>write_response\<close> up to the headers.\<close>

definition response_headers :: "bool \<Rightarrow> http_request \<Rightarrow> http_response \<Rightarrow> http_response" where
  "response_headers last_connection req res =
     (let r1 = (if last_connection \<or> req_get_header_value req ''Connection'' = ''close''
                then res_set_header ''Connection'' ''close'' res else res);
          r2 = (if \<not> last_connection \<and> req_get_header_value req ''Connection'' = ''Keep-Alive''
                then res_set_header ''Connection'' ''Keep-Alive'' r1 else r1)
      in if res_body r2 = []
         then (if res_has_header r2 ''Content-Length'' then r2
               else if res_streamcb r2 \<noteq> None then res_set_header ''Transfer-Encoding'' ''chunked'' r2
               else res_set_header ''Content-Length'' ''0'' r2)
         else res_set_header ''Content-Length'' (to_string (length (res_body r2)))
                (if res_has_header r2 ''Content-Type'' then r2
                 else res_set_header ''Content-Type'' ''text/plain'' r2))"

text \<open>One round of the loop over a streamed body writes one chunk.\<close>

definition stream_chunk :: "bool \<Rightarrow> string \<Rightarrow> string" where
  "stream_chunk chunked_response chunk =
     (if chunked_response then from_i_to_hex (length chunk) @ crlf @ chunk @ crlf else chunk)"

partial_function (option) stream_loop :: "'s stream_ops \<Rightarrow> (nat \<Rightarrow> string) \<Rightarrow> bool \<Rightarrow> nat \<Rightarrow> 's \<Rightarrow> 's option" where
  "stream_loop S cb chunked_response offset s =
     (let chunk = cb offset;
          (n, s') = s_write S s (stream_chunk chunked_response chunk)
      in if n < 0 then Some s'
         else if chunk = [] then Some s'
         else stream_loop S cb chunked_response (offset + length chunk) s')"

definition write_body :: "'s stream_ops \<Rightarrow> http_request \<Rightarrow> http_response \<Rightarrow> 's \<Rightarrow> 's result" where
  "write_body S req res s =
     (if req_method req = ''HEAD'' then Inr s
      else if res_body res \<noteq> [] then Inr (snd (s_write S s (res_body res)))
      else case res_streamcb res of
        None \<Rightarrow> Inr s
      | Some cb \<Rightarrow>
          (case stream_loop S cb (\<not> res_has_header res ''Content-Length'') 0 s of
             None \<Rightarrow> Inl Diverges | Some s' \<Rightarrow> Inr s'))"

definition write_response :: "'s stream_ops \<Rightarrow> server \<Rightarrow> bool \<Rightarrow> http_request \<Rightarrow> http_response \<Rightarrow> 's \<Rightarrow>
    (http_response \<times> 's) result" where
  "write_response S srv last_connection req res s =
     (if res_status res = -1 then Inl (Aborts ''assert'')
      else let res1 = (case error_handler srv of
                         Some h \<Rightarrow> if 400 \<le> res_status res then h req res else res
                       | None \<Rightarrow> res);
               s1 = write_format S (''HTTP/1.1 '' @ int_to_string (res_status res1) @ '' '' @
                      status_message (res_status res1) @ crlf) s;
               res2 = response_headers last_connection req res1;
               s2 = write_headers S (res_headers res2) s1
        in bindE (write_body S req res2 s2) (\<lambda>s3. Inr (res2, s3)))"

subsection \<open>Form data\<close>

text \<open>\<open>std::string::find\<close> of a text from a position.\<close>

fun find_sub :: "string \<Rightarrow> string \<Rightarrow> nat option" where
  "find_sub needle [] = (if needle = [] then Some 0 else None)"
| "find_sub needle (c # s) = (if is_prefix needle (c # s) then Some 0 else map_option Suc (find_sub needle s))"

definition find_from :: "string \<Rightarrow> nat \<Rightarrow> string \<Rightarrow> nat option" where
  "find_from needle pos s =
     (if pos > length s then None else map_option ((+) pos) (find_sub needle (drop pos s)))"

definition substr :: "string \<Rightarrow> nat \<Rightarrow> nat \<Rightarrow> string" where
  "substr s pos n = take n (drop pos s)"

fun lit_icase :: "string \<Rightarrow> rx" where
  "lit_icase [] = Empty"
| "lit_icase (c # cs) = Cat (One (\<lambda>x. tolower x = tolower c)) (lit_icase cs)"

definition content_type_rx :: rx where
  "content_type_rx = Cat (lit_icase ''Content-Type: '') (Group 1 (Rep True 0 dot))"

definition content_disposition_rx :: rx where
  "content_disposition_rx =
     Cat (lit_icase (''Content-Disposition: form-data; name='' @ [CHR 0x22]))
     (Cat (Group 1 (Rep True 0 dot)) (Cat (lit [CHR 0x22])
     (Opt (Cat (lit_icase (''; filename='' @ [CHR 0x22])) (Cat (Group 2 (Rep True 0 dot)) (lit [CHR 0x22]))))))"

definition parse_multipart_boundary :: "string \<Rightarrow> string option" where
  "parse_multipart_boundary content_type =
     (case find_from ''boundary='' 0 content_type of
        None \<Rightarrow> None | Some pos \<Rightarrow> Some (drop (pos + 9) content_type))"

definition part_header :: "string \<Rightarrow> string \<times> multipart_file \<Rightarrow> string \<times> multipart_file" where
  "part_header header nf =
     (let (name, f) = nf in
      case regex_match content_type_rx header of
        Some m \<Rightarrow> (name, f\<lparr>mf_content_type := sub_match m 1\<rparr>)
      | None \<Rightarrow> (case regex_match content_disposition_rx header of
            Some m \<Rightarrow> (sub_match m 1, f\<lparr>mf_filename := sub_match m 2\<rparr>)
          | None \<Rightarrow> (name, f)))"

text \<open>The inner loop over the headers of a part; no result inside the option stands for
  \<open>return false\<close>.\<close>

partial_function (option) part_headers_loop :: "string \<Rightarrow> nat \<Rightarrow> nat \<Rightarrow> string \<Rightarrow> string \<times> multipart_file \<Rightarrow>
    (nat \<times> string \<times> multipart_file) option option" where
  "part_headers_loop body pos next_pos header nf =
     (if pos = next_pos then Some (Some (next_pos, nf))
      else let nf' = part_header header nf; pos' = next_pos + 2 in
        (case find_from crlf pos' body of
           None \<Rightarrow> Some None
         | Some next' \<Rightarrow> part_headers_loop body pos' next' (substr body pos' (next' - pos')) nf'))"

partial_function (option) parts_loop :: "string \<Rightarrow> string \<Rightarrow> nat \<Rightarrow> (string \<times> multipart_file) list \<Rightarrow>
    (bool \<times> (string \<times> multipart_file) list) option" where
  "parts_loop dash_boundary body pos files =
     (if pos \<ge> length body then Some (True, files)
      else (case find_from crlf pos body of
          None \<Rightarrow> Some (False, files)
        | Some next_pos \<Rightarrow>
            (case part_headers_loop body pos next_pos (substr body pos (next_pos - pos)) ([], MultipartFile) of
               None \<Rightarrow> None
             | Some None \<Rightarrow> Some (False, files)
             | Some (Some (hend, name, f)) \<Rightarrow>
                 (let start = hend + 2 in
                  (case find_from (crlf @ dash_boundary) start body of
                     None \<Rightarrow> Some (False, files)
                   | Some stop \<Rightarrow>
                       (let f' = f\<lparr>mf_offset := start, mf_length := stop - start\<rparr> in
                        (case find_from crlf (stop + 2 + length dash_boundary) body of
                           None \<Rightarrow> Some (False, files)
                         | Some next2 \<Rightarrow>
                             parts_loop dash_boundary body (next2 + 2) (mm_emplace str_less name f' files))))))))"

definition parse_multipart_formdata :: "string \<Rightarrow> string \<Rightarrow> (string \<times> multipart_file) list \<Rightarrow>
    (bool \<times> (string \<times> multipart_file) list) result" where
  "parse_multipart_formdata boundary body files =
     (let dash_boundary = ''--'' @ boundary in
      if find_from dash_boundary 0 body \<noteq> Some 0 then Inr (False, files)
      else case find_from crlf (length dash_boundary) body of
          None \<Rightarrow> Inr (False, files)
        | Some next_pos \<Rightarrow>
            (case parts_loop dash_boundary body (next_pos + 2) files of
               None \<Rightarrow> Inl Diverges | Some r \<Rightarrow> Inr r))"

subsection \<open>process_request\<close>

definition respond :: "'s stream_ops \<Rightarrow> server \<Rightarrow> bool \<Rightarrow> bool \<Rightarrow> http_request \<Rightarrow> http_response \<Rightarrow> 's \<Rightarrow>
    ((bool \<times> bool) \<times> 's) result" where
  "respond S srv last_connection connection_close req res s =
     bindE (write_response S srv last_connection req res s) (\<lambda>(_, s'). Inr ((True, connection_close), s'))"

text \<open>The body of a POST or PUT: \<open>Some\<close> status is an error answer.\<close>

definition request_body :: "'s stream_ops \<Rightarrow> http_request \<Rightarrow> 's \<Rightarrow> ((int option \<times> http_request) \<times> 's) result" where
  "request_body S req s =
     bindE (read_content S (req_headers req) (req_body req) None s) (\<lambda>((ok, bdy), s').
     let req1 = req\<lparr>req_body := bdy\<rparr>; content_type = req_get_header_value req1 ''Content-Type'' in
     if \<not> ok then Inr ((Some 400, req1), s')
     else if req_get_header_value req1 ''Content-Encoding'' = ''gzip'' then Inr ((Some 415, req1), s')
     else if is_prefix ''application/x-www-form-urlencoded'' content_type
     then Inr ((None, req1\<lparr>req_params := parse_query_text bdy (req_params req1)\<rparr>), s')
     else if is_prefix ''multipart/form-data'' content_type
     then (case parse_multipart_boundary content_type of
             None \<Rightarrow> Inr ((Some 400, req1), s')
           | Some boundary \<Rightarrow>
               bindE (parse_multipart_formdata boundary bdy (req_files req1)) (\<lambda>(ok2, files).
                 Inr ((if ok2 then None else Some 400, req1\<lparr>req_files := files\<rparr>), s')))
     else Inr ((None, req1), s'))"

definition route_and_respond :: "file_system \<Rightarrow> 's stream_ops \<Rightarrow> server \<Rightarrow> bool \<Rightarrow> bool \<Rightarrow> http_request \<Rightarrow>
    http_response \<Rightarrow> 's \<Rightarrow> ((bool \<times> bool) \<times> 's) result" where
  "route_and_respond fs S srv last_connection close req res s =
     (let (found, req1, res1) = routing fs srv req res;
          res2 = (if found then (if res_status res1 = -1 then res1\<lparr>res_status := 200\<rparr> else res1)
                  else res1\<lparr>res_status := 404\<rparr>)
      in respond S srv last_connection close req1 res2 s)"

definition Server_process_request :: "file_system \<Rightarrow> 's stream_ops \<Rightarrow> server \<Rightarrow> bool \<Rightarrow> 's \<Rightarrow>
    ((bool \<times> bool) \<times> 's) result" where
  "Server_process_request fs S srv last_connection s =
     bindE (next_line S (stream_line_reader (uninit 2048)) s) (\<lambda>((l, r), s1).
     case l of
       None \<Rightarrow> Inr ((False, False), s1)
     | Some line \<Rightarrow>
         let res = Response\<lparr>res_version := ''HTTP/1.1''\<rparr> in
         (case parse_request_line line Request of
            None \<Rightarrow> respond S srv last_connection False Request (res\<lparr>res_status := 400\<rparr>) s1
          | Some req0 \<Rightarrow>
              bindE (read_headers S (req_headers req0) s1) (\<lambda>((ok, hs), s2).
              let req1 = req0\<lparr>req_headers := hs\<rparr> in
              if \<not> ok then respond S srv last_connection False req1 (res\<lparr>res_status := 400\<rparr>) s2
              else
                let close = (req_get_header_value req1 ''Connection'' = ''close'');
                    req2 = req_set_header ''REMOTE_ADDR'' (s_remote_addr S s2) req1
                in bindE (if req_method req2 = ''POST'' \<or> req_method req2 = ''PUT''
                          then request_body S req2 s2 else Inr ((None, req2), s2)) (\<lambda>((err, req3), s3).
                case err of
                  Some st \<Rightarrow> respond S srv last_connection close req3 (res\<lparr>res_status := st\<rparr>) s3
                | None \<Rightarrow> route_and_respond fs S srv last_connection close req3 res s3))))"

definition Server_read_and_close_socket :: "file_system \<Rightarrow> ('s \<Rightarrow> bool \<times> 's) \<Rightarrow> 's stream_ops \<Rightarrow> server \<Rightarrow> 's \<Rightarrow>
    ((bool \<times> unit) \<times> 's) result \<times> bool" where
  "Server_read_and_close_socket fs select_read S srv s =
     read_and_close_socket select_read (keep_alive_max_count srv)
       (\<lambda>last_connection _ s. bindE (Server_process_request fs S srv last_connection s)
          (\<lambda>((ret, close), s'). Inr ((ret, close, ()), s'))) () s"

end
