(* ===== verification/HT_RoundTrip.thy ===== *)
theory HT_RoundTrip
  imports HT_Server
begin

text \<open>
  The two ends of src/libs/httplib.h against each other: what \<open>Server::write_response\<close> writes,
  \<open>Client::process_request\<close> reads back, and what the client writes for a request, the server's
  parser reads. Everything is stated on sockets that deliver the bytes in arbitrary segments;
  it rests on the references of HT_Message and HT_Client.
\<close>

subsection \<open>What the server writes\<close>

text \<open>A sink takes what is written.\<close>

locale byte_sink =
  fixes S :: "'s stream_ops" and written :: "'s \<Rightarrow> string"
  assumes write_written [simp]: "written (snd (s_write S s d)) = written s @ d"
    and write_succeeds: "0 \<le> fst (s_write S s d)"
begin

lemma write_format_written [simp]: "written (write_format S f s) = written s @ f"
  by (simp add: write_format_all)

lemma write_header_lines_written:
  "headers_clean hs \<Longrightarrow> written (write_header_lines S hs s) = written s @ header_text hs"
proof (induction hs arbitrary: s)
  case (Cons x hs)
  obtain k v where x: "x = (k, v)" by (cases x)
  have "headers_clean hs" "c_str k = k" "c_str v = v"
    using Cons.prems by (auto simp: x headers_clean_def header_name_def header_value_def)
  with Cons.IH show ?case by (simp add: x header_text_def)
qed (simp add: header_text_def)

lemma write_headers_written:
  "headers_clean hs \<Longrightarrow> written (write_headers S hs s) = written s @ header_text hs @ crlf"
  by (simp add: write_headers_def write_header_lines_written)

end

interpretation buffer: byte_sink buffer_ops "\<lambda>b. b"
  by unfold_locales (simp_all add: buffer_ops_def)

interpretation socket_out: byte_sink socket_ops sent
  by unfold_locales (simp_all add: socket_ops_def)

definition headers_good :: "headers \<Rightarrow> bool" where
  "headers_good hs \<longleftrightarrow> headers_clean hs \<and> mm_sorted ci hs"

lemma headers_good_ok: "headers_good hs \<Longrightarrow> headers_ok hs"
  by (auto simp: headers_good_def headers_ok_def headers_clean_def header_name_def header_value_def)

lemma headers_good_set:
  assumes "headers_good hs" "header_name k" "header_value v"
  shows "headers_good (set_header k v hs)"
proof -
  have "c_str k = k" "c_str v = v" using assms(2,3) by (simp_all add: header_name_def header_value_def)
  with assms show ?thesis
    by (auto simp: headers_good_def set_header_def headers.emplace_sorted headers_clean_def)
qed

lemma to_string_value: "header_value (to_string n)"
proof -
  have c: "c \<noteq> CR \<and> c \<noteq> LF \<and> c \<noteq> NUL \<and> \<not> isspace c" if "c \<in> set (to_string n)" for c
    using to_string_digits [OF that] by (auto simp: isspace_def)
  have "to_string n ! 0 \<in> set (to_string n)" "last (to_string n) \<in> set (to_string n)"
    by (rule nth_mem, simp, rule last_in_set, simp)
  with c show ?thesis unfolding header_value_def by (metis to_string_nonempty)
qed

lemma server_header_names:
  "header_name ''Connection''" "header_name ''Content-Length''" "header_name ''Transfer-Encoding''"
  "header_name ''Content-Type''" "header_value ''close''" "header_value ''Keep-Alive''"
  "header_value ''chunked''" "header_value ''0''" "header_value ''text/plain''"
  by (simp_all add: header_name_def header_value_def isspace_def)

lemma response_headers_good:
  assumes "headers_good (res_headers res)"
  shows "headers_good (res_headers (response_headers last_connection req res))"
  using assms
  by (simp add: response_headers_def Let_def res_set_header_def headers_good_set server_header_names
      to_string_value)

lemma response_headers_fields [simp]:
  "res_body (response_headers last_connection req res) = res_body res"
  "res_status (response_headers last_connection req res) = res_status res"
  "res_streamcb (response_headers last_connection req res) = res_streamcb res"
  by (simp_all add: response_headers_def Let_def res_set_header_def)

text \<open>Other headers are as the handler set them, and the length is that of the body.\<close>

lemma find_response_headers:
  assumes "headers_good (res_headers res)"
    and "map tolower k \<notin> set [''connection'', ''content-length'', ''transfer-encoding'', ''content-type'']"
  shows "mm_find ci k (res_headers (response_headers last_connection req res)) = mm_find ci k (res_headers res)"
proof -
  have skip: "mm_find ci k (set_header j v hs) = mm_find ci k hs"
    if "headers_good hs" "NUL \<notin> set j" "map tolower j \<noteq> map tolower k" for j v hs
    using mm_find_set_header [OF headers_good_ok [OF that(1)] that(2), of k v] that(3) by simp
  have names: "map tolower ''Connection'' = ''connection''" "map tolower ''Content-Length'' = ''content-length''"
    "map tolower ''Transfer-Encoding'' = ''transfer-encoding''" "map tolower ''Content-Type'' = ''content-type''"
    by code_simp+
  have ne: "map tolower ''Connection'' \<noteq> map tolower k" "map tolower ''Content-Length'' \<noteq> map tolower k"
    "map tolower ''Transfer-Encoding'' \<noteq> map tolower k" "map tolower ''Content-Type'' \<noteq> map tolower k"
    using assms(2) unfolding names by auto
  show ?thesis
    using assms(1) ne
    by (simp add: response_headers_def Let_def res_set_header_def skip headers_good_set server_header_names
        to_string_value del: list.map)
qed

subsection \<open>What the client reads back\<close>

definition status_line :: "int \<Rightarrow> string" where
  "status_line st = ''HTTP/1.1 '' @ int_to_string st @ '' '' @ status_message st @ crlf"

lemma status_message_text: "status_message st \<noteq> []" "c \<in> set (status_message st) \<Longrightarrow> dot c"
  "c \<in> set (status_message st) \<Longrightarrow> c \<noteq> NUL"
  by (auto simp: status_message.simps [of st] dot_def split: if_splits)

lemma to_string_isdigit: "c \<in> set (to_string n) \<Longrightarrow> isdigit c"
  using to_string_digits [of c n] by (simp add: isdigit_def)

lemma parse_status_line:
  assumes "0 \<le> st" "st < 2 ^ 31"
  shows "parse_response_line (status_line st) res = Inr (res\<lparr>res_version := ''HTTP/1.1'', res_status := st\<rparr>)"
proof -
  let ?ds = "to_string (nat st)"
  have line: "status_line st = ''HTTP/1.'' @ CHR ''1'' # CHR '' '' # ?ds @ CHR '' '' # status_message st @ crlf"
    using assms(1) by (simp add: status_line_def int_to_string_def)
  have m: "regex_match response_rx (status_line st) = Some [(1, ''HTTP/1.'' @ [CHR ''1'']), (2, ?ds)]"
    unfolding line by (rule regex_response_line) (auto simp: to_string_isdigit status_message_text)
  have "stoi 10 ?ds = Inr st" using assms by (simp add: nat_less_iff)
  then show ?thesis unfolding parse_response_line_def m by (simp add: sub_match_def)
qed

lemma ref_line_status:
  assumes "0 \<le> st"
  shows "ref_line (status_line st @ rest) e = Inr (Some (status_line st), rest)"
proof -
  let ?l = "''HTTP/1.1 '' @ int_to_string st @ '' '' @ status_message st @ [CR]"
  have dig: "c \<noteq> LF \<and> c \<noteq> NUL" if "c \<in> set (int_to_string st)" for c
    using assms that to_string_digits [of c "nat st"] by (auto simp: int_to_string_def)
  have l: "LF \<notin> set ?l" "NUL \<notin> set (?l @ [LF])"
    using dig status_message_text(2,3) [of _ st] by (auto simp: dot_def)
  have "status_line st @ rest = ?l @ LF # rest" by (simp add: status_line_def)
  moreover have "c_str (?l @ [LF]) = status_line st"
    using c_str_id [OF l(2)] by (simp add: status_line_def)
  ultimately show ?thesis using ref_line_line [OF l(1), of rest e] by simp
qed

definition received_response :: "int \<Rightarrow> headers \<Rightarrow> string \<Rightarrow> http_response" where
  "received_response st hs bdy = \<lparr>res_version = ''HTTP/1.1'', res_status = st, res_headers = hs,
     res_body = bdy, res_streamcb = None\<rparr>"

lemma received_response_simps [simp]:
  "res_headers (received_response st hs bdy) = hs" "res_body (received_response st hs bdy) = bdy"
  "res_status (received_response st hs bdy) = st"
  "(received_response st hs bdy)\<lparr>res_headers := hs'\<rparr> = received_response st hs' bdy"
  "(received_response st hs bdy)\<lparr>res_body := bdy'\<rparr> = received_response st hs bdy'"
  "res_get_header_value (received_response st hs bdy) k = get_header_value hs k []"
  by (simp_all add: received_response_def res_get_header_value_def)

text \<open>The head of a message is read as it was written; what remains is the body.\<close>

lemma ref_process_head:
  assumes "0 \<le> st" "st < 2 ^ 31" "headers_good hs" "req_method req \<noteq> ''HEAD''"
  shows "ref_process cl (req, Response) (status_line st @ header_text hs @ crlf @ bs) e =
    bindE (ref_read_content hs [] bs e) (\<lambda>((ok, bdy), rest).
      Inr ((ok \<and> get_header_value hs ''Content-Encoding'' [] \<noteq> ''gzip'',
            connection_closes (received_response st hs []), request_headers cl req, received_response st hs bdy), rest))"
proof -
  have line: "ref_response_line Response (status_line st @ header_text hs @ crlf @ bs) e =
      Inr ((True, received_response st [] []), header_text hs @ crlf @ bs)"
    using ref_line_status [OF assms(1)] parse_status_line [OF assms(1,2), of Response]
    by (simp add: ref_response_line_def received_response_def Response_def)
  have "fold (\<lambda>(n, v). mm_emplace ci n v) hs [] = hs"
    using headers.fold_emplace_sorted [of "[]" hs] assms(3) by (simp add: headers_good_def)
  then have hdrs: "ref_headers [] (header_text hs @ crlf @ bs) e = Inr ((True, hs), bs)"
    using ref_headers_text [of hs "[]" bs e] assms(3) by (simp add: headers_good_def)
  show ?thesis
    by (simp only: ref_process_def prod.case Let_def line bindE_simps received_response_simps hdrs
        request_headers_fields assms(4) not_True_eq_False if_False)
qed

lemma ref_read_content_length:
  assumes "mm_find ci ''Content-Length'' hs = Some (to_string n)" "n < 2 ^ 31" "\<not> is_chunked hs"
    and "bs = bdy @ rest" "length bdy = n"
  shows "ref_read_content hs [] bs e = Inr ((True, bdy), rest)"
proof -
  have "size_of_int (int n) = n" using assms(2) by (simp add: size_of_int_def flip: of_nat_power_less_of_nat_cancel_iff)
  moreover have "\<not> n > string_max_size" using assms(2) by (simp add: string_max_size_def)
  ultimately show ?thesis
    using assms stoi_to_string [OF assms(2)]
    by (simp add: ref_read_content_def has_header_def get_header_value_int_def ref_content_def)
qed

primrec streams :: "(nat \<Rightarrow> string) \<Rightarrow> nat \<Rightarrow> string list \<Rightarrow> bool" where
  "streams cb offset [] = (cb offset = [])"
| "streams cb offset (p # ps) = (p \<noteq> [] \<and> cb offset = p \<and> streams cb (offset + length p) ps)"

definition chunk_text :: "string list \<Rightarrow> string" where
  "chunk_text ps = concat (map (stream_chunk True) ps) @ stream_chunk True []"

context byte_sink begin

lemma stream_loop_written:
  assumes "streams cb offset ps"
  obtains s' where "stream_loop S cb True offset s = Some s'" "written s' = written s @ chunk_text ps"
  using assms
proof (induction ps arbitrary: offset s thesis)
  case Nil
  then show ?case
    using write_succeeds [of s "stream_chunk True []"]
    by (intro Nil.prems(1) [of "snd (s_write S s (stream_chunk True []))"])
      (auto simp: stream_loop.simps [of S cb True offset s] chunk_text_def Let_def split: prod.splits)
next
  case (Cons p ps)
  let ?s = "snd (s_write S s (stream_chunk True p))"
  obtain s' where s': "stream_loop S cb True (offset + length p) ?s = Some s'"
    "written s' = written ?s @ chunk_text ps"
    using Cons.IH [of "offset + length p" ?s] Cons.prems(2) by auto
  have "stream_loop S cb True offset s = stream_loop S cb True (offset + length p) ?s"
    using Cons.prems(2) write_succeeds [of s "stream_chunk True p"]
    by (subst stream_loop.simps) (auto simp: Let_def split: prod.splits)
  with s' show ?case by (intro Cons.prems(1) [of s']) (simp_all add: chunk_text_def)
qed

text \<open>A response with a body is written as its status line, its headers and the body.\<close>

lemma write_response_written:
  assumes "write_response S srv last_connection req res s = Inr (res', s')"
    and "error_handler srv = None" "headers_good (res_headers res)" "req_method req \<noteq> ''HEAD''"
  shows "res' = response_headers last_connection req res"
    and "res_streamcb res = None \<Longrightarrow> written s' = written s @ status_line (res_status res) @
      header_text (res_headers res') @ crlf @ res_body res"
    and "res_streamcb res = Some cb \<Longrightarrow> res_body res = [] \<Longrightarrow> streams cb 0 ps \<Longrightarrow>
      \<not> res_has_header res' ''Content-Length'' \<Longrightarrow>
      written s' = written s @ status_line (res_status res) @
      header_text (res_headers res') @ crlf @ chunk_text ps"
proof -
  let ?res = "response_headers last_connection req res"
  let ?s1 = "write_headers S (res_headers ?res) (write_format S (status_line (res_status res)) s)"
  have line: "''HTTP/1.1 '' @ int_to_string st @ '' '' @ status_message st @ crlf = status_line st" for st
    by (simp add: status_line_def)
  have body: "write_body S req ?res ?s1 = Inr s'" and res': "res' = ?res"
    using assms(1,2) unfolding write_response_def line
    by (auto simp: Let_def bindE_eq_Inr split: if_splits)
  show "res' = ?res" by (rule res')
  have s1: "written ?s1 = written s @ status_line (res_status res) @ header_text (res_headers ?res) @ crlf"
    using response_headers_good [OF assms(3)] by (simp add: write_headers_written headers_good_def)
  show "written s' = written s @ status_line (res_status res) @ header_text (res_headers res') @ crlf @ res_body res"
    if "res_streamcb res = None"
    using body assms(4) s1 that by (cases "res_body res") (auto simp: write_body_def res')
  show "written s' = written s @ status_line (res_status res) @ header_text (res_headers res') @ crlf @ chunk_text ps"
    if cb: "res_streamcb res = Some cb" "res_body res = []" "streams cb 0 ps" "\<not> res_has_header res' ''Content-Length''"
  proof -
    obtain s2 where s2: "stream_loop S cb True 0 ?s1 = Some s2" "written s2 = written ?s1 @ chunk_text ps"
      using stream_loop_written [OF cb(3)] by blast
    with body cb assms(4) have "s' = s2" by (simp add: write_body_def res')
    with s2 s1 show ?thesis by (simp add: res')
  qed
qed

end

text \<open>Chunks are read as they were written.\<close>

lemma ref_line_crlf [simp]: "ref_line (CR # LF # rest) e = Inr (Some crlf, rest)"
  using ref_line_line [of "[CR]" rest e] by simp

lemma ref_line_hex: "ref_line (from_i_to_hex n @ CR # LF # rest) e = Inr (Some (from_i_to_hex n @ crlf), rest)"
proof -
  have "c \<noteq> LF \<and> c \<noteq> NUL" if "c \<in> set (from_i_to_hex n)" for c
    using from_i_to_hex_digits [OF that] hex_digits(5) by fastforce
  then have "LF \<notin> set (from_i_to_hex n @ [CR])" "NUL \<notin> set (from_i_to_hex n @ crlf)" by auto
  with ref_line_line [of "from_i_to_hex n @ [CR]" rest e] show ?thesis by simp
qed

lemma last_chunk:
  "ref_line (chunk_text [] @ rest) e = Inr (Some (''0'' @ crlf), crlf @ rest)"
  "stoi 16 (''0'' @ crlf) = Inr 0"
  "ref_chunks 0 out (crlf @ rest) e = Inr ((True, out), rest)"
proof -
  have zero: "from_i_to_hex 0 = ''0''" by (simp add: from_i_to_hex.simps hex_lower_def)
  show "ref_line (chunk_text [] @ rest) e = Inr (Some (''0'' @ crlf), crlf @ rest)"
    using ref_line_hex [of 0 "crlf @ rest" e] by (simp add: chunk_text_def stream_chunk_def zero)
  show "stoi 16 (''0'' @ crlf) = Inr 0" using stoi_hex_line [of 0] by (simp add: zero)
  show "ref_chunks 0 out (crlf @ rest) e = Inr ((True, out), rest)"
    by (subst ref_chunks.simps) (simp add: ref_chunk_end_def)
qed

lemma ref_chunks_text:
  assumes "p \<noteq> []" "\<forall>q \<in> set (p # ps). q \<noteq> [] \<and> length q < 2 ^ 31"
  shows "ref_chunks (int (length p)) out (p @ crlf @ chunk_text ps @ rest) e =
    Inr ((True, out @ concat (p # ps)), rest)"
  using assms
proof (induction ps arbitrary: p out)
  case Nil
  have big: "\<not> length p > string_max_size" using Nil.prems by (simp add: string_max_size_def)
  then show ?case
    using Nil.prems by (subst ref_chunks.simps) (simp add: ref_content_def last_chunk last_chunk [simplified])
next
  case (Cons q ps)
  have big: "\<not> length p > string_max_size" using Cons.prems by (simp add: string_max_size_def)
  have q: "length q < 2 ^ 31" "q \<noteq> []" using Cons.prems(2) by auto
  have IH: "ref_chunks (int (length q)) (out @ p) (q @ crlf @ chunk_text ps @ rest) e =
      Inr ((True, (out @ p) @ concat (q # ps)), rest)"
    using Cons.prems q(2) by (intro Cons.IH) auto
  have joined: "chunk_text (q # ps) @ rest = from_i_to_hex (length q) @ CR # LF # q @ crlf @ chunk_text ps @ rest"
    by (simp add: chunk_text_def stream_chunk_def)
  show ?case
    unfolding joined using Cons.prems big IH stoi_hex_line [OF q(1)]
    by (subst ref_chunks.simps) (simp add: ref_content_def ref_line_hex)
qed

lemma ref_chunked_text:
  assumes "\<forall>q \<in> set ps. q \<noteq> [] \<and> length q < 2 ^ 31"
  shows "ref_chunked out (chunk_text ps @ rest) e = Inr ((True, out @ concat ps), rest)"
proof (cases ps)
  case Nil
  show ?thesis by (simp add: Nil ref_chunked_def last_chunk last_chunk [simplified])
next
  case (Cons p ps')
  have joined: "chunk_text (p # ps') @ rest = from_i_to_hex (length p) @ CR # LF # p @ crlf @ chunk_text ps' @ rest"
    by (simp add: chunk_text_def stream_chunk_def)
  have "length p < 2 ^ 31" using assms Cons by simp
  from stoi_hex_line [OF this] ref_chunks_text [of p ps' out rest e] assms show ?thesis
    unfolding Cons ref_chunked_def joined ref_line_hex by simp
qed

lemma lower_names:
  "map tolower ''Connection'' = ''connection''" "map tolower ''Content-Length'' = ''content-length''"
  "map tolower ''Content-Type'' = ''content-type''" "map tolower ''Transfer-Encoding'' = ''transfer-encoding''"
  "map tolower ''Content-Encoding'' = ''content-encoding''"
  by code_simp+

lemma find_set_good:
  assumes "headers_good hs" "header_name j" "header_value v"
  shows "mm_find ci k (set_header j v hs) =
    (if map tolower j = map tolower k
     then (case mm_find ci k hs of None \<Rightarrow> Some v | Some w \<Rightarrow> Some w) else mm_find ci k hs)"
proof -
  have j: "NUL \<notin> set j" and v: "c_str v = v" using assms(2,3) by (simp_all add: header_name_def header_value_def)
  show ?thesis using mm_find_set_header [OF headers_good_ok [OF assms(1)] j, of k v] unfolding v .
qed

lemmas response_lookup = response_headers_def Let_def res_set_header_def res_has_header_def has_header_def
  find_set_good headers_good_set server_header_names to_string_value lower_names

lemma to_string_zero: "to_string 0 = ''0''"
  by code_simp

text \<open>The headers that decide how the body is read.\<close>

lemma find_framing:
  assumes "headers_good (res_headers res)" "\<not> has_header (res_headers res) ''Content-Length''"
    "\<not> has_header (res_headers res) ''Transfer-Encoding''"
  shows "res_body res \<noteq> [] \<or> res_streamcb res = None \<Longrightarrow>
      mm_find ci ''Content-Length'' (res_headers (response_headers last_connection req res)) =
        Some (to_string (length (res_body res)))"
    and "res_body res \<noteq> [] \<or> res_streamcb res = None \<Longrightarrow>
      mm_find ci ''Transfer-Encoding'' (res_headers (response_headers last_connection req res)) = None"
    and "res_body res = [] \<Longrightarrow> res_streamcb res \<noteq> None \<Longrightarrow>
      mm_find ci ''Transfer-Encoding'' (res_headers (response_headers last_connection req res)) = Some ''chunked''"
    and "res_body res = [] \<Longrightarrow> res_streamcb res \<noteq> None \<Longrightarrow>
      mm_find ci ''Content-Length'' (res_headers (response_headers last_connection req res)) = None"
  using assms by (auto simp: response_lookup to_string_zero simp del: list.map)

text \<open>C16: What the server writes for a response of any handler - status line, headers and body -
  the client reads back: the status, the headers and the body it returns are those that
  \<open>write_response\<close> ended with, in whatever pieces the socket delivers the bytes, and the bytes
  behind the response stay unread.\<close>

theorem client_reads_server_response:
  assumes "write_response socket_ops srv last_connection sreq res out = Inr (res', out')" "sent out = []"
    and "concat (inbox s) = sent out' @ rest"
    and "0 \<le> res_status res" "res_status res < 2 ^ 31" "length (res_body res) < 2 ^ 31"
    and "error_handler srv = None" "headers_good (res_headers res)" "res_streamcb res = None"
    and "\<not> has_header (res_headers res) ''Content-Length''" "\<not> has_header (res_headers res) ''Transfer-Encoding''"
    and "get_header_value (res_headers res) ''Content-Encoding'' [] \<noteq> ''gzip''"
    and "req_method sreq \<noteq> ''HEAD''" "req_method creq \<noteq> ''HEAD''" "goes_on (req_progress creq)"
  shows "\<exists>close s'. Client_process_request socket_ops cl (creq, Response) s =
      Inr ((True, close, request_headers cl creq,
            received_response (res_status res) (res_headers res') (res_body res)), s') \<and>
    concat (inbox s') = rest"
proof -
  note written = socket_out.write_response_written [OF assms(1,7,8,13)]
  let ?hs = "res_headers res'"
  have good: "headers_good ?hs" using response_headers_good [OF assms(8)] written(1) by simp
  have bytes: "concat (inbox s) = status_line (res_status res) @ header_text ?hs @ crlf @ res_body res @ rest"
    using assms(2,3) written(2) [OF assms(9)] by simp
  have other: "mm_find ci k ?hs = mm_find ci k (res_headers res)"
    if "map tolower k \<notin> set [''connection'', ''content-length'', ''transfer-encoding'', ''content-type'']" for k
    unfolding written(1) by (rule find_response_headers [OF assms(8) that])
  have enc: "get_header_value ?hs ''Content-Encoding'' [] \<noteq> ''gzip''"
    using other [of "''Content-Encoding''"] assms(12) unfolding lower_names by (simp add: get_header_value_def)
  have len: "mm_find ci ''Content-Length'' ?hs = Some (to_string (length (res_body res)))"
    unfolding written(1) using assms(9) by (intro find_framing assms) simp
  have "mm_find ci ''Transfer-Encoding'' ?hs = None"
    unfolding written(1) using assms(9) by (intro find_framing assms) simp
  then have "\<not> is_chunked ?hs" by (simp add: is_chunked_def get_header_value_def strcasecmp_eq_def)
  then have body: "ref_read_content ?hs [] (res_body res @ rest) e = Inr ((True, res_body res), rest)" for e
    by (rule ref_read_content_length [OF len assms(6)]) simp_all
  have "ref_process cl (creq, Response) (concat (inbox s)) (sock_end s) =
      Inr ((True, connection_closes (received_response (res_status res) ?hs []), request_headers cl creq,
            received_response (res_status res) ?hs (res_body res)), rest)"
    unfolding bytes ref_process_head [OF assms(4,5) good assms(14)] body using enc by simp
  with socket.process_request_ref [OF assms(15), of cl Response s] show ?thesis
    by (auto simp: socket.agrees_Inr)
qed

text \<open>C18: A streamed body is written in chunks and the client reads back the parts put together:
  the lengths in hexadecimal, the empty lines between the chunks and the last chunk are what
  the reader of chunks expects.\<close>

theorem client_reads_streamed_response:
  assumes "write_response socket_ops srv last_connection sreq res out = Inr (res', out')" "sent out = []"
    and "concat (inbox s) = sent out' @ rest"
    and "0 \<le> res_status res" "res_status res < 2 ^ 31"
    and "error_handler srv = None" "headers_good (res_headers res)"
    and "res_body res = []" "res_streamcb res = Some cb" "streams cb 0 parts"
    and "\<forall>q \<in> set parts. length q < 2 ^ 31"
    and "\<not> has_header (res_headers res) ''Content-Length''" "\<not> has_header (res_headers res) ''Transfer-Encoding''"
    and "get_header_value (res_headers res) ''Content-Encoding'' [] \<noteq> ''gzip''"
    and "req_method sreq \<noteq> ''HEAD''" "req_method creq \<noteq> ''HEAD''" "goes_on (req_progress creq)"
  shows "\<exists>close s'. Client_process_request socket_ops cl (creq, Response) s =
      Inr ((True, close, request_headers cl creq,
            received_response (res_status res) (res_headers res') (concat parts)), s') \<and>
    concat (inbox s') = rest"
proof -
  note written = socket_out.write_response_written [OF assms(1,6,7,15)]
  let ?hs = "res_headers res'"
  have good: "headers_good ?hs" using response_headers_good [OF assms(7)] written(1) by simp
  have te: "mm_find ci ''Transfer-Encoding'' ?hs = Some ''chunked''"
    and cl: "mm_find ci ''Content-Length'' ?hs = None"
    unfolding written(1) using assms(8,9) by (auto intro!: find_framing assms)
  have "concat (inbox s) = status_line (res_status res) @ header_text ?hs @ crlf @ chunk_text parts @ rest"
    using assms(2,3) written(3) [OF assms(9,8,10)] cl by (simp add: res_has_header_def)
  moreover have enc: "get_header_value ?hs ''Content-Encoding'' [] \<noteq> ''gzip''"
    using find_response_headers [OF assms(7), of "''Content-Encoding''" last_connection sreq] assms(14)
    unfolding lower_names written(1) by (simp add: get_header_value_def)
  moreover have "p \<noteq> []" if "p \<in> set parts" for p
  proof -
    have "\<forall>p \<in> set ps. p \<noteq> []" if "streams cb n ps" for n ps
      using that by (induction ps arbitrary: n) auto
    with assms(10) that show ?thesis by blast
  qed
  then have "\<forall>q \<in> set parts. q \<noteq> [] \<and> length q < 2 ^ 31" using assms(11) by blast
  note chunks = ref_chunked_text [OF this]
  have "is_chunked ?hs" using te by (simp add: is_chunked_def get_header_value_def strcasecmp_eq_def)
  then have body: "ref_read_content ?hs [] (chunk_text parts @ rest) e = Inr ((True, concat parts), rest)" for e
    using cl chunks [of "[]" rest e] by (simp add: ref_read_content_def has_header_def)
  ultimately have "ref_process cl (creq, Response) (concat (inbox s)) (sock_end s) =
      Inr ((True, connection_closes (received_response (res_status res) ?hs []), request_headers cl creq,
            received_response (res_status res) ?hs (concat parts)), rest)"
    using ref_process_head [OF assms(4,5) good assms(16)] body enc by simp
  with socket.process_request_ref [OF assms(17), of cl Response s] show ?thesis
    by (auto simp: socket.agrees_Inr)
qed

subsection \<open>Examples\<close>

definition fresh_sock :: "string list \<Rightarrow> ending \<Rightarrow> sock" where
  "fresh_sock segs e = \<lparr>inbox = segs, sock_end = e, sent = [], peer_addr = ''127.0.0.1''\<rparr>"

definition sample_answer :: http_response where
  "sample_answer = set_content ''[1]'' ''application/json'' (Response\<lparr>res_status := 200\<rparr>)"

definition sample_stream :: http_response where
  "sample_stream = Response\<lparr>res_status := 200,
     res_streamcb := Some (\<lambda>offset. if offset = 0 then ''ab'' else if offset = 2 then ''c'' else [])\<rparr>"

definition sample_get :: http_request where
  "sample_get = Request\<lparr>req_method := ''GET'', req_path := ''/api/p2p/state''\<rparr>"

lemmas ci_eval = ci_def schar_def tolower_Char

lemma sample_headers:
  "res_headers (response_headers True sample_get sample_answer) =
     [(''Connection'', ''close''), (''Content-Length'', ''3''), (''Content-Type'', ''application/json'')]"
  "res_headers (response_headers True sample_get sample_stream) =
     [(''Connection'', ''close''), (''Transfer-Encoding'', ''chunked'')]"
  by (simp_all add: response_headers_def Let_def res_set_header_def set_header_def res_has_header_def
      sample_get_def sample_answer_def sample_stream_def set_content_def Request_def Response_def
      to_string.simps digit_chars digit_chars(4) [unfolded numeral_3_eq_3] ci_eval)

text \<open>A response arrives in whatever pieces.\<close>

lemma sample_answer_written:
  obtains res' out' where "write_response socket_ops Server True sample_get sample_answer (fresh_sock [] Closes) = Inr (res', out')"
    "sent out' = ''HTTP/1.1 200 OK'' @ crlf @ ''Connection: close'' @ crlf @ ''Content-Length: 3'' @ crlf @
       ''Content-Type: application/json'' @ crlf @ crlf @ ''[1]''"
    "res_headers res' = [(''Connection'', ''close''), (''Content-Length'', ''3''), (''Content-Type'', ''application/json'')]"
proof -
  let ?out = "fresh_sock [] Closes"
  obtain res' out' where w: "write_response socket_ops Server True sample_get sample_answer ?out = Inr (res', out')"
    by (auto simp: write_response_def sample_answer_def set_content_def res_set_header_def Response_def Server_def
        write_body_def sample_get_def Request_def Let_def)
  have good: "headers_good (res_headers sample_answer)"
    by (simp add: sample_answer_def set_content_def res_set_header_def set_header_def Response_def Request_def
        headers_good_def headers_clean_def mm_sorted_def server_header_names header_value_def isspace_def)
  note written = socket_out.write_response_written [OF w _ good]
  have "sent out' = status_line 200 @ header_text (res_headers res') @ crlf @ ''[1]''"
    using written(2) by (simp add: Server_def sample_answer_def sample_get_def set_content_def res_set_header_def
        Response_def Request_def fresh_sock_def)
  moreover have "res_headers res' = [(''Connection'', ''close''), (''Content-Length'', ''3''), (''Content-Type'', ''application/json'')]"
    using written(1) sample_headers(1) by (simp add: Server_def sample_get_def Request_def)
  moreover have "status_line 200 = ''HTTP/1.1 200 OK'' @ crlf"
    by (simp add: status_line_def int_to_string_def to_string.simps digit_chars status_message.simps)
  ultimately show thesis using w by (intro that [of res' out']) (simp_all add: header_text_def)
qed

lemma sample_stream_written:
  obtains res' out' where "write_response socket_ops Server True sample_get sample_stream (fresh_sock [] Closes) = Inr (res', out')"
    "sent out' = ''HTTP/1.1 200 OK'' @ crlf @ ''Connection: close'' @ crlf @ ''Transfer-Encoding: chunked'' @ crlf @ crlf @
       ''2'' @ crlf @ ''ab'' @ crlf @ ''1'' @ crlf @ ''c'' @ crlf @ ''0'' @ crlf @ crlf"
    "res_headers res' = [(''Connection'', ''close''), (''Transfer-Encoding'', ''chunked'')]"
proof -
  let ?out = "fresh_sock [] Closes" and ?cb = "\<lambda>offset. if offset = (0::nat) then ''ab'' else if offset = 2 then ''c'' else []"
  have streams: "streams ?cb 0 [''ab'', ''c'']" by simp
  have "\<exists>s'. stream_loop socket_ops ?cb True 0 s = Some s'" for s
    using socket_out.stream_loop_written [OF streams, of s] by blast
  then obtain res' out' where w: "write_response socket_ops Server True sample_get sample_stream ?out = Inr (res', out')"
    using sample_headers(2)
    by (fastforce simp: write_response_def sample_stream_def Response_def Server_def
        write_body_def sample_get_def Request_def Let_def res_has_header_def ci_eval split: option.splits)
  have good: "headers_good (res_headers sample_stream)"
    by (simp add: sample_stream_def Response_def headers_good_def headers_clean_def)
  note written = socket_out.write_response_written [OF w _ good]
  have hs: "res_headers res' = [(''Connection'', ''close''), (''Transfer-Encoding'', ''chunked'')]"
    using written(1) sample_headers(2) by (simp add: Server_def sample_get_def Request_def)
  have "sent out' = status_line 200 @ header_text (res_headers res') @ crlf @ chunk_text [''ab'', ''c'']"
    using written(3) [OF _ _ _ _ streams] hs
    by (simp add: Server_def sample_stream_def sample_get_def Response_def Request_def fresh_sock_def
        res_has_header_def ci_eval)
  moreover have "status_line 200 = ''HTTP/1.1 200 OK'' @ crlf"
    by (simp add: status_line_def int_to_string_def to_string.simps digit_chars status_message.simps)
  moreover have "chunk_text [''ab'', ''c''] = ''2'' @ crlf @ ''ab'' @ crlf @ ''1'' @ crlf @ ''c'' @ crlf @ ''0'' @ crlf @ crlf"
    by (simp add: chunk_text_def stream_chunk_def from_i_to_hex.simps hex_lower_def)
  ultimately show thesis using w hs by (intro that [of res' out']) (simp_all add: header_text_def)
qed

theorem client_reads_server_response_witness:
  "\<exists>close s'. Client_process_request socket_ops (Client ''gw'' 80 300) (sample_get, Response)
      (fresh_sock [''HTTP/1.1 200 OK'' @ crlf @ ''Connection: cl'',
        ''ose'' @ crlf @ ''Content-Length: 3'' @ crlf @ ''Content-Type: application/json'' @ crlf @ crlf @ ''['', ''1]''] Stalls) =
    Inr ((True, close, request_headers (Client ''gw'' 80 300) sample_get,
          received_response 200 [(''Connection'', ''close''), (''Content-Length'', ''3''), (''Content-Type'', ''application/json'')] ''[1]''), s') \<and>
    concat (inbox s') = []"
proof -
  obtain res' out' where w: "write_response socket_ops Server True sample_get sample_answer (fresh_sock [] Closes) = Inr (res', out')"
    "sent out' = ''HTTP/1.1 200 OK'' @ crlf @ ''Connection: close'' @ crlf @ ''Content-Length: 3'' @ crlf @
       ''Content-Type: application/json'' @ crlf @ crlf @ ''[1]''"
    "res_headers res' = [(''Connection'', ''close''), (''Content-Length'', ''3''), (''Content-Type'', ''application/json'')]"
    by (rule sample_answer_written)
  have sample: "res_status sample_answer = 200" "res_body sample_answer = ''[1]''" "res_streamcb sample_answer = None"
    "res_headers sample_answer = [(''Content-Type'', ''application/json'')]"
    by (simp_all add: sample_answer_def set_content_def res_set_header_def set_header_def Response_def)
  have good: "headers_good (res_headers sample_answer)"
    by (simp add: sample headers_good_def headers_clean_def mm_sorted_def server_header_names header_value_def isspace_def)
  have get: "req_method sample_get \<noteq> ''HEAD''" "goes_on (req_progress sample_get)"
    by (simp_all add: sample_get_def Request_def)
  have absent: "\<not> has_header (res_headers sample_answer) ''Content-Length''"
    "\<not> has_header (res_headers sample_answer) ''Transfer-Encoding''"
    "get_header_value (res_headers sample_answer) ''Content-Encoding'' [] \<noteq> ''gzip''"
    by (simp_all add: sample has_header_def get_header_value_def ci_eval)
  show ?thesis
    using client_reads_server_response [OF w(1) _ _ _ _ _ _ good sample(3) absent get(1) get(1,2), of _ "[]"]
    by (auto simp: w(2,3) sample fresh_sock_def Server_def)
qed

theorem client_reads_streamed_response_witness:
  "\<exists>close s'. Client_process_request socket_ops (Client ''gw'' 80 300) (sample_get, Response)
      (fresh_sock [''HTTP/1.1 200 OK'' @ crlf @ ''Connection: close'' @ crlf @ ''Transfer-Encoding: chunked'' @ crlf @ crlf,
        ''2'' @ crlf @ ''a'', ''b'' @ crlf @ ''1'' @ crlf @ ''c'' @ crlf @ ''0'' @ crlf @ crlf, ''HTTP''] Stalls) =
    Inr ((True, close, request_headers (Client ''gw'' 80 300) sample_get,
          received_response 200 [(''Connection'', ''close''), (''Transfer-Encoding'', ''chunked'')] ''abc''), s') \<and>
    concat (inbox s') = ''HTTP''"
proof -
  obtain res' out' where w: "write_response socket_ops Server True sample_get sample_stream (fresh_sock [] Closes) = Inr (res', out')"
    "sent out' = ''HTTP/1.1 200 OK'' @ crlf @ ''Connection: close'' @ crlf @ ''Transfer-Encoding: chunked'' @ crlf @ crlf @
       ''2'' @ crlf @ ''ab'' @ crlf @ ''1'' @ crlf @ ''c'' @ crlf @ ''0'' @ crlf @ crlf"
    "res_headers res' = [(''Connection'', ''close''), (''Transfer-Encoding'', ''chunked'')]"
    by (rule sample_stream_written)
  let ?cb = "\<lambda>offset. if offset = (0::nat) then ''ab'' else if offset = 2 then ''c'' else []"
  have streams: "streams ?cb 0 [''ab'', ''c'']" by simp
  have sample: "res_status sample_stream = 200" "res_body sample_stream = []" "res_streamcb sample_stream = Some ?cb"
    "res_headers sample_stream = []"
    by (simp_all add: sample_stream_def Response_def)
  have get: "req_method sample_get \<noteq> ''HEAD''" "goes_on (req_progress sample_get)"
    by (simp_all add: sample_get_def Request_def)
  have absent: "headers_good (res_headers sample_stream)" "\<not> has_header (res_headers sample_stream) ''Content-Length''"
    "\<not> has_header (res_headers sample_stream) ''Transfer-Encoding''"
    "get_header_value (res_headers sample_stream) ''Content-Encoding'' [] \<noteq> ''gzip''"
    by (simp_all add: sample has_header_def get_header_value_def headers_good_def headers_clean_def)
  show ?thesis
    using client_reads_streamed_response [OF w(1) _ _ _ _ _ absent(1) sample(2,3) streams _ absent(2-4) get(1) get(1,2), of _ "''HTTP''"]
    by (auto simp: w(2,3) sample fresh_sock_def Server_def)
qed

end
