(* ===== verification/HT_Typing.thy ===== *)
theory HT_Typing
  imports HT_Client
begin

text \<open>
  What can be in a message that was read from a connection, whatever the peer sent: a typing of
  headers and responses, preserved by every operation on the way to the caller.
\<close>

definition header_typed :: "string \<times> string \<Rightarrow> bool" where
  "header_typed h \<longleftrightarrow> fst h \<noteq> [] \<and> snd h \<noteq> [] \<and> (\<forall>c \<in> set (fst h @ snd h). c \<noteq> CR \<and> c \<noteq> LF \<and> c \<noteq> NUL)"

definition headers_typed :: "headers \<Rightarrow> bool" where
  "headers_typed hs \<longleftrightarrow> mm_sorted ci hs \<and> (\<forall>h \<in> set hs. header_typed h)"

definition status_typed :: "http_response \<Rightarrow> bool" where
  "status_typed res \<longleftrightarrow> (res_version res = [] \<and> res_status res = -1) \<or>
     (res_version res \<in> {''HTTP/1.0'', ''HTTP/1.1''} \<and> 0 \<le> res_status res \<and> res_status res < 2 ^ 31)"

text \<open>The body has the length that the response announces, unless it came in chunks.\<close>

definition body_typed :: "headers \<Rightarrow> string \<Rightarrow> bool" where
  "body_typed hs body \<longleftrightarrow> (\<forall>v. mm_find ci ''Content-Length'' hs = Some v \<longrightarrow>
     (\<exists>n. stoi 10 v = Inr n \<and> 0 \<le> n \<and> (length body = nat n \<or> n = 0 \<and> is_chunked hs)))"

definition response_typed :: "http_response \<Rightarrow> bool" where
  "response_typed res \<longleftrightarrow> status_typed res \<and> headers_typed (res_headers res)"

lemma headers_typed_Nil [simp]: "headers_typed []"
  by (simp add: headers_typed_def mm_sorted_def)

lemma Response_typed [simp]: "response_typed Response"
  by (simp add: response_typed_def status_typed_def Response_def)

lemma headers_typed_emplace:
  assumes "headers_typed hs" "header_typed (n, v)"
  shows "headers_typed (mm_emplace ci n v hs)"
proof -
  have "set (mm_emplace ci n v hs) = insert (n, v) (set hs)"
    using arg_cong [OF mset_mm_emplace, of set_mset] by simp
  with assms show ?thesis by (simp add: headers_typed_def headers.emplace_sorted)
qed

subsection \<open>Lines\<close>

lemma next_line_no_NUL:
  assumes "next_line S r s = Inr ((Some l, r'), s')"
  shows "NUL \<notin> set l"
proof -
  obtain r1 where "line_ptr r1 = Inr l"
    using assms unfolding next_line_def
    by (auto simp: bindE_def split: sum.splits prod.splits if_splits)
  then show ?thesis by (auto simp: line_ptr_def array_str_def split: if_splits)
qed

lemma header_line_typed:
  assumes "regex_match header_rx l = Some m" "NUL \<notin> set l"
  shows "header_typed (sub_match m 1, sub_match m 2)"
proof -
  from regex_matchD [OF assms(1)] obtain n v w1 w2 where
    l: "l = n @ '':'' @ w1 @ v @ w2 @ crlf" "m = [(1, n), (2, v)]"
    "n \<noteq> []" "list_all dot n" "v \<noteq> []" "list_all dot v"
    by (auto simp: header_rx_def Suc_le_eq)
  then show ?thesis
    using assms(2) by (auto simp: header_typed_def sub_match_def list_all_iff)
qed

lemma add_header_line_typed:
  "headers_typed hs \<Longrightarrow> NUL \<notin> set l \<Longrightarrow> headers_typed (add_header_line l hs)"
  by (auto simp: add_header_line_def split: option.splits
      intro!: headers_typed_emplace header_line_typed [unfolded One_nat_def])

lemma headers_loop_typed:
  assumes "headers_loop S r hs s = Some y"
  shows "headers_typed hs \<Longrightarrow> y = Inr ((ok, hs'), s') \<Longrightarrow> headers_typed hs'"
  using assms
proof (induction S r hs s y rule: headers_loop.raw_induct [rotated, consumes 1, case_names 1])
  case (1 loop S r hs s y)
  show ?case
  proof (cases "next_line S r s")
    case (Inr b)
    obtain l r1 s1 where b: "b = ((l, r1), s1)" by (cases b) auto
    show ?thesis
    proof (cases l)
      case (Some t)
      then have nul: "NUL \<notin> set t" using next_line_no_NUL Inr b by metis
      show ?thesis
        using "1.hyps" "1.IH" [of S r1 "add_header_line t hs" s1 y] "1.prems" Inr b Some
          add_header_line_typed [OF "1.prems"(1) nul]
        by (auto split: if_splits)
    qed (use "1.hyps" "1.prems" Inr b in auto)
  qed (use "1.hyps" "1.prems" in auto)
qed

lemma read_headers_typed:
  assumes "read_headers S hs s = Inr ((ok, hs'), s')" "headers_typed hs"
  shows "headers_typed hs'"
  using assms headers_loop_typed [of S _ hs s "Inr ((ok, hs'), s')" ok hs' s']
  unfolding read_headers_def by (auto simp: loopE_def split: option.splits)

subsection \<open>Status lines\<close>

lemma stoi_digits_nonneg:
  assumes "list_all isdigit ds" "ds \<noteq> []" "stoi 10 ds = Inr v"
  shows "0 \<le> v \<and> v < 2 ^ 31"
proof -
  obtain c cs where ds: "ds = c # cs" using assms(2) by (cases ds) auto
  have c: "c \<noteq> NUL" "\<not> isspace c" "c \<noteq> CHR ''-''" "c \<noteq> CHR ''+''"
    using assms(1) digit_not_blank [of c] by (auto simp: ds isdigit_def)
  then have "c_str ds = c # c_str cs" by (simp add: ds c_str_def)
  with c show ?thesis using assms(3) by (auto simp: stoi_def sign_of_def Let_def split: if_splits)
qed

lemma status_line_typed:
  assumes "parse_response_line l res = Inr res'" "status_typed res"
  shows "status_typed res' \<and> res_headers res' = res_headers res \<and> res_body res' = res_body res"
proof (cases "regex_match response_rx l")
  case None
  with assms show ?thesis by (simp add: parse_response_line_def)
next
  case (Some m)
  from regex_matchD [OF Some] obtain d ds rest where
    m: "m = [(1, ''HTTP/1.'' @ [d]), (2, ds)]" "d = CHR ''0'' \<or> d = CHR ''1''" "list_all isdigit ds" "ds \<noteq> []"
    by (auto simp: response_rx_def Suc_le_eq)
  obtain v where v: "stoi 10 ds = Inr v" "res' = res\<lparr>res_version := ''HTTP/1.'' @ [d], res_status := v\<rparr>"
    using assms(1) Some m(1)
    by (auto simp: parse_response_line_def sub_match_def bindE_def split: sum.splits)
  show ?thesis
    using stoi_digits_nonneg [OF m(3,4) v(1)] m(2) by (auto simp: v(2) status_typed_def)
qed

lemma read_response_line_typed:
  assumes "read_response_line S res s = Inr ((ok, res'), s')" "status_typed res"
  shows "status_typed res' \<and> res_headers res' = res_headers res \<and> res_body res' = res_body res"
  using assms status_line_typed [of _ res res']
  by (auto simp: read_response_line_def bindE_def split: sum.splits prod.splits option.splits)
subsection \<open>Bodies\<close>

context byte_source begin

text \<open>A read gives no more than was asked for.\<close>

lemma read_bounded:
  assumes "s_read S s n = Some (Received bs, s')" "0 < n"
  shows "length bs \<le> n"
proof (cases "bytes s = []")
  case True
  with assms read_closed [OF True assms(2)] read_broken [OF True assms(2)] read_stalled [OF True assms(2)]
  show ?thesis by (cases "ending s") auto
next
  case False
  from read_bytes [OF False assms(2)] assms(1) show ?thesis by auto
qed

lemma content_loop_length:
  assumes "content_loop T len progress r out s = Some y"
  shows "T = S \<Longrightarrow> y = Inr ((True, out'), s') \<Longrightarrow> r \<le> len \<Longrightarrow> length out = len \<Longrightarrow> length out' = len"
  using assms
proof (induction T len progress r out s y rule: content_loop.raw_induct [rotated, consumes 1, case_names 1])
  case (1 loop T len progress r out s y)
  show ?case
  proof (cases "r < len")
    case True
    obtain v s1 where read: "s_read S s (len - r) = Some (v, s1)"
      using "1.hyps" True "1.prems"(1) by (auto split: option.splits prod.splits)
    show ?thesis
    proof (cases v)
      case (Received bs)
      with read True have bs: "r + length bs \<le> len" using read_bounded [of s "len - r" bs s1] by simp
      then have len: "length (overwrite out r bs) = len" using "1.prems"(4) by (simp add: overwrite_def)
      show ?thesis
        using "1.hyps" "1.IH" [of T len progress "r + length bs" "overwrite out r bs" s1 y] "1.prems" True read
          Received bs len
        by (auto split: if_splits option.splits)
    qed (use "1.hyps" "1.prems" True read in simp)
  qed (use "1.hyps" "1.prems" in auto)
qed

lemma read_content_with_length_length:
  assumes "read_content_with_length S len progress s = Inr ((True, out), s')"
  shows "length out = len \<and> len \<le> string_max_size"
  using assms content_loop_length [of S len progress 0 "replicate len NUL" s "Inr ((True, out), s')"]
  by (auto simp: read_content_with_length_def loopE_def split: if_splits option.splits)

end

context byte_source begin

lemma read_content_typed:
  assumes "read_content S hs body progress s = Inr ((True, out), s')"
  shows "body_typed hs out"
  unfolding body_typed_def
proof (intro allI impI)
  fix v assume v: "mm_find ci ''Content-Length'' hs = Some v"
  obtain n where n: "stoi 10 v = Inr n" using assms v
    by (auto simp: read_content_def has_header_def get_header_value_int_def bindE_def split: sum.splits)
  show "\<exists>n. stoi 10 v = Inr n \<and> 0 \<le> n \<and> (length out = nat n \<or> n = 0 \<and> is_chunked hs)"
  proof (cases "n = 0 \<and> is_chunked hs")
    case False
    then have "read_content_with_length S (size_of_int n) progress s = Inr ((True, out), s')"
      using assms v n by (auto simp: read_content_def has_header_def get_header_value_int_def split: if_splits)
    from read_content_with_length_length [OF this] stoi_range [OF n]
      size_of_int_negative [of n] size_of_int_nonneg [of n] n
    show ?thesis by (cases "n < 0") auto
  qed (use n in auto)
qed

lemma process_request_typed:
  assumes "Client_process_request S cl (req, res) s = Inr ((True, close, req', res'), s')"
    and "response_typed res"
  shows "response_typed res' \<and> (req_method req \<noteq> ''HEAD'' \<longrightarrow> body_typed (res_headers res') (res_body res'))"
proof -
  obtain s1 where "write_request S cl req s = (request_headers cl req, s1)" by (simp add: write_request_def Let_def)
  then obtain res1 s2 hs s3 where
    line: "read_response_line S res s1 = Inr ((True, res1), s2)" and
    hdrs: "read_headers S (res_headers res1) s2 = Inr ((True, hs), s3)" and
    more: "(if req_method req = ''HEAD''
        then Inr ((True, connection_closes (res1\<lparr>res_headers := hs\<rparr>), request_headers cl req, res1\<lparr>res_headers := hs\<rparr>), s3)
        else bindE (read_content S hs (res_body res1) (req_progress req) s3) (\<lambda>((ok3, bdy), s4).
          Inr ((ok3 \<and> res_get_header_value (res1\<lparr>res_headers := hs, res_body := bdy\<rparr>) ''Content-Encoding'' \<noteq> ''gzip'',
            connection_closes (res1\<lparr>res_headers := hs\<rparr>), request_headers cl req, res1\<lparr>res_headers := hs, res_body := bdy\<rparr>), s4))) =
        Inr ((True, close, req', res'), s')"
    using assms(1) by (auto simp: Client_process_request_def Let_def bindE_def split: sum.splits prod.splits if_splits)
  have l: "status_typed res1" "headers_typed hs"
    using read_response_line_typed [OF line] read_headers_typed [OF hdrs] assms(2)
    by (auto simp: response_typed_def)
  show ?thesis
  proof (cases "req_method req = ''HEAD''")
    case True
    with more l show ?thesis by (auto simp: response_typed_def status_typed_def)
  next
    case False
    then obtain bdy s4 where "read_content S hs (res_body res1) (req_progress req) s3 = Inr ((True, bdy), s4)"
      "res' = res1\<lparr>res_headers := hs, res_body := bdy\<rparr>"
      using more by (auto simp: bindE_def split: sum.splits)
    with read_content_typed l show ?thesis by (auto simp: response_typed_def status_typed_def)
  qed
qed

end

end
