(* ===== verification/HT_Gateway.thy ===== *)
theory HT_Gateway
  imports HT_RoundTrip HT_Typing MN_NetworkState
begin

text \<open>
  One round of the gateway poller over a real connection: the client that the constructor of
  \<open>NetworkState\<close> makes, its \<open>Get\<close>, and what the polling function does with the result. The
  lemmas follow a response from the bytes on the socket to the published list.
\<close>

definition gateway_client :: "masternode_config \<Rightarrow> client" where
  "gateway_client config =
     Client (c_str (gateway_address config)) (uint (gateway_port config)) (uint (gateway_poll_interval config))"

definition state_path :: string where
  "state_path = ''/api/p2p/state''"

text \<open>\<open>httpClient_->Get("/api/p2p/state")\<close>, and the body of the scheduled function. The second
  result is what happened to the descriptors.\<close>

definition fetch_state :: "'s network \<Rightarrow> 's stream_ops \<Rightarrow> masternode_config \<Rightarrow>
    http_response option result \<times> fd_event list" where
  "fetch_state N S config = Client_Get N S (gateway_client config) state_path [] None"

definition poll_round :: "'d dynamic_lib \<Rightarrow> masternode_config \<Rightarrow> location \<Rightarrow> 64 word \<Rightarrow>
    's network \<Rightarrow> 's stream_ops \<Rightarrow> 'r network_state \<Rightarrow> 'r network_state result \<times> fd_event list" where
  "poll_round D config garbage now N S ns =
     (let (m, evs) = fetch_state N S config in
      (bindE m (\<lambda>res. poll_gateway D config garbage now
         (map_option (\<lambda>r. (res_status r, res_body r)) res) ns), evs))"

subsection \<open>From bytes to the result of a round\<close>

context byte_channel begin

lemma fetch_state_ref:
  assumes "create_client_socket N (gateway_client config) = (Some (sock, ai), evs)"
  shows "fetch_state N S config =
    (case ref_process (gateway_client config) (Request\<lparr>req_method := ''GET'', req_path := state_path\<rparr>, Response)
        (bytes (connected ai)) (ending (connected ai)) of
       Inl f \<Rightarrow> (Inl f, evs)
     | Inr ((ok, _, _, res), _) \<Rightarrow> (Inr (if ok then Some res else None), evs @ [Closed sock]))"
proof -
  let ?req = "Request\<lparr>req_method := ''GET'', req_path := state_path\<rparr>"
  have req: "Request\<lparr>req_method := ''GET'', req_path := c_str state_path, req_headers := [], req_progress := None\<rparr> = ?req"
    by (simp add: Request_def state_path_def)
  have "goes_on (req_progress ?req)" "req_path ?req \<noteq> []" by (simp_all add: Request_def state_path_def)
  from send_response_ref [OF this assms] show ?thesis
    by (simp only: fetch_state_def Client_Get_def req)
qed

end

definition framed :: "headers \<Rightarrow> nat \<Rightarrow> bool" where
  "framed hs n \<longleftrightarrow> headers_good hs \<and> mm_find ci ''Content-Length'' hs = Some (to_string n) \<and> n < 2 ^ 31 \<and>
     \<not> is_chunked hs \<and> get_header_value hs ''Content-Encoding'' [] \<noteq> ''gzip''"

lemma state_request_method [simp]: "req_method (Request\<lparr>req_method := m, req_path := p\<rparr>) = m"
  by simp

lemma fetch_state_received:
  assumes "create_client_socket N (gateway_client config) = (Some (sock, ai), evs)"
    and "concat (inbox (connected ai)) = status_line 200 @ header_text hs @ crlf @ body @ rest"
    and "framed hs (length body)"
  shows "fetch_state N socket_ops config = (Inr (Some (received_response 200 hs body)), evs @ [Closed sock])"
proof -
  let ?req = "Request\<lparr>req_method := ''GET'', req_path := state_path\<rparr>"
  have hs: "headers_good hs" "get_header_value hs ''Content-Encoding'' [] \<noteq> ''gzip''"
    using assms(3) by (simp_all add: framed_def)
  have content: "ref_read_content hs [] (body @ rest) e = Inr ((True, body), rest)" for e
    using assms(3) by (intro ref_read_content_length [where n = "length body"]) (auto simp: framed_def)
  have "ref_process cl (?req, Response) (concat (inbox (connected ai))) e =
     Inr ((True, connection_closes (received_response 200 hs []), request_headers cl ?req, received_response 200 hs body), rest)" for cl e
    unfolding assms(2) using ref_process_head [of 200 hs ?req cl "body @ rest" e] hs content by simp
  then show ?thesis using socket.fetch_state_ref [OF assms(1)] by simp
qed


text \<open>C20: Every response that a client method returns is well formed, whatever the peer sent and
  whatever the progress callback does: the version and the status are those of a recognised status
  line (or the initial ones), the header names and values are not empty and free of line breaks
  and NUL, the headers are in their order, and the body has the announced length.\<close>

theorem client_response_typed:
  assumes "send_response N socket_ops cl req = (Inr (Some res), evs)"
  shows "response_typed res \<and> (req_method req \<noteq> ''HEAD'' \<longrightarrow> body_typed (res_headers res) (res_body res))"
proof -
  obtain sock ai evs' close req' s' where
    "create_client_socket N cl = (Some (sock, ai), evs')"
    "Client_process_request socket_ops cl (req, Response) (connected ai) = Inr ((True, close, req', res), s')"
    using assms
    by (auto simp: send_response_def Client_send_def read_and_close_socket_def Let_def bindE_def
        split: if_splits option.splits prod.splits sum.splits)
  then show ?thesis using socket.process_request_typed by simp
qed

text \<open>C21: There is no time limit on reading: when the gateway stops sending in the middle of a
  response and keeps the connection open, the round never returns.\<close>

theorem stalled_gateway_blocks_poller:
  assumes "create_client_socket N (gateway_client config) = (Some (sock, ai), evs)"
    and "concat (inbox (connected ai)) = status_line 200 @ header_text hs @ crlf @ partial"
    and "sock_end (connected ai) = Stalls" "framed hs n" "length partial < n"
  shows "poll_round D config garbage now N socket_ops ns = (Inl Diverges, evs)"
proof -
  let ?req = "Request\<lparr>req_method := ''GET'', req_path := state_path\<rparr>"
  have n: "n < 2 ^ 31" using assms(4) by (simp add: framed_def)
  have "size_of_int (int n) = n" using n by (simp add: size_of_int_def flip: of_nat_power_less_of_nat_cancel_iff)
  then have "ref_read_content hs [] partial Stalls = Inl Diverges"
    using assms(4,5) stoi_to_string [OF n]
    by (simp add: framed_def ref_read_content_def has_header_def get_header_value_int_def ref_content_def
        string_max_size_def)
  then have "ref_process cl (?req, Response) (concat (inbox (connected ai))) Stalls = Inl Diverges" for cl
    unfolding assms(2) using ref_process_head [of 200 hs ?req cl partial Stalls] assms(4)
    by (simp add: framed_def)
  then show ?thesis
    using socket.fetch_state_ref [OF assms(1)] assms(3) by (simp add: poll_round_def)
qed

text \<open>C22: A length that \<open>stoi\<close> rejects, or a negative one, makes the round throw before the state
  is touched, and the socket of the round stays open.\<close>

theorem bad_length_throws_and_leaks:
  assumes "create_client_socket N (gateway_client config) = (Some (sock, ai), evs)"
    and "concat (inbox (connected ai)) = status_line 200 @ header_text hs @ crlf @ rest"
    and "headers_good hs" "mm_find ci ''Content-Length'' hs = Some v"
    and "stoi 10 v = Inl f \<or> (\<exists>n < 0. stoi 10 v = Inr n) \<and> f = Throws Length_error"
  shows "poll_round D config garbage now N socket_ops ns = (Inl f, evs)"
proof -
  let ?req = "Request\<lparr>req_method := ''GET'', req_path := state_path\<rparr>"
  have "ref_read_content hs [] rest e = Inl f" for e
    using assms(4,5) stoi_range [of 10 v] size_of_int_negative
    by (auto simp: ref_read_content_def has_header_def get_header_value_int_def ref_content_def)
  then have "ref_process cl (?req, Response) (concat (inbox (connected ai))) e = Inl f" for cl e
    unfolding assms(2) using ref_process_head [of 200 hs ?req cl rest e] assms(3) by simp
  then show ?thesis
    using socket.fetch_state_ref [OF assms(1)] by (simp add: poll_round_def)
qed

subsection \<open>Status lines without a reason\<close>

lemma regex_no_reason:
  assumes "d = CHR ''0'' \<or> d = CHR ''1''" "\<And>c. c \<in> set ds \<Longrightarrow> isdigit c"
  shows "regex_match response_rx (''HTTP/1.'' @ d # CHR '' '' # ds @ CHR '' '' # crlf) = None"
proof -
  let ?s = "ds @ CHR '' '' # crlf"
  have sp: "\<not> isdigit (CHR '' '')" by (simp add: isdigit_def)
  have stop: "takeWhile isdigit ?s = ds" using assms(2) sp by simp
  have "rx_run (Group 2 (Rep True 1 isdigit)) ?s
      (\<lambda>cs r. rx_run (Cat (lit '' '') (Cat (Rep False 1 dot) (lit crlf))) r (K cs)) = None"
    for K :: "captures \<Rightarrow> captures \<Rightarrow> string \<Rightarrow> captures option"
    unfolding rx_run.simps(7)
  proof (rule rx_run_rep_None)
    fix i assume "i \<le> length (takeWhile isdigit ?s)"
    then have i: "i \<le> length ds" unfolding stop .
    show "rx_run (Cat (lit '' '') (Cat (Rep False 1 dot) (lit crlf))) (drop i ?s)
        (K ((2, take (length ?s - length (drop i ?s)) ?s) # [])) = None"
    proof (cases "i = length ds")
      case True
      have "rx_run (Rep False 1 dot) crlf L = None" for L :: "captures \<Rightarrow> string \<Rightarrow> captures option"
        by (rule rx_run_rep_None) simp
      then show ?thesis using True by (simp add: rx_run_lit1)
    next
      case False
      with i have "drop i ?s = ds ! i # drop (Suc i) ?s" by (simp add: Cons_nth_drop_Suc)
      moreover have "ds ! i \<noteq> CHR '' ''" using False i assms(2) [of "ds ! i"] sp by auto
      ultimately show ?thesis by (simp add: rx_run_lit1)
    qed
  qed
  then show ?thesis
    unfolding regex_match_def response_rx_def http_version_rx [OF assms(1)]
    by (simp only: rx_run.simps(4) [where p = "lit '' ''" and q = "Cat (Group _ _) _"]
        rx_run.simps(4) [where p = "Group _ _"] rx_run_lit1 if_P [OF refl])
qed

text \<open>A status line with an empty reason phrase, which HTTP allows, is not recognised: the
  status stays -1 and the round leaves the list of nodes as it was, whatever the body says.\<close>

theorem empty_reason_is_ignored:
  assumes "create_client_socket N (gateway_client config) = (Some (sock, ai), evs)"
    and "concat (inbox (connected ai)) =
      ''HTTP/1.1 '' @ to_string 200 @ '' '' @ crlf @ header_text hs @ crlf @ body @ rest"
    and "framed hs (length body)"
  shows "poll_round D config garbage now N socket_ops ns = (Inr ns, evs @ [Closed sock])"
proof -
  let ?req = "Request\<lparr>req_method := ''GET'', req_path := state_path\<rparr>" and ?ds = "to_string 200"
  let ?l = "''HTTP/1.1 '' @ ?ds @ '' '' @ [CR]" and ?more = "header_text hs @ crlf @ body @ rest"
  have dig: "c \<noteq> LF \<and> c \<noteq> NUL" if "c \<in> set ?ds" for c using to_string_digits [OF that] by auto
  then have l: "LF \<notin> set ?l" "NUL \<notin> set (?l @ [LF])" by auto
  have "concat (inbox (connected ai)) = ?l @ LF # ?more" by (simp add: assms(2))
  then have line: "ref_line (concat (inbox (connected ai))) e = Inr (Some (?l @ [LF]), ?more)" for e
    using ref_line_line [OF l(1), of ?more e] c_str_id [OF l(2)] by metis
  have shape: "?l @ [LF] = ''HTTP/1.'' @ CHR ''1'' # CHR '' '' # ?ds @ CHR '' '' # crlf" by simp
  have "regex_match response_rx (?l @ [LF]) = None"
    unfolding shape by (rule regex_no_reason) (simp_all add: to_string_isdigit)
  then have head: "ref_response_line Response (concat (inbox (connected ai))) e = Inr ((True, Response), ?more)" for e
    by (simp only: ref_response_line_def line bindE_simps prod.case option.case parse_response_line_def)
  have "fold (\<lambda>(n, v). mm_emplace ci n v) hs [] = hs"
    using headers.fold_emplace_sorted [of "[]" hs] assms(3) by (simp add: framed_def headers_good_def)
  then have hdrs: "ref_headers [] ?more e = Inr ((True, hs), body @ rest)" for e
    using ref_headers_text [of hs "[]" "body @ rest" e] assms(3) by (simp add: framed_def headers_good_def)
  have content: "ref_read_content hs [] (body @ rest) e = Inr ((True, body), rest)" for e
    using assms(3) by (intro ref_read_content_length [where n = "length body"]) (auto simp: framed_def)
  have res: "res_headers Response = []" "res_body Response = []" by (simp_all add: Response_def)
  have "\<exists>close req res. ref_process cl (?req, Response) (concat (inbox (connected ai))) e =
      Inr ((True, close, req, res), rest) \<and> res_status res = -1" for cl e
    using assms(3)
    by (simp add: ref_process_def head res hdrs [simplified] content)
      (simp add: Response_def res_get_header_value_def framed_def)
  then obtain close req res where r: "ref_process (gateway_client config) (?req, Response)
      (concat (inbox (connected ai))) (sock_end (connected ai)) = Inr ((True, close, req, res), rest)"
    "res_status res = -1" by blast
  then have "fetch_state N socket_ops config = (Inr (Some res), evs @ [Closed sock])"
    unfolding socket.fetch_state_ref [OF assms(1)] by simp
  with r(2) show ?thesis by (simp add: poll_round_def poll_gateway_def)
qed

subsection \<open>Examples\<close>

definition sample_head :: headers where
  "sample_head = [(''Content-Length'', ''1'')]"

lemma sample_head_framed: "framed sample_head (Suc 0)"
  by (simp add: framed_def sample_head_def headers_good_def headers_clean_def mm_sorted_def server_header_names
      header_value_def isspace_def to_string.simps digit_chars(2) [unfolded One_nat_def] is_chunked_def get_header_value_def strcasecmp_eq_def ci_eval)

lemma sample_connection:
  "create_client_socket (direct_network s) (gateway_client config) = (Some (7, \<lparr>connect_ret = 0, connect_errno = 0,
     select_ret = 1, fd_isset = True, getsockopt_ret = 0, so_error = 0, connected = s\<rparr>), [Opened 7])"
  by (rule direct_network_socket)

text \<open>The samples arrive in two segments.\<close>

definition sample_sock :: "string \<Rightarrow> string \<Rightarrow> ending \<Rightarrow> sock" where
  "sample_sock line bdy e = fresh_sock [line, header_text sample_head @ crlf @ bdy] e"


theorem stalled_gateway_blocks_poller_witness:
  "poll_round sample_dynamic sample_config zero_location 1010
      (direct_network (sample_sock (status_line 200) [] Stalls)) socket_ops (NetworkState_with sample_geo) =
    (Inl Diverges, [Opened 7])"
  by (rule stalled_gateway_blocks_poller [OF sample_connection _ _ sample_head_framed, where partial = "[]"])
    (simp_all add: sample_sock_def fresh_sock_def)

theorem bad_length_throws_and_leaks_witness:
  "poll_round sample_dynamic sample_config zero_location 1010
      (direct_network (fresh_sock [status_line 200 @ header_text [(''Content-Length'', ''x'')] @ crlf] Closes))
      socket_ops (NetworkState_with sample_geo) =
    (Inl (Throws Invalid_argument), [Opened 7])"
proof -
  have "stoi 10 ''x'' = Inl (Throws Invalid_argument)"
    using stoi_not_a_number [of "CHR ''x''" "''x''" "[]"]
    by (simp add: isspace_def is_digit_of_def digit_val_def)
  moreover have "headers_good [(''Content-Length'', ''x'')]"
    by (simp add: headers_good_def headers_clean_def mm_sorted_def server_header_names header_value_def isspace_def)
  ultimately show ?thesis
    using bad_length_throws_and_leaks [OF sample_connection [of "fresh_sock
          [status_line 200 @ header_text [(''Content-Length'', ''x'')] @ crlf] Closes"],
        where hs = "[(''Content-Length'', ''x'')]"
        and v = "''x''" and rest = "[]" and f = "Throws Invalid_argument" and config = sample_config]
    by (simp add: fresh_sock_def ci_eval)
qed

theorem empty_reason_is_ignored_witness:
  "poll_round sample_dynamic sample_config zero_location 1010
      (direct_network (sample_sock (''HTTP/1.1 '' @ to_string 200 @ '' '' @ crlf) ''s'' Closes))
      socket_ops (NetworkState_with sample_geo) =
    (Inr (NetworkState_with sample_geo), [Opened 7] @ [Closed 7])"
  using sample_head_framed
  by (intro empty_reason_is_ignored [OF sample_connection, where hs = sample_head and body = "''s''" and rest = "[]"])
    (simp_all add: sample_sock_def fresh_sock_def)

theorem client_response_typed_witness:
  "response_typed (received_response 200 sample_head ''s'') \<and> body_typed sample_head ''s''"
proof -
  let ?config = "default_config" and ?s = "sample_sock (status_line 200) ''s'' Stalls"
  have "fetch_state (direct_network ?s) socket_ops ?config =
      (Inr (Some (received_response 200 sample_head ''s'')), [Opened 7] @ [Closed 7])"
    by (rule fetch_state_received [OF sample_connection, where rest = "[]"])
      (simp_all add: sample_sock_def fresh_sock_def sample_head_framed)
  from client_response_typed [OF this [unfolded fetch_state_def Client_Get_def]] show ?thesis
    by (simp add: received_response_def Request_def Response_def)
qed

end
