(* ===== verification/HT_Files.thy ===== *)
theory HT_Files
  imports HT_Server
begin

text \<open>
  Which files \<open>handle_file_request\<close> can serve (src/libs/httplib.h). The reference reads a path
  the way the file system does: component by component, keeping the directory reached.
\<close>

subsection \<open>Resolving a path\<close>

function components :: "string \<Rightarrow> string list" where
  "components p = (case dropWhile (\<lambda>c. c \<noteq> CHR ''/'') p of
       [] \<Rightarrow> [p]
     | _ # r \<Rightarrow> takeWhile (\<lambda>c. c \<noteq> CHR ''/'') p # components r)"
  by pat_completeness auto
termination
proof (relation "measure length", goal_cases)
  case (2 p c r)
  then show ?case using length_dropWhile_le [of "\<lambda>c. c \<noteq> CHR ''/''" p] by simp
qed simp

declare components.simps [simp del]

text \<open>The directory is a stack, the innermost name first; \<open>None\<close>: the path left the directory
  it started from.\<close>

fun resolve :: "string list \<Rightarrow> string list \<Rightarrow> string list option" where
  "resolve dir [] = Some dir"
| "resolve dir (c # cs) =
     (if c = [] \<or> c = ''.'' then resolve dir cs
      else if c = ''..'' then (case dir of [] \<Rightarrow> None | _ # up \<Rightarrow> resolve up cs)
      else resolve (c # dir) cs)"

lemma components_slash: "components (CHR ''/'' # p) = [] # components p"
  by (subst components.simps) simp

lemma components_part:
  assumes "CHR ''/'' \<notin> set part"
  shows "components (part @ CHR ''/'' # p) = part # components p" "components part = [part]"
proof -
  show "components (part @ CHR ''/'' # p) = part # components p"
    using assms by (subst components.simps) simp
  have "dropWhile (\<lambda>c. c \<noteq> CHR ''/'') part = []" using assms by auto
  then show "components part = [part]" by (simp only: components.simps [of part] list.case)
qed

lemma resolve_slashes:
  "resolve dir (components (dropWhile (\<lambda>c. c = CHR ''/'') p)) = resolve dir (components p)"
  by (induction p) (auto simp: components_slash)

text \<open>The loop of \<open>is_valid_path\<close> counts the length of that stack.\<close>

lemma valid_components_resolve:
  "length dir = level \<Longrightarrow> p = [] \<or> p ! 0 \<noteq> CHR ''/'' \<Longrightarrow>
    valid_components level p \<longleftrightarrow> resolve dir (components p) \<noteq> None"
proof (induction level p arbitrary: dir rule: valid_components.induct)
  case (1 level p)
  show ?case
  proof (cases "p = []")
    case True
    then show ?thesis by (simp add: valid_components.simps components.simps [of "[]"])
  next
    case False
    define part where "part = takeWhile (\<lambda>c. c \<noteq> CHR ''/'') p"
    define rest where "rest = dropWhile (\<lambda>c. c = CHR ''/'') (dropWhile (\<lambda>c. c \<noteq> CHR ''/'') p)"
    have part: "part \<noteq> []" "CHR ''/'' \<notin> set part"
      using False "1.prems"(2) by (auto simp: part_def takeWhile_eq_Nil_iff hd_conv_nth dest: set_takeWhileD)
    have rest: "rest = [] \<or> rest ! 0 \<noteq> CHR ''/''"
      using hd_dropWhile [of "\<lambda>c. c = CHR ''/''" "dropWhile (\<lambda>c. c \<noteq> CHR ''/'') p"]
      by (auto simp: rest_def hd_conv_nth dropWhile_eq_Nil_conv)
    have comps: "resolve d (components p) = resolve d (part # components rest)" for d
    proof (cases "dropWhile (\<lambda>c. c \<noteq> CHR ''/'') p")
      case Nil
      have "p = part" using takeWhile_dropWhile_id [of "\<lambda>c. c \<noteq> CHR ''/''" p]
        unfolding Nil part_def append_Nil2 by (rule sym)
      moreover have "rest = []" unfolding rest_def Nil by simp
      ultimately show ?thesis using components_part(2) [OF part(2)] by (simp add: components.simps [of "[]"] split: list.splits)
    next
      case (Cons c r)
      then have "c = CHR ''/''" using hd_dropWhile [of "\<lambda>c. c \<noteq> CHR ''/''" p] by simp
      then have p: "p = part @ CHR ''/'' # r"
        using takeWhile_dropWhile_id [of "\<lambda>c. c \<noteq> CHR ''/''" p] Cons by (simp add: part_def)
      have "rest = dropWhile (\<lambda>c. c = CHR ''/'') r" using Cons \<open>c = CHR ''/''\<close> by (simp add: rest_def)
      then show ?thesis
        using components_part(1) [OF part(2), of r] resolve_slashes [of _ r] by (auto simp: p split: list.splits)
    qed
    have step: "valid_components level p =
        (if part = ''.'' then valid_components level rest
         else if part = ''..'' then (if level = 0 then False else valid_components (level - 1) rest)
         else valid_components (level + 1) rest)"
      using False part(1) by (subst valid_components.simps) (simp add: part_def rest_def Let_def)
    show ?thesis
    proof (cases "part = ''.''")
      case True
      then show ?thesis
        using "1.IH"(1) [OF False refl refl, folded part_def rest_def, OF part(1) True "1.prems"(1) rest]
        by (simp add: step comps)
    next
      case nodot: False
      show ?thesis
      proof (cases "part = ''..''")
        case True
        then show ?thesis
          using "1.IH"(2) [OF False refl refl, folded part_def rest_def, OF part(1) nodot True _ _ rest, of "tl dir"]
            "1.prems"(1) step by (cases dir) (auto simp: comps)
      next
        case name: False
        then show ?thesis
          using "1.IH"(3) [OF False refl refl, folded part_def rest_def, OF part(1) nodot name, of "part # dir"]
            "1.prems"(1) rest nodot part(1) by (simp add: step comps)
      qed
    qed
  qed
qed

lemma is_valid_path_resolve: "is_valid_path p \<longleftrightarrow> resolve [] (components p) \<noteq> None"
proof -
  let ?q = "dropWhile (\<lambda>c. c = CHR ''/'') p"
  have "?q = [] \<or> ?q ! 0 \<noteq> CHR ''/''"
    using hd_dropWhile [of "\<lambda>c. c = CHR ''/''" p] by (auto simp: hd_conv_nth dropWhile_eq_Nil_conv)
  from valid_components_resolve [OF _ this, of "[]" 0] show ?thesis
    by (simp add: is_valid_path_def resolve_slashes)
qed
subsection \<open>Files below the base directory\<close>

lemma components_cases:
  obtains (one) "CHR ''/'' \<notin> set p" "components p = [p]"
  | (more) part r where "CHR ''/'' \<notin> set part" "p = part @ CHR ''/'' # r" "components p = part # components r"
proof (cases "CHR ''/'' \<in> set p")
  case True
  then obtain part r where "p = part @ CHR ''/'' # r" "CHR ''/'' \<notin> set part" by (metis split_list_first)
  with more components_part(1) show thesis by blast
qed (use one components_part(2) in blast)

lemma components_nonempty [simp]: "components p \<noteq> []"
  by (cases p rule: components_cases) auto

text \<open>What is added behind a path changes its last component only.\<close>

lemma components_extend: "\<exists>l ys. components (p @ q) = butlast (components p) @ l # ys"
proof (induction p rule: measure_induct_rule [of length])
  case (less p)
  show ?case
  proof (cases p rule: components_cases)
    case one
    then show ?thesis by (cases "components (p @ q)") auto
  next
    case (more part r)
    with less.IH [of r] components_part(1) [OF more(1), of "r @ q"] show ?thesis by auto
  qed
qed

lemma components_append_slash: "components (p @ CHR ''/'' # q) = components p @ components q"
proof (induction p rule: measure_induct_rule [of length])
  case (less p)
  show ?case
  proof (cases p rule: components_cases)
    case one
    with components_part(1) [OF one(1), of q] show ?thesis by simp
  next
    case (more part r)
    with less.IH [of r] components_part(1) [OF more(1), of "r @ CHR ''/'' # q"] show ?thesis by simp
  qed
qed

lemma components_last:
  "components p = [p] \<or> (\<exists>p'. p = p' @ CHR ''/'' # last (components p))"
proof (induction p rule: measure_induct_rule [of length])
  case (less p)
  show ?case
  proof (cases p rule: components_cases)
    case (more part r)
    have "length r < length p" using more(2) by simp
    from less.IH [OF this] show ?thesis
    proof
      assume "\<exists>p'. r = p' @ CHR ''/'' # last (components r)"
      then obtain p' where "r = p' @ CHR ''/'' # last (components r)" by blast
      then have "p = (part @ CHR ''/'' # p') @ CHR ''/'' # last (components p)"
        using more(2,3) by simp
      then show ?thesis by blast
    qed (use more(2,3) in auto)
  qed simp
qed

lemma resolve_append:
  "resolve dir (xs @ ys) = (case resolve dir xs of None \<Rightarrow> None | Some d \<Rightarrow> resolve d ys)"
  by (induction dir xs rule: resolve.induct) (auto split: list.splits)

lemma resolve_cut:
  assumes "resolve dir (components (p @ q)) \<noteq> None" "last (components p) \<noteq> ''..''"
  shows "resolve dir (components p) \<noteq> None"
proof -
  obtain l ys where "components (p @ q) = butlast (components p) @ l # ys"
    using components_extend by blast
  with assms(1) obtain d where d: "resolve dir (butlast (components p)) = Some d"
    by (auto simp: resolve_append split: option.splits)
  have "components p = butlast (components p) @ [last (components p)]" by simp
  then have "resolve dir (components p) = resolve dir (butlast (components p) @ [last (components p)])" by simp
  also have "\<dots> = resolve d [last (components p)]" unfolding resolve_append d option.case ..
  finally show ?thesis using assms(2) by (simp split: list.splits)
qed

lemma c_str_append: "c_str (a @ b) = (if NUL \<in> set a then c_str a else a @ c_str b)"
  unfolding c_str_def by (induction a) auto

lemma c_str_prefix: "\<exists>b. p = c_str p @ b"
  unfolding c_str_def by (metis takeWhile_dropWhile_id)

text \<open>C23: A request whose path starts with a slash is only ever answered with a file below the
  base directory: reading the opened name component by component, as the file system does, never
  leaves the directory it starts in. This includes names cut at a NUL byte, which a request can
  contain as \<open>%00\<close>. (The file system does not have a regular file named \<open>..\<close>.)\<close>

theorem served_file_below_base:
  assumes "handle_file_request fs srv req res = (True, res')"
    and "req_path req = CHR ''/'' # p" "NUL \<notin> set (base_dir srv)"
    and "\<And>d. \<not> fs_is_file fs (d @ ''/..'')"
  shows "\<exists>q. fs_is_file fs (base_dir srv @ CHR ''/'' # q) \<and> resolve [] (components q) \<noteq> None \<and>
    res_body res' = fs_content fs (base_dir srv @ CHR ''/'' # q)"
proof -
  let ?path = "if last (req_path req) = CHR ''/'' then req_path req @ ''index.html'' else req_path req"
  have path: "last (base_dir srv @ req_path req) = last (req_path req)" "base_dir srv @ req_path req \<noteq> []"
    using assms(2) by simp_all
  have valid: "is_valid_path (req_path req)"
    and "fs_is_file fs (c_str (base_dir srv @ ?path)) \<and> res_body res' = fs_content fs (c_str (base_dir srv @ ?path))"
    using assms(1) path unfolding handle_file_request_def Let_def
    by (auto simp: res_set_header_def split: if_splits option.splits)
  moreover obtain p' where p': "?path = CHR ''/'' # p'" using assms(2) by (cases ?path) (auto split: if_splits)
  have cut: "c_str (base_dir srv @ ?path) = base_dir srv @ CHR ''/'' # c_str p'"
    using assms(3) c_str_append [of "base_dir srv" "CHR ''/'' # p'"] unfolding p' by (simp add: c_str_def)
  ultimately have opened: "fs_is_file fs (base_dir srv @ CHR ''/'' # c_str p')"
    "res_body res' = fs_content fs (base_dir srv @ CHR ''/'' # c_str p')" by simp_all
  have whole: "resolve [] (components ?path) \<noteq> None"
  proof (cases "last (req_path req) = CHR ''/''")
    case True
    then obtain r where r: "req_path req = r @ ''/''" using assms(2) by (metis append_butlast_last_id list.distinct(1))
    have "components (r @ ''/'') = components r @ [[]]" "components ((r @ ''/'') @ ''index.html'') = components r @ [''index.html'']"
      using components_append_slash [of r "[]"] components_append_slash [of r "''index.html''"] components_part(2)
      by simp_all
    with valid True r show ?thesis
      by (auto simp: is_valid_path_resolve resolve_append split: option.splits)
  qed (use valid is_valid_path_resolve in simp)
  then have whole: "resolve [] (components p') \<noteq> None" unfolding p' by (simp add: components_slash)
  obtain b where b: "p' = c_str p' @ b" using c_str_prefix by blast
  have "last (components (c_str p')) \<noteq> ''..''"
  proof
    assume dots: "last (components (c_str p')) = ''..''"
    obtain d where "base_dir srv @ CHR ''/'' # c_str p' = d @ CHR ''/'' # ''..''"
      using components_last [of "c_str p'"] dots by (metis append.assoc append_Cons last.simps)
    with assms(4) [of d] opened(1) show False by simp
  qed
  with resolve_cut [of "[]" "c_str p'" b] whole b have "resolve [] (components (c_str p')) \<noteq> None" by metis
  with opened show ?thesis by blast
qed

end
