(* ===== verification/HT_Requests.thy ===== *)
theory HT_Requests
  imports HT_Files HT_RoundTrip
begin

text \<open>
  The other direction of the exchange in src/libs/httplib.h: the request that
  \<open>Client::write_request\<close> writes, as \<open>Server::process_request\<close> reads it.
\<close>

subsection \<open>The request line\<close>

abbreviation methods :: "string list" where
  "methods \<equiv> [''GET'', ''HEAD'', ''POST'', ''PUT'', ''DELETE'', ''OPTIONS'']"

lemma rx_in_method: "rx_in method_rx s cs rest \<longleftrightarrow> cs = [] \<and> (\<exists>m \<in> set methods. s = m @ rest)"
  by (auto simp: method_rx_def)

lemma method_no_blank: "m \<in> set methods \<Longrightarrow> CHR '' '' \<notin> set m \<and> CHR ''?'' \<notin> set m \<and> LF \<notin> set m \<and> NUL \<notin> set m \<and> m \<noteq> []"
  by auto

lemma regex_request_line:
  assumes "m \<in> set methods" "t \<noteq> []" "CHR ''?'' \<notin> set t"
  shows "regex_match request_rx (m @ '' '' @ t @ '' '' @ ''HTTP/1.1'' @ crlf) =
    Some [(1, m), (2, t), (3, t), (5, ''HTTP/1.1'')]"
    (is "regex_match _ ?s = Some ?m")
proof (rule regex_match_unique)
  have no: "CHR ''?'' \<notin> set ?s" using assms(3) method_no_blank [OF assms(1)] by simp
  let ?version = "Cat (lit ''HTTP/1.'') (One (\<lambda>c. c = CHR ''0'' \<or> c = CHR ''1''))"
  let ?query = "Cat (lit ''?'') (Group 4 (Rep True 1 dot))"
  let ?path = "Cat (Group 3 (Rep False 1 (\<lambda>c. c \<noteq> CHR ''?''))) (Opt ?query)"
  let ?tail = "'' '' @ ''HTTP/1.1'' @ crlf"
  have "rx_in (Group 5 ?version) (''HTTP/1.1'' @ crlf) [(5, ''HTTP/1.1'')] crlf"
    by (rule rx_in_GroupI) simp_all
  then have ver: "rx_in (Cat (lit '' '') (Cat (Group 5 ?version) (lit crlf))) ?tail [(5, ''HTTP/1.1'')] []"
    by (intro rx_in_litI [where mid = "''HTTP/1.1'' @ crlf"]
        rx_in_CatI [where mid = crlf and csa = "[(5, ''HTTP/1.1'')]" and csb = "[]"]) simp_all
  have "rx_in (Group 3 (Rep False 1 (\<lambda>c. c \<noteq> CHR ''?''))) (t @ ?tail) [(3, t)] ?tail"
    using assms(2,3) by (intro rx_in_GroupI rx_in_RepI) (auto simp: list_all_iff Suc_le_eq)
  then have "rx_in (Group 2 ?path) (t @ ?tail) [(2, t), (3, t)] ?tail"
    by (intro rx_in_GroupI rx_in_CatI [where mid = ?tail and csa = "[(3, t)]" and csb = "[]"]) simp_all
  then have path: "rx_in (Cat (Group 2 ?path) (Cat (lit '' '') (Cat (Group 5 ?version) (lit crlf))))
      (t @ ?tail) [(2, t), (3, t), (5, ''HTTP/1.1'')] []"
    using ver by (rule rx_in_CatI) (rule append_Cons [symmetric] | simp)+
  have "rx_in (Group 1 method_rx) (m @ '' '' @ t @ ?tail) [(1, m)] ('' '' @ t @ ?tail)"
    using assms(1) by (intro rx_in_GroupI) (auto simp: rx_in_method)
  then show "rx_in request_rx ?s ?m []"
    unfolding request_rx_def by (rule rx_in_CatI [OF _ rx_in_litI [OF path refl]]) simp
  fix m' assume "rx_in request_rx ?s m' []"
  then obtain csa mid csb where a: "rx_in (Group 1 method_rx) ?s csa mid" "m' = csa @ csb"
    and b: "rx_in (Cat (lit '' '') (Cat (Group 2 ?path) (Cat (lit '' '') (Cat (Group 5 ?version) (lit crlf))))) mid csb []"
    unfolding request_rx_def by (rule rx_in_CatE)
  from a(1) obtain m1 where m1: "?s = m1 @ mid" "csa = [(1, m1)]" "m1 \<in> set methods"
    by (rule rx_in_GroupE) (auto simp: rx_in_method)
  from b obtain mid1 where mid1: "mid = '' '' @ mid1"
    "rx_in (Cat (Group 2 ?path) (Cat (lit '' '') (Cat (Group 5 ?version) (lit crlf)))) mid1 csb []"
    by (rule rx_in_litE)
  have m: "m1 = m \<and> mid1 = t @ ?tail"
  proof -
    have eq: "m1 @ CHR '' '' # mid1 = m @ CHR '' '' # t @ ?tail" using m1(1) mid1(1) by simp
    have blank: "CHR '' '' \<notin> set m1" "CHR '' '' \<notin> set m"
      using method_no_blank [OF m1(3)] method_no_blank [OF assms(1)] by blast+
    have "m1 = m"
      using arg_cong [OF eq, of "takeWhile (\<lambda>x. x \<noteq> CHR '' '')"]
      unfolding takeWhile_neq_append [OF blank(1)] takeWhile_neq_append [OF blank(2)] .
    with eq show ?thesis by simp
  qed
  from mid1(2) obtain csc mid2 csd where c: "rx_in (Group 2 ?path) mid1 csc mid2" "csb = csc @ csd"
    and d: "rx_in (Cat (lit '' '') (Cat (Group 5 ?version) (lit crlf))) mid2 csd []"
    by (rule rx_in_CatE)
  from d obtain v where v: "mid2 = '' '' @ v @ crlf" "csd = [(5, v)]" "v = ''HTTP/1.0'' \<or> v = ''HTTP/1.1''"
    by (elim rx_in_litE rx_in_CatE rx_in_GroupE) auto
  from c(1) obtain t2 cse where t2: "mid1 = t2 @ mid2" "csc = (2, t2) # cse" "rx_in ?path mid1 cse mid2"
    by (rule rx_in_GroupE)
  have t: "t2 = t \<and> v = ''HTTP/1.1''"
    using m t2(1) v(1,3) append_eq_append_conv [of t2 t mid2 ?tail] by auto
  from t2(3) have "cse = [(3, t)]"
  proof (rule rx_in_CatE)
    fix csf mid3 csg
    assume f: "rx_in (Group 3 (Rep False 1 (\<lambda>c. c \<noteq> CHR ''?''))) mid1 csf mid3"
      and g: "rx_in (Opt ?query) mid3 csg mid2" and cse: "cse = csf @ csg"
    from f obtain t3 where t3: "mid1 = t3 @ mid3" "csf = [(3, t3)]" by (rule rx_in_GroupE) auto
    have "CHR ''?'' \<notin> set mid1" using no m by simp
    then have "CHR ''?'' \<notin> set mid3" using t3(1) by (metis Un_iff set_append)
    with g have "csg = []" "mid3 = mid2" by auto
    with t3 t t2(1) cse show ?thesis by simp
  qed
  with a(2) m1(2) c(2) t2(2) v(2) m t show "m' = ?m" by simp
qed

text \<open>Paths that arrive as they were given: the client does not escape \<open>%\<close> and \<open>?\<close>, and a line
  ends at a newline.\<close>

definition plain_path :: "string \<Rightarrow> bool" where
  "plain_path p \<longleftrightarrow> p \<noteq> [] \<and> set p \<inter> {CHR ''%'', CHR ''?'', LF, NUL} = {}"

lemma encode_plain_path:
  assumes "plain_path p"
  shows "c_str (encode_url p) = encode_url p" "encode_url p \<noteq> []" "decode_url (encode_url p) = p"
    "CHR ''?'' \<notin> set (encode_url p)" "LF \<notin> set (encode_url p)" "NUL \<notin> set (encode_url p)"
proof -
  have p: "p \<noteq> []" "c_str p = p" "CHR ''%'' \<notin> set p" "CHR ''?'' \<notin> set p" "LF \<notin> set p" "NUL \<notin> set p"
    using assms by (auto simp: plain_path_def)
  have only: "c \<in> set p" if "c \<in> set (encode_url p)" "c \<notin> set ''%0123456789ABCDEF''" for c
    using encode_url_chars [OF that(1)] that(2) p(2) by auto
  show q: "CHR ''?'' \<notin> set (encode_url p)" and l: "LF \<notin> set (encode_url p)"
    and n: "NUL \<notin> set (encode_url p)"
    using only [of "CHR ''?''"] only [of LF] only [of NUL] p by auto
  show "c_str (encode_url p) = encode_url p" using n by simp
  show "encode_url p \<noteq> []" using p(1,2) by (cases p) (auto simp: encode_url_def)
  show "decode_url (encode_url p) = p" using p(2,3) by (simp add: encode_url_def decode_encode_chars)
qed

definition request_line :: "string \<Rightarrow> string \<Rightarrow> string" where
  "request_line m p = m @ '' '' @ encode_url p @ '' '' @ ''HTTP/1.1'' @ crlf"

definition parsed :: "string \<Rightarrow> string \<Rightarrow> http_request" where
  "parsed m p = Request\<lparr>req_version := ''HTTP/1.1'', req_method := m, req_target := encode_url p, req_path := p\<rparr>"

lemma parse_written_line:
  assumes "m \<in> set methods" "plain_path p"
  shows "parse_request_line (request_line m p) Request = Some (parsed m p)"
  using regex_request_line [OF assms(1), of "encode_url p"] encode_plain_path [OF assms(2)]
  by (simp add: parse_request_line_def request_line_def parsed_def sub_match_def Let_def)

lemma ref_line_request:
  assumes "m \<in> set methods" "plain_path p"
  shows "ref_line (request_line m p @ rest) e = Inr (Some (request_line m p), rest)"
proof -
  let ?l = "m @ '' '' @ encode_url p @ '' '' @ ''HTTP/1.1'' @ [CR]"
  have l: "LF \<notin> set ?l" "NUL \<notin> set (?l @ [LF])"
    using method_no_blank [OF assms(1)] encode_plain_path(5,6) [OF assms(2)] by auto
  have "request_line m p @ rest = ?l @ LF # rest" "?l @ [LF] = request_line m p" by (simp_all add: request_line_def)
  with ref_line_line [OF l(1), of rest e] c_str_id [OF l(2)] show ?thesis by metis
qed

subsection \<open>What the client writes\<close>

lemma client_header_names:
  "header_name ''Host''" "header_name ''Accept''" "header_name ''User-Agent''"
  "header_value ''*/*''" "header_value ''cpp-httplib/0.2''"
  by (simp_all add: header_name_def header_value_def isspace_def)

lemma request_headers_good:
  assumes "headers_good (req_headers req)" "header_value (cl_host_and_port cl)"
  shows "headers_good (req_headers (request_headers cl req))"
  using assms
  by (simp add: request_headers_def Let_def set_default_header_def req_set_header_def headers_good_set
      client_header_names server_header_names to_string_value)

lemma request_buffer_text:
  assumes "req_method req \<in> set methods" "plain_path (req_path req)" "headers_good (req_headers req')"
  shows "request_buffer req req' =
    request_line (req_method req) (req_path req) @ header_text (req_headers req') @ crlf @ req_body req'"
proof -
  have m: "c_str (req_method req) = req_method req" using method_no_blank [OF assms(1)] by simp
  have p: "c_str (encode_url (req_path req)) = encode_url (req_path req)" by (rule encode_plain_path [OF assms(2)])
  have "headers_clean (req_headers req')" using assms(3) by (simp add: headers_good_def)
  from buffer.write_headers_written [OF this] buffer.write_format_written buffer.write_written
  show ?thesis by (simp add: request_buffer_def m p request_line_def Let_def)
qed

subsection \<open>What the server reads\<close>

context byte_source begin

lemma next_line_some:
  assumes "ref_line (bytes s) (ending s) = Inr (Some l, rest)" "length (fixed_buffer r) = n" "1 < n"
  obtains r' s' where "next_line S r s = Inr ((Some l, r'), s')" "bytes s' = rest" "ending s' = ending s"
  using next_line_ref [OF assms(2,3), of s] assms(1) by (auto simp: line_agrees_def)

lemma read_headers_some:
  assumes "ref_headers hs (bytes s) (ending s) = Inr (a, rest)"
  obtains s' where "read_headers S hs s = Inr (a, s')" "bytes s' = rest" "ending s' = ending s"
  using read_headers_ref [of hs s] assms by (auto simp: agrees_Inr)

lemma read_content_some:
  assumes "ref_read_content hs body (bytes s) (ending s) = Inr (a, rest)"
  obtains s' where "read_content S hs body None s = Inr (a, s')" "bytes s' = rest" "ending s' = ending s"
  using read_content_ref [of None hs body s] assms by (auto simp: agrees_Inr)

end

definition delivered :: "string \<Rightarrow> http_request \<Rightarrow> http_request" where
  "delivered addr req = (parsed (req_method req) (req_path req))
     \<lparr>req_headers := set_header ''REMOTE_ADDR'' addr (req_headers req), req_body := req_body req\<rparr>"

text \<open>Content types of which the server takes the body apart.\<close>

definition form_type :: "string \<Rightarrow> bool" where
  "form_type t \<longleftrightarrow> is_prefix ''application/x-www-form-urlencoded'' t \<or> is_prefix ''multipart/form-data'' t"

lemma remote_addr_name: "NUL \<notin> set ''REMOTE_ADDR''" "map tolower ''REMOTE_ADDR'' = ''remote_addr''"
  by simp code_simp

lemma find_remote_addr:
  assumes "headers_good hs" "map tolower k \<noteq> ''remote_addr''"
  shows "mm_find ci k (set_header ''REMOTE_ADDR'' addr hs) = mm_find ci k hs"
  using mm_find_set_header [OF headers_good_ok [OF assms(1)] remote_addr_name(1), of k addr] assms(2)
  unfolding remote_addr_name(2) by auto

text \<open>The headers that say how the body is to be read.\<close>

lemma request_framing:
  assumes "headers_good (req_headers req)" "header_value (cl_host_and_port cl)"
    and "\<not> has_header (req_headers req) ''Content-Length''" "\<not> has_header (req_headers req) ''Transfer-Encoding''"
    and "req_method req = ''POST'' \<or> req_method req = ''PUT''"
  shows "mm_find ci ''Content-Length'' (req_headers (request_headers cl req)) = Some (to_string (length (req_body req)))"
    and "mm_find ci ''Transfer-Encoding'' (req_headers (request_headers cl req)) = None"
    and "mm_find ci ''Content-Encoding'' (req_headers (request_headers cl req)) = mm_find ci ''Content-Encoding'' (req_headers req)"
proof -
  have names: "map tolower ''Host'' = ''host''" "map tolower ''Accept'' = ''accept''"
    "map tolower ''User-Agent'' = ''user-agent''" by code_simp+
  note lookup = request_headers_def Let_def set_default_header_def req_set_header_def req_has_header_def
    has_header_def find_set_good headers_good_set client_header_names server_header_names to_string_value
    lower_names names to_string_zero
  show "mm_find ci ''Content-Length'' (req_headers (request_headers cl req)) = Some (to_string (length (req_body req)))"
    using assms by (auto simp: lookup simp del: list.map)
  show "mm_find ci ''Transfer-Encoding'' (req_headers (request_headers cl req)) = None"
    using assms by (auto simp: lookup simp del: list.map)
  show "mm_find ci ''Content-Encoding'' (req_headers (request_headers cl req)) = mm_find ci ''Content-Encoding'' (req_headers req)"
    using assms by (auto simp: lookup simp del: list.map)
qed

lemma request_headers_path [simp]: "req_path (request_headers cl req) = req_path req"
  by (simp add: request_headers_def set_default_header_def req_set_header_def Let_def)

lemma delivered_fields [simp]:
  "req_method (delivered addr req) = req_method req" "req_body (delivered addr req) = req_body req"
  "req_headers (delivered addr req) = set_header ''REMOTE_ADDR'' addr (req_headers req)"
  "(delivered addr req)\<lparr>req_body := b\<rparr> = delivered addr (req\<lparr>req_body := b\<rparr>)"
  by (simp_all add: delivered_def parsed_def Request_def)

text \<open>The head of a request is read as it was written.\<close>

lemma process_request_head:
  assumes "m \<in> set methods" "plain_path p" "headers_good hs"
    and "concat (inbox s) = request_line m p @ header_text hs @ crlf @ bs"
  obtains s2 where "concat (inbox s2) = bs" "sock_end s2 = sock_end s"
    "Server_process_request fs socket_ops srv last_connection s =
      (let req = (parsed m p)\<lparr>req_headers := set_header ''REMOTE_ADDR'' (s_remote_addr socket_ops s2) hs\<rparr>;
           res = Response\<lparr>res_version := ''HTTP/1.1''\<rparr>; close = (get_header_value hs ''Connection'' [] = ''close'')
       in bindE (if m = ''POST'' \<or> m = ''PUT'' then request_body socket_ops req s2 else Inr ((None, req), s2))
        (\<lambda>((err, req3), s3). case err of
           Some st \<Rightarrow> respond socket_ops srv last_connection close req3 (res\<lparr>res_status := st\<rparr>) s3
         | None \<Rightarrow> route_and_respond fs socket_ops srv last_connection close req3 res s3))"
proof -
  have buf: "length (fixed_buffer (stream_line_reader (uninit 2048))) = 2048" "1 < (2048::nat)" by simp_all
  have line: "ref_line (concat (inbox s)) (sock_end s) = Inr (Some (request_line m p), header_text hs @ crlf @ bs)"
    unfolding assms(4) by (rule ref_line_request [OF assms(1,2)])
  obtain r' s1 where s1: "next_line socket_ops (stream_line_reader (uninit 2048)) s = Inr ((Some (request_line m p), r'), s1)"
    "concat (inbox s1) = header_text hs @ crlf @ bs" "sock_end s1 = sock_end s"
    using socket.next_line_some [OF line buf] by blast
  have "fold (\<lambda>(n, v). mm_emplace ci n v) hs [] = hs"
    using headers.fold_emplace_sorted [of "[]" hs] assms(3) by (simp add: headers_good_def)
  then have "ref_headers [] (concat (inbox s1)) (sock_end s1) = Inr ((True, hs), bs)"
    using ref_headers_text [of hs "[]" bs] assms(3) s1(2) by (simp add: headers_good_def)
  then obtain s2 where s2: "read_headers socket_ops [] s1 = Inr ((True, hs), s2)" "concat (inbox s2) = bs"
    "sock_end s2 = sock_end s1"
    using socket.read_headers_some by blast
  have fields: "req_headers (parsed m p) = []" "req_method (parsed m p) = m"
    by (simp_all add: parsed_def Request_def)
  show thesis
    using s1(3) s2
    by (intro that [of s2])
      (simp_all add: Server_process_request_def s1(1) parse_written_line [OF assms(1,2)] fields Let_def
        req_get_header_value_def req_set_header_def)
qed

text \<open>The body of a request with one is read whole.\<close>

lemma request_body_written:
  assumes "headers_good (req_headers req)" "header_value (cl_host_and_port cl)"
    and "\<not> has_header (req_headers req) ''Content-Length''" "\<not> has_header (req_headers req) ''Transfer-Encoding''"
    and "req_method req = ''POST'' \<or> req_method req = ''PUT''" "length (req_body req) < 2 ^ 31"
    and "get_header_value (req_headers req) ''Content-Encoding'' [] \<noteq> ''gzip''"
    and "\<not> form_type (get_header_value (req_headers (request_headers cl req)) ''Content-Type'' [])"
    and "concat (inbox s) = req_body req @ rest" "req_body req0 = []"
    and "req_headers req0 = set_header ''REMOTE_ADDR'' addr (req_headers (request_headers cl req))"
  obtains s' where "request_body socket_ops req0 s = Inr ((None, req0\<lparr>req_body := req_body req\<rparr>), s')"
    "concat (inbox s') = rest"
proof -
  let ?sent = "req_headers (request_headers cl req)" and ?hs = "req_headers req0"
  note framing = request_framing [OF assms(1-5)]
  have find: "mm_find ci k ?hs = mm_find ci k ?sent" if "map tolower k \<noteq> ''remote_addr''" for k
    unfolding assms(11) by (rule find_remote_addr [OF request_headers_good [OF assms(1,2)] that])
  have low: "map tolower ''Content-Length'' \<noteq> ''remote_addr''" "map tolower ''Transfer-Encoding'' \<noteq> ''remote_addr''"
    "map tolower ''Content-Encoding'' \<noteq> ''remote_addr''" "map tolower ''Content-Type'' \<noteq> ''remote_addr''"
    unfolding lower_names by simp_all
  have te: "\<not> is_chunked ?hs"
    using find [OF low(2)] framing(2) by (simp add: is_chunked_def get_header_value_def strcasecmp_eq_def)
  have "ref_read_content ?hs [] (concat (inbox s)) (sock_end s) = Inr ((True, req_body req), rest)"
    using find [OF low(1)] framing(1) assms(9)
    by (intro ref_read_content_length [OF _ assms(6) te]) simp_all
  then obtain s' where s': "read_content socket_ops ?hs [] None s = Inr ((True, req_body req), s')" "concat (inbox s') = rest"
    using socket.read_content_some by blast
  have enc: "get_header_value ?hs ''Content-Encoding'' [] \<noteq> ''gzip''"
    using find [OF low(3)] framing(3) assms(7) by (simp add: get_header_value_def)
  have ct: "\<not> form_type (get_header_value ?hs ''Content-Type'' [])"
    using find [OF low(4)] assms(8) by (simp add: get_header_value_def)
  show thesis
    using s' enc ct assms(10)
    by (intro that [of s']) (simp_all add: request_body_def req_get_header_value_def form_type_def Let_def)
qed

text \<open>C17: The server reads the request that the client wrote: its handlers get the method, the
  path, the headers and the body that were sent (and the peer's address as one more header),
  for every method, in whatever pieces the socket delivers the bytes; the bytes behind the
  request stay unread.\<close>

theorem server_reads_client_request:
  assumes "write_request socket_ops cl req out = (req', out')" "sent out = []"
    and "concat (inbox s) = sent out' @ rest"
    and "req_method req \<in> set methods" "plain_path (req_path req)" "length (req_body req) < 2 ^ 31"
    and "headers_good (req_headers req)" "header_value (cl_host_and_port cl)"
    and "\<not> has_header (req_headers req) ''Content-Length''" "\<not> has_header (req_headers req) ''Transfer-Encoding''"
    and "if req_method req = ''POST'' \<or> req_method req = ''PUT''
         then get_header_value (req_headers req) ''Content-Encoding'' [] \<noteq> ''gzip'' \<and>
              \<not> form_type (get_header_value (req_headers req') ''Content-Type'' [])
         else req_body req = []"
  shows "\<exists>s' addr. concat (inbox s') = rest \<and>
    Server_process_request fs socket_ops srv last_connection s =
      route_and_respond fs socket_ops srv last_connection
        (get_header_value (req_headers req') ''Connection'' [] = ''close'')
        (delivered addr req') (Response\<lparr>res_version := ''HTTP/1.1''\<rparr>) s'"
proof -
  have req': "req' = request_headers cl req" using assms(1) by (simp add: write_request_def Let_def)
  have good: "headers_good (req_headers req')" unfolding req' by (rule request_headers_good [OF assms(7,8)])
  have body: "req_body req' = req_body req" "req_method req' = req_method req" "req_path req' = req_path req"
    by (simp_all add: req')
  have "sent out' = request_line (req_method req) (req_path req) @ header_text (req_headers req') @ crlf @ req_body req"
    using assms(1,2) request_buffer_text [OF assms(4,5) good] body
    by (auto simp: write_request_def Let_def req')
  then have bytes: "concat (inbox s) = request_line (req_method req) (req_path req) @
      header_text (req_headers req') @ crlf @ req_body req @ rest" using assms(3) by simp
  obtain s2 where s2: "concat (inbox s2) = req_body req @ rest" and head: "Server_process_request fs socket_ops srv last_connection s =
      (let req0 = (parsed (req_method req) (req_path req))
             \<lparr>req_headers := set_header ''REMOTE_ADDR'' (s_remote_addr socket_ops s2) (req_headers req')\<rparr>;
           res = Response\<lparr>res_version := ''HTTP/1.1''\<rparr>; close = (get_header_value (req_headers req') ''Connection'' [] = ''close'')
       in bindE (if req_method req = ''POST'' \<or> req_method req = ''PUT'' then request_body socket_ops req0 s2 else Inr ((None, req0), s2))
        (\<lambda>((err, req3), s3). case err of
           Some st \<Rightarrow> respond socket_ops srv last_connection close req3 (res\<lparr>res_status := st\<rparr>) s3
         | None \<Rightarrow> route_and_respond fs socket_ops srv last_connection close req3 res s3))"
    by (rule process_request_head [OF assms(4,5) good bytes])
  let ?addr = "s_remote_addr socket_ops s2"
  let ?hs = "set_header ''REMOTE_ADDR'' ?addr (req_headers req')"
  let ?req0 = "(parsed (req_method req) (req_path req))\<lparr>req_headers := ?hs\<rparr>"
  have req0: "?req0\<lparr>req_body := req_body req\<rparr> = delivered ?addr req'" "req_body ?req0 = []"
    by (simp_all add: delivered_def body parsed_def Request_def)
  show ?thesis
  proof (cases "req_method req = ''POST'' \<or> req_method req = ''PUT''")
    case False
    then have "req_body req = []" using assms(11) by simp
    moreover have "?req0 = ?req0\<lparr>req_body := []\<rparr>" by (simp add: parsed_def Request_def)
    ultimately have "?req0 = delivered ?addr req'" using req0(1) by simp
    with head False s2 \<open>req_body req = []\<close> show ?thesis by (auto simp: Let_def)
  next
    case True
    obtain s3 where "request_body socket_ops ?req0 s2 = Inr ((None, ?req0\<lparr>req_body := req_body req\<rparr>), s3)"
      and s3: "concat (inbox s3) = rest"
      by (rule request_body_written [OF assms(7-10) True assms(6) _ _ s2 req0(2)])
        (use assms(11) True in \<open>simp_all add: req'\<close>)
    then have "request_body socket_ops ?req0 s2 = Inr ((None, delivered ?addr req'), s3)" unfolding req0 by simp
    with head True s3 show ?thesis by (auto simp: Let_def)
  qed
qed

text \<open>A client chooses the address that the handlers see: \<open>REMOTE_ADDR\<close> is stored as one more
  header behind those of the request, and reading a header gives the first.\<close>

theorem remote_addr_spoofed:
  assumes "headers_good hs" "mm_find ci ''REMOTE_ADDR'' hs = Some v"
  shows "req_get_header_value (req_set_header ''REMOTE_ADDR'' addr (req\<lparr>req_headers := hs\<rparr>)) ''REMOTE_ADDR'' = c_str v"
  using mm_find_set_header [OF headers_good_ok [OF assms(1)] remote_addr_name(1), of "''REMOTE_ADDR''" addr] assms(2)
  by (simp add: req_get_header_value_def req_set_header_def get_header_value_def)

subsection \<open>Examples\<close>

text \<open>A file system with one file, next to the directory that is served.\<close>

definition sample_files :: file_system where
  "sample_files = \<lparr>fs_is_file = (\<lambda>f. f = ''/www-x/key''), fs_is_dir = (\<lambda>f. f = ''/www''), fs_content = (\<lambda>_. ''secret'')\<rparr>"

definition sample_server :: server where
  "sample_server = snd (set_base_dir sample_files ''/www'' Server)"

lemma sample_server_base [simp]: "base_dir sample_server = ''/www''"
  by (simp add: sample_server_def set_base_dir_def sample_files_def)

text \<open>The name of a served file is the base directory followed by the path, and a path need
  not start with a slash: a request for \<open>-x/key\<close> gets a file of \<open>/www-x\<close> from a server for
  \<open>/www\<close>.\<close>

theorem sibling_of_base_served:
  "\<exists>req res. parse_request_line (''GET -x/key HTTP/1.1'' @ crlf) Request = Some req \<and>
     handle_file_request sample_files sample_server req Response = (True, res) \<and> res_body res = ''secret''"
proof -
  have p: "plain_path ''-x/key''" by (simp add: plain_path_def)
  have "encode_url ''-x/key'' = ''-x/key''" by code_simp
  then have "parse_request_line (''GET -x/key HTTP/1.1'' @ crlf) Request = Some (parsed ''GET'' ''-x/key'')"
    using parse_written_line [of "''GET''" "''-x/key''"] p by (simp add: request_line_def)
  moreover have "req_path (parsed ''GET'' ''-x/key'') = ''-x/key''" by (simp add: parsed_def)
  moreover have "is_valid_path ''-x/key''" by code_simp
  ultimately show ?thesis
    by (auto simp: handle_file_request_def sample_files_def Let_def res_set_header_def split: option.splits)
qed

definition sample_page :: file_system where
  "sample_page = \<lparr>fs_is_file = (\<lambda>f. f = ''/www/a/index.html''), fs_is_dir = (\<lambda>f. f = ''/www''), fs_content = (\<lambda>_. ''page'')\<rparr>"

theorem served_file_below_base_witness:
  "\<exists>q. fs_is_file sample_page (base_dir sample_server @ CHR ''/'' # q) \<and> resolve [] (components q) \<noteq> None \<and>
    res_body (snd (handle_file_request sample_page sample_server (parsed ''GET'' ''/a/'') Response)) =
      fs_content sample_page (base_dir sample_server @ CHR ''/'' # q)"
proof (rule served_file_below_base)
  have "is_valid_path ''/a/''" by code_simp
  then have "fst (handle_file_request sample_page sample_server (parsed ''GET'' ''/a/'') Response)"
    by (simp add: handle_file_request_def sample_page_def parsed_def Let_def split: option.splits)
  then show "handle_file_request sample_page sample_server (parsed ''GET'' ''/a/'') Response =
      (True, snd (handle_file_request sample_page sample_server (parsed ''GET'' ''/a/'') Response))"
    by (simp add: prod_eq_iff)
  show "req_path (parsed ''GET'' ''/a/'') = CHR ''/'' # ''a/''" by (simp add: parsed_def)
  show "\<not> fs_is_file sample_page (d @ ''/..'')" for d
    using append_eq_append_conv2 [of d "''/..''" "''/www/a/index.html''" "[]"]
    by (auto simp: sample_page_def dest: arg_cong [of _ _ last])
qed simp

definition sample_put :: http_request where
  "sample_put = Request\<lparr>req_method := ''PUT'', req_path := ''/a b'', req_body := ''xy''\<rparr>"

theorem server_reads_client_request_witness:
  "\<exists>s' addr. concat (inbox s') = ''GET'' \<and>
    Server_process_request sample_files socket_ops Server True
      (fresh_sock [sent (snd (write_request socket_ops (Client ''gw'' 80 300) sample_put (fresh_sock [] Closes))), ''GET''] Closes) =
    route_and_respond sample_files socket_ops Server True
      (get_header_value (req_headers (request_headers (Client ''gw'' 80 300) sample_put)) ''Connection'' [] = ''close'')
      (delivered addr (request_headers (Client ''gw'' 80 300) sample_put)) (Response\<lparr>res_version := ''HTTP/1.1''\<rparr>) s'"
proof (rule server_reads_client_request)
  show "write_request socket_ops (Client ''gw'' 80 300) sample_put (fresh_sock [] Closes) =
      (request_headers (Client ''gw'' 80 300) sample_put,
       snd (write_request socket_ops (Client ''gw'' 80 300) sample_put (fresh_sock [] Closes)))"
    by (simp add: write_request_def Let_def)
  show host: "header_value (cl_host_and_port (Client ''gw'' 80 300))"
    using to_string_value [of 80] by (simp add: Client_def int_to_string_def header_value_def isspace_def)
  have names: "map tolower ''Host'' = ''host''" "map tolower ''Accept'' = ''accept''"
    "map tolower ''User-Agent'' = ''user-agent''" by code_simp+
  have good: "headers_good (req_headers sample_put)"
    by (simp add: sample_put_def Request_def headers_good_def headers_clean_def mm_sorted_def)
  have "mm_find ci ''Content-Type'' (req_headers (request_headers (Client ''gw'' 80 300) sample_put)) = Some ''text/plain''"
    using good host
    by (simp add: request_headers_def Let_def set_default_header_def req_set_header_def req_has_header_def
        has_header_def find_set_good headers_good_set client_header_names server_header_names to_string_value
        lower_names names sample_put_def del: list.map) (simp add: Request_def)
  then show "if req_method sample_put = ''POST'' \<or> req_method sample_put = ''PUT''
      then get_header_value (req_headers sample_put) ''Content-Encoding'' [] \<noteq> ''gzip'' \<and>
        \<not> form_type (get_header_value (req_headers (request_headers (Client ''gw'' 80 300) sample_put)) ''Content-Type'' [])
      else req_body sample_put = []"
    by (simp add: get_header_value_def form_type_def sample_put_def Request_def)
qed (simp_all add: sample_put_def Request_def fresh_sock_def plain_path_def headers_good_def headers_clean_def
    mm_sorted_def has_header_def)

theorem remote_addr_spoofed_witness:
  "req_get_header_value (req_set_header ''REMOTE_ADDR'' ''10.0.0.1'' (Request\<lparr>req_headers := [(''remote_addr'', ''127.0.0.1'')]\<rparr>))
     ''REMOTE_ADDR'' = c_str ''127.0.0.1''"
  by (rule remote_addr_spoofed)
    (simp_all add: headers_good_def headers_clean_def mm_sorted_def header_name_def header_value_def isspace_def ci_eval)

end
