(* ===== verification/HT_Listen.thy ===== *)
theory HT_Listen
  imports HT_Requests
begin

text \<open>
  The accept loop of \<open>httplib::Server\<close> (src/libs/httplib.h): binding, \<open>listen_internal\<close> with
  one detached thread for each connection, and \<open>stop\<close>, which another thread calls.

  \<^item> Each rule of \<open>listen_step\<close> is one access to the shared fields \<open>svr_sock_\<close>, \<open>is_running_\<close>
    and \<open>running_threads_\<close> or one system call; the program counter \<open>li_pc\<close> is that of
    \<open>listen_internal\<close>. Accesses to \<open>svr_sock_\<close>, which is not atomic, are taken to be atomic.
  \<^item> A connection thread is created (\<open>li_spawned\<close>), counts itself (\<open>li_serving\<close>), serves its
    connection and uncounts itself (\<open>li_leaving\<close>). An exception in it ends the program.
  \<^item> \<open>li_accepted\<close> and \<open>li_served\<close> record the descriptors that were accepted and closed.
\<close>

subsection \<open>Binding\<close>

text \<open>What \<open>bind\<close> and \<open>listen\<close> return on a new socket.\<close>

record bind_result =
  bind_ret :: int
  listen_ret :: int

datatype sockname = Getsockname_failed | Inet nat | Inet6 nat | Other_family

type_synonym bind_network = "string \<Rightarrow> int \<Rightarrow> int \<Rightarrow> (int \<times> bind_result) list option"

definition bind_fn :: "int \<Rightarrow> bind_result \<Rightarrow> bool \<times> fd_event list" where
  "bind_fn sock ai = (if bind_ret ai \<noteq> 0 then False else if listen_ret ai \<noteq> 0 then False else True, [])"

definition create_server_socket :: "bind_network \<Rightarrow> string \<Rightarrow> int \<Rightarrow> int \<Rightarrow> int \<times> fd_event list" where
  "create_server_socket B hst prt socket_flags =
     (case B hst prt socket_flags of
        None \<Rightarrow> (-1, [])
      | Some rps \<Rightarrow> (case create_socket bind_fn rps of
            (None, evs) \<Rightarrow> (-1, evs)
          | (Some (sock, _), evs) \<Rightarrow> (sock, evs)))"

definition bind_internal :: "bind_network \<Rightarrow> (int \<Rightarrow> sockname) \<Rightarrow> string \<Rightarrow> int \<Rightarrow> int \<Rightarrow> server \<Rightarrow>
    (int \<times> server) \<times> fd_event list" where
  "bind_internal B getsockname hst prt socket_flags srv =
     (let (sock, evs) = create_server_socket B hst prt socket_flags; srv' = srv\<lparr>svr_sock := sock\<rparr> in
      (if sock = -1 then (-1, srv')
       else if prt = 0 then
         (case getsockname sock of
            Getsockname_failed \<Rightarrow> (-1, srv')
          | Inet p \<Rightarrow> (int p, srv')
          | Inet6 p \<Rightarrow> (int p, srv')
          | Other_family \<Rightarrow> (-1, srv'))
       else (prt, srv'), evs))"

definition bind_to_any_port :: "bind_network \<Rightarrow> (int \<Rightarrow> sockname) \<Rightarrow> string \<Rightarrow> int \<Rightarrow> server \<Rightarrow>
    (int \<times> server) \<times> fd_event list" where
  "bind_to_any_port B getsockname hst socket_flags srv = bind_internal B getsockname hst 0 socket_flags srv"

subsection \<open>Listening\<close>

datatype listen_pc =
    L_loop
  | L_selecting int
  | L_timeout
  | L_readable
  | L_accepting int
  | L_accept_failed
  | L_draining bool
  | L_drained bool
  | L_returned bool
  | L_undefined
  | L_terminated

record listening =
  li_server :: server
  li_pc :: listen_pc
  li_spawned :: "int list"
  li_serving :: "int list"
  li_leaving :: nat
  li_threads :: int
  li_stopping :: "int option"
  li_accepted :: "int list"
  li_served :: "int list"

text \<open>\<open>listen_internal\<close> on a bound server; \<open>listen\<close> is this after a successful \<open>bind_internal\<close>.\<close>

definition listen_start :: "server \<Rightarrow> listening" where
  "listen_start srv = \<lparr>li_server = srv\<lparr>is_running := True\<rparr>, li_pc = L_loop, li_spawned = [], li_serving = [],
     li_leaving = 0, li_threads = 0, li_stopping = None, li_accepted = [], li_served = []\<rparr>"

definition Server_listen :: "bind_network \<Rightarrow> (int \<Rightarrow> sockname) \<Rightarrow> string \<Rightarrow> int \<Rightarrow> int \<Rightarrow> server \<Rightarrow>
    (server + listening) \<times> fd_event list" where
  "Server_listen B getsockname hst prt socket_flags srv =
     (let ((ret, srv'), evs) = bind_internal B getsockname hst prt socket_flags srv in
      (if ret < 0 then Inl srv' else Inr (listen_start srv'), evs))"

text \<open>\<open>stop\<close> up to the system calls: the descriptor that it shuts down and closes, if any.\<close>

definition Server_stop :: "server \<Rightarrow> (server \<times> int option) result" where
  "Server_stop srv =
     (if is_running srv
      then (if svr_sock srv = -1 then Inl (Aborts ''assert'') else Inr (srv\<lparr>svr_sock := -1\<rparr>, Some (svr_sock srv)))
      else Inr (srv, None))"

text \<open>\<open>serve sock\<close> is how \<open>read_and_close_socket(sock)\<close> ends in a thread.\<close>

inductive listen_step :: "(int \<Rightarrow> 'r result) \<Rightarrow> listening \<Rightarrow> listening \<Rightarrow> bool"
  for serve :: "int \<Rightarrow> 'r result" where
  ls_select: "li_pc L = L_loop \<Longrightarrow> svr_sock (li_server L) \<noteq> -1 \<Longrightarrow>
    listen_step serve L (L\<lparr>li_pc := L_selecting (svr_sock (li_server L))\<rparr>)"
| ls_select_invalid: "li_pc L = L_loop \<Longrightarrow> svr_sock (li_server L) = -1 \<Longrightarrow>
    listen_step serve L (L\<lparr>li_pc := L_undefined\<rparr>)"
| ls_selected: "li_pc L = L_selecting sock \<Longrightarrow>
    listen_step serve L (L\<lparr>li_pc := (if val = (0::int) then L_timeout else L_readable)\<rparr>)"
| ls_timeout: "li_pc L = L_timeout \<Longrightarrow>
    listen_step serve L (L\<lparr>li_pc := (if svr_sock (li_server L) = -1 then L_draining True else L_loop)\<rparr>)"
| ls_accept: "li_pc L = L_readable \<Longrightarrow>
    listen_step serve L (L\<lparr>li_pc := L_accepting (svr_sock (li_server L))\<rparr>)"
| ls_accepted: "li_pc L = L_accepting fd \<Longrightarrow> fd \<noteq> -1 \<Longrightarrow> sock \<noteq> -1 \<Longrightarrow>
    listen_step serve L (L\<lparr>li_pc := L_loop, li_spawned := sock # li_spawned L, li_accepted := sock # li_accepted L\<rparr>)"
| ls_accept_failed: "li_pc L = L_accepting fd \<Longrightarrow>
    listen_step serve L (L\<lparr>li_pc := L_accept_failed\<rparr>)"
| ls_leave_loop: "li_pc L = L_accept_failed \<Longrightarrow>
    listen_step serve L (L\<lparr>li_pc := L_draining (svr_sock (li_server L) = -1)\<rparr>)"
| ls_drained: "li_pc L = L_draining ret \<Longrightarrow> li_threads L = 0 \<Longrightarrow>
    listen_step serve L (L\<lparr>li_pc := L_drained ret\<rparr>)"
| ls_return: "li_pc L = L_drained ret \<Longrightarrow>
    listen_step serve L (L\<lparr>li_pc := L_returned ret, li_server := (li_server L)\<lparr>is_running := False\<rparr>\<rparr>)"
| ls_enter: "li_pc L \<noteq> L_terminated \<Longrightarrow> sock \<in> set (li_spawned L) \<Longrightarrow>
    listen_step serve L (L\<lparr>li_spawned := remove1 sock (li_spawned L), li_serving := sock # li_serving L,
      li_threads := li_threads L + 1\<rparr>)"
| ls_serve: "li_pc L \<noteq> L_terminated \<Longrightarrow> sock \<in> set (li_serving L) \<Longrightarrow> serve sock = Inr r \<Longrightarrow>
    listen_step serve L (L\<lparr>li_serving := remove1 sock (li_serving L), li_leaving := li_leaving L + 1,
      li_served := sock # li_served L\<rparr>)"
| ls_throw: "li_pc L \<noteq> L_terminated \<Longrightarrow> sock \<in> set (li_serving L) \<Longrightarrow> serve sock = Inl f \<Longrightarrow>
    f \<noteq> Diverges \<Longrightarrow> listen_step serve L (L\<lparr>li_pc := L_terminated\<rparr>)"
| ls_leave: "li_pc L \<noteq> L_terminated \<Longrightarrow> 0 < li_leaving L \<Longrightarrow>
    listen_step serve L (L\<lparr>li_leaving := li_leaving L - 1, li_threads := li_threads L - 1\<rparr>)"
| ls_stop: "li_pc L \<noteq> L_terminated \<Longrightarrow> Server_stop (li_server L) = Inr (srv', Some sock) \<Longrightarrow>
    listen_step serve L (L\<lparr>li_stopping := Some sock, li_server := srv'\<rparr>)"
| ls_stop_again: "li_pc L \<noteq> L_terminated \<Longrightarrow> Server_stop (li_server L) = Inl f \<Longrightarrow>
    listen_step serve L (L\<lparr>li_pc := L_terminated\<rparr>)"
| ls_stopped: "li_pc L \<noteq> L_terminated \<Longrightarrow> li_stopping L = Some sock \<Longrightarrow>
    listen_step serve L (L\<lparr>li_stopping := None\<rparr>)"

inductive listen_reach :: "(int \<Rightarrow> 'r result) \<Rightarrow> server \<Rightarrow> listening \<Rightarrow> bool"
  for serve srv where
  lr_start: "listen_reach serve srv (listen_start srv)"
| lr_step: "listen_reach serve srv L \<Longrightarrow> listen_step serve L L' \<Longrightarrow> listen_reach serve srv L'"
declare listen_step.intros [intro]

subsection \<open>The threads are counted\<close>

definition threads_ok :: "listening \<Rightarrow> bool" where
  "threads_ok L \<longleftrightarrow> li_threads L = int (length (li_serving L) + li_leaving L) \<and>
     mset (li_accepted L) = mset (li_spawned L) + mset (li_serving L) + mset (li_served L)"

lemma threads_ok_step: "listen_step serve L L' \<Longrightarrow> threads_ok L \<Longrightarrow> threads_ok L'"
proof (induction rule: listen_step.induct)
  case (ls_serve L sock r)
  then have "length (li_serving L) = Suc (length (remove1 sock (li_serving L)))"
    by (simp add: length_remove1) (metis Suc_pred length_pos_if_in_set)
  with ls_serve show ?case by (simp add: threads_ok_def)
qed (auto simp: threads_ok_def)

lemma threads_ok_reach: "listen_reach serve srv L \<Longrightarrow> threads_ok L"
  by (induction rule: listen_reach.induct) (auto simp: listen_start_def intro: threads_ok_step, simp add: threads_ok_def)

text \<open>The counter of the server is the number of threads between counting and uncounting
  themselves, and every accepted connection is waiting for its thread, being served, or served
  and closed exactly once.\<close>

theorem connections_accounted:
  assumes "listen_reach serve srv L"
  shows "li_threads L = int (length (li_serving L) + li_leaving L) \<and>
    mset (li_accepted L) = mset (li_spawned L) + mset (li_serving L) + mset (li_served L)"
  using threads_ok_reach [OF assms] by (simp add: threads_ok_def)

text \<open>After the accept loop, with every thread counted, the loop that waits does wait.\<close>

definition waiting :: "listening \<Rightarrow> bool" where
  "waiting L \<longleftrightarrow> li_spawned L = [] \<and> threads_ok L \<and>
     (case li_pc L of
        L_draining _ \<Rightarrow> True
      | L_drained _ \<Rightarrow> li_serving L = [] \<and> li_leaving L = 0
      | L_returned _ \<Rightarrow> li_serving L = [] \<and> li_leaving L = 0
      | L_terminated \<Rightarrow> True
      | _ \<Rightarrow> False)"

lemma waiting_step:
  assumes "listen_step serve L L'" "waiting L"
  shows "waiting L'"
proof -
  have zero: "int a + int b = 0 \<longleftrightarrow> a = 0 \<and> b = 0" for a b by linarith
  have "threads_ok L'" using assms threads_ok_step by (auto simp: waiting_def)
  with assms show ?thesis
    by (cases rule: listen_step.cases) (auto simp: waiting_def threads_ok_def zero split: listen_pc.splits)
qed

text \<open>C24: When every connection thread has counted itself before the accept loop ends, \<open>listen\<close>
  returns only after every accepted connection has been served.\<close>

theorem listen_waits_for_counted_threads:
  assumes "listen_reach serve srv L" "li_pc L = L_draining r" "li_spawned L = []"
    and "(listen_step serve)\<^sup>*\<^sup>* L L'" "li_pc L' = L_returned r'"
  shows "mset (li_accepted L') = mset (li_served L')"
proof -
  have "waiting L" using assms(1-3) threads_ok_reach by (simp add: waiting_def)
  with assms(4) have "waiting L'" by (induction rule: rtranclp_induct) (auto intro: waiting_step)
  with assms(5) show ?thesis by (auto simp: waiting_def threads_ok_def)
qed

subsection \<open>Runs\<close>

lemma listen_reach_trans: "listen_reach serve srv L \<Longrightarrow> (listen_step serve)\<^sup>*\<^sup>* L L' \<Longrightarrow> listen_reach serve srv L'"
  by (rotate_tac) (induction rule: rtranclp_induct, auto intro: lr_step)

text \<open>A connection is accepted.\<close>

lemma run_accept:
  assumes "svr_sock srv \<noteq> -1" "sock \<noteq> -1"
  shows "listen_reach serve srv ((listen_start srv)\<lparr>li_spawned := [sock], li_accepted := [sock]\<rparr>)"
proof -
  let ?L = "listen_start srv"
  have s: "li_pc ?L = L_loop" "svr_sock (li_server ?L) = svr_sock srv" by (simp_all add: listen_start_def)
  have "listen_reach serve srv (?L\<lparr>li_pc := L_selecting (svr_sock srv)\<rparr>)"
    using lr_step [OF lr_start ls_select [of ?L]] s assms(1) by simp
  from lr_step [OF this ls_selected [where val = 1]]
  have "listen_reach serve srv (?L\<lparr>li_pc := L_readable\<rparr>)" by simp
  from lr_step [OF this ls_accept] have "listen_reach serve srv (?L\<lparr>li_pc := L_accepting (svr_sock srv)\<rparr>)"
    by (simp add: s)
  from lr_step [OF this ls_accepted [OF _ assms]] show ?thesis by (simp add: listen_start_def)
qed

text \<open>\<open>stop\<close> during a \<open>select\<close> that times out, then the end of the loop, which sees no counted
  thread.\<close>

lemma run_stop_loop:
  assumes "listen_reach serve srv L" "li_pc L = L_loop" "svr_sock (li_server L) \<noteq> -1" "is_running (li_server L)"
  shows "listen_reach serve srv (L\<lparr>li_pc := L_draining True, li_stopping := Some (svr_sock (li_server L)),
    li_server := (li_server L)\<lparr>svr_sock := -1\<rparr>\<rparr>)"
proof -
  let ?at = "\<lambda>p. L\<lparr>li_pc := p, li_stopping := Some (svr_sock (li_server L)), li_server := (li_server L)\<lparr>svr_sock := -1\<rparr>\<rparr>"
  have "listen_reach serve srv (L\<lparr>li_pc := L_selecting (svr_sock (li_server L))\<rparr>)"
    using lr_step [OF assms(1) ls_select [OF assms(2,3)]] .
  from lr_step [OF this ls_stop] have "listen_reach serve srv (?at (L_selecting (svr_sock (li_server L))))"
    using assms(3,4) by (simp add: Server_stop_def)
  from lr_step [OF this ls_selected [where val = 0]] have "listen_reach serve srv (?at L_timeout)" by (cases L) simp
  from lr_step [OF this ls_timeout] show ?thesis by (cases L) simp
qed

lemma run_stop:
  assumes "listen_reach serve srv L" "li_pc L = L_loop" "svr_sock (li_server L) \<noteq> -1"
    "is_running (li_server L)" "li_threads L = 0"
  shows "listen_reach serve srv (L\<lparr>li_pc := L_returned True, li_stopping := Some (svr_sock (li_server L)),
    li_server := (li_server L)\<lparr>svr_sock := -1, is_running := False\<rparr>\<rparr>)"
proof -
  from lr_step [OF run_stop_loop [OF assms(1-4)] ls_drained [of _ True]] assms(5)
  have "listen_reach serve srv (L\<lparr>li_pc := L_drained True, li_stopping := Some (svr_sock (li_server L)),
    li_server := (li_server L)\<lparr>svr_sock := -1\<rparr>\<rparr>)" by (cases L) simp
  from lr_step [OF this ls_return [of _ True]] show ?thesis by (cases L) simp
qed

text \<open>C25: The count is taken too late: \<open>listen\<close> can return, successfully, while the thread of an
  accepted connection has not started; that thread then uses the server its owner may have
  destroyed.\<close>

theorem listen_returns_before_thread:
  assumes "svr_sock srv \<noteq> -1" "sock \<noteq> -1"
  shows "\<exists>L. listen_reach serve srv L \<and> li_pc L = L_returned True \<and> li_spawned L = [sock] \<and>
    \<not> is_running (li_server L)"
  using run_stop [OF run_accept [OF assms, of serve]] assms(1)
  by (intro exI [of _ "(listen_start srv)\<lparr>li_spawned := [sock], li_accepted := [sock],
      li_pc := L_returned True, li_stopping := Some (svr_sock srv),
      li_server := srv\<lparr>svr_sock := -1, is_running := False\<rparr>\<rparr>"]) (simp add: listen_start_def)

theorem listen_returns_before_thread_witness:
  "\<exists>L. listen_reach (\<lambda>_. Inr ()) (Server\<lparr>svr_sock := 3\<rparr>) L \<and> li_pc L = L_returned True \<and> li_spawned L = [4] \<and>
    \<not> is_running (li_server L)"
  by (rule listen_returns_before_thread) simp_all

text \<open>\<open>stop\<close> is not safe at every moment: just before the next \<open>select\<close> it makes the loop put
  descriptor -1 into a descriptor set, and called twice before \<open>listen\<close> has returned it fails
  its assertion.\<close>

theorem stop_can_corrupt:
  assumes "svr_sock srv \<noteq> -1"
  shows "(\<exists>L. listen_reach serve srv L \<and> li_pc L = L_undefined) \<and>
    (\<exists>L. listen_reach serve srv L \<and> li_pc L = L_terminated)"
proof -
  let ?L = "listen_start srv"
  let ?stopped = "?L\<lparr>li_stopping := Some (svr_sock srv), li_server := (li_server ?L)\<lparr>svr_sock := -1\<rparr>\<rparr>"
  have s: "li_pc ?L = L_loop" "svr_sock (li_server ?L) = svr_sock srv" "is_running (li_server ?L)"
    by (simp_all add: listen_start_def)
  have r: "listen_reach serve srv ?stopped"
    using lr_step [OF lr_start ls_stop [where L = ?L and sock = "svr_sock srv" and srv' = "(li_server ?L)\<lparr>svr_sock := -1\<rparr>"]]
      s assms by (simp add: Server_stop_def)
  have t: "li_pc ?stopped = L_loop" "svr_sock (li_server ?stopped) = -1" "is_running (li_server ?stopped)"
    "li_pc ?stopped \<noteq> L_terminated" using s by simp_all
  have again: "Server_stop (li_server ?stopped) = Inl (Aborts ''assert'')" using t(2,3) by (simp add: Server_stop_def)
  have "li_pc (?stopped\<lparr>li_pc := p\<rparr>) = p" for p by simp
  with lr_step [OF r ls_select_invalid [OF t(1,2)]] lr_step [OF r ls_stop_again [OF t(4) again]]
  show ?thesis by blast
qed

theorem stop_can_corrupt_witness:
  "(\<exists>L. listen_reach (\<lambda>_. Inr ()) (Server\<lparr>svr_sock := 3\<rparr>) L \<and> li_pc L = L_undefined) \<and>
    (\<exists>L. listen_reach (\<lambda>_. Inr ()) (Server\<lparr>svr_sock := 3\<rparr>) L \<and> li_pc L = L_terminated)"
  by (rule stop_can_corrupt) simp

subsection \<open>An exception in a connection thread\<close>





theorem connections_accounted_witness:
  "li_threads (listen_start Server) = int (length (li_serving (listen_start Server)) + li_leaving (listen_start Server)) \<and>
    mset (li_accepted (listen_start Server)) = mset (li_spawned (listen_start Server)) +
      mset (li_serving (listen_start Server)) + mset (li_served (listen_start Server))"
  by (rule connections_accounted [OF lr_start])

text \<open>One connection is accepted and served, then the server is stopped.\<close>

lemma run_serve:
  assumes "svr_sock srv \<noteq> -1" "sock \<noteq> -1" "serve sock = Inr r"
  shows "listen_reach serve srv ((listen_start srv)\<lparr>li_accepted := [sock], li_served := [sock]\<rparr>)"
proof -
  let ?a = "(listen_start srv)\<lparr>li_accepted := [sock]\<rparr>"
  have "listen_reach serve srv (?a\<lparr>li_serving := [sock], li_threads := 1\<rparr>)"
    using lr_step [OF run_accept [OF assms(1,2)] ls_enter [where sock = sock]] by (simp add: listen_start_def)
  from lr_step [OF this ls_serve [where sock = sock and serve = serve and r = r]] assms(3)
  have "listen_reach serve srv (?a\<lparr>li_leaving := 1, li_threads := 1, li_served := [sock]\<rparr>)"
    by (simp add: listen_start_def)
  from lr_step [OF this ls_leave] show ?thesis by (simp add: listen_start_def)
qed

theorem listen_waits_for_counted_threads_witness:
  "mset (li_accepted ((listen_start Server)\<lparr>li_accepted := [4], li_served := [4]\<rparr>)) =
    mset (li_served ((listen_start Server)\<lparr>li_accepted := [4], li_served := [4]\<rparr>))"
proof -
  let ?serve = "\<lambda>_. Inr () :: unit result" and ?srv = "Server\<lparr>svr_sock := 3\<rparr>"
  let ?L = "\<lambda>p. (listen_start ?srv)\<lparr>li_accepted := [4], li_served := [4], li_pc := p,
    li_stopping := Some 3, li_server := Server\<lparr>svr_sock := -1, is_running := True\<rparr>\<rparr>"
  let ?R = "(?L (L_returned True))\<lparr>li_server := Server\<lparr>svr_sock := -1, is_running := False\<rparr>\<rparr>"
  have start: "listen_reach ?serve ?srv ((listen_start ?srv)\<lparr>li_accepted := [4], li_served := [4]\<rparr>)"
    by (rule run_serve) simp_all
  have "listen_reach ?serve ?srv (?L (L_draining True))"
    using run_stop_loop [OF start] by (simp add: listen_start_def Server_def)
  moreover have "listen_step ?serve (?L (L_draining True)) (?L (L_drained True))"
    using ls_drained [of "?L (L_draining True)" True ?serve] by (simp add: listen_start_def)
  moreover have "listen_step ?serve (?L (L_drained True)) ?R"
    using ls_return [of "?L (L_drained True)" True ?serve] by (simp add: listen_start_def Server_def)
  ultimately have "mset (li_accepted ?R) = mset (li_served ?R)"
    by (intro listen_waits_for_counted_threads [where L = "?L (L_draining True)" and L' = ?R and r = True and r' = True])
      (blast intro: converse_rtranclp_into_rtranclp | simp add: listen_start_def)+
  then show ?thesis by (simp add: listen_start_def)
qed

end
