(* ===== verification/Spec2Isabelle.thy ===== *)
theory Spec2Isabelle
  imports MN_System NF_Eigen NF_SaveLoad NF_Dynamic HT_Gateway HT_Listen
begin

text \<open>
  \<^bold>\<open>A verification development for the Gladius masternode\<close> (\<open>src/src\<close>, C++).

  The masternode is a caching reverse proxy: it terminates HTTP for one protected domain, serves
  pages from an in-memory cache, fetches missing ones from the origin server, tells clients with
  direct requests the hashes of the cached assets and the edge nodes near them, and polls a
  gateway for the state of the peer-to-peer network.

  \<^bold>\<open>Parts.\<close> \<open>MasternodeServer.cpp\<close> fills a \<open>MasternodeConfig\<close> from the flags and makes a
  \<open>Masternode\<close>, which owns a \<open>NetworkState\<close> (edge nodes and a \<open>Geo\<close> lookup with a kd-tree), a
  \<open>ContentCache\<close>, a \<open>ServiceWorker\<close> and a \<open>Router\<close>. For each request the router creates one handler:
  \<open>RejectHandler\<close>, \<open>RedirectHandler\<close>, \<open>DirectHandler\<close>, \<open>ServiceWorkerHandler\<close> or \<open>ProxyHandler\<close>.
  Two header-only libraries are kept in the repository: \<open>libs/nanoflann.hpp\<close> finds the nearest
  edge nodes, and \<open>libs/httplib.h\<close> is the HTTP client with which \<open>NetworkState\<close> polls the gateway;
  the tests run its server as the gateway.

  \<^bold>\<open>Theories\<close>, one per part, in the order they build on each other:
  \<^item> \<open>MN_Prelude\<close>: C++ outcomes as values (\<open>'a result\<close>: returns, throws, undefined, diverges,
    aborts), strings and vectors; the rule collections.
  \<^item> \<open>MN_Config\<close>: \<open>MasternodeConfig.h\<close> and \<open>main\<close>; the invariant of the listeners.
  \<^item> \<open>MN_EdgeNode\<close>: \<open>Location.h\<close>, \<open>EdgeNode.h/.cpp\<close>; edge nodes are identified by their names.
  \<^item> \<open>NF_ResultSet\<close>, \<open>NF_Metric\<close>, \<open>NF_KDTree\<close>, \<open>NF_Search\<close>: \<open>libs/nanoflann.hpp\<close> as the program
    instantiates it. The result sets refine a sorted list cut at the capacity; the tree
    construction partitions, terminates and keeps all points; the search is exact. The locales
    \<open>result_set\<close>, \<open>distance_functor\<close> and \<open>kd_search\<close> are the template interfaces.
  \<^item> \<open>NF_Adaptors\<close>, \<open>NF_SaveLoad\<close>: the other metrics of that library, whose unrolled loops are
    equivalent to the simple one, and the saving and loading of an index.
  \<^item> \<open>NF_Pool\<close>, \<open>NF_Api\<close>: the pooled allocator of the tree's nodes, which hands out disjoint memory,
    and the remaining queries of the index.
  \<^item> \<open>NF_DynTree\<close>, \<open>NF_Dynamic\<close>: the dynamic index of that library, a forest of trees that grows
    like a binary counter; it refines a set of points, under the history of additions and
    removals that the code really implements (merging trees brings removed points back).
    \<open>NF_Eigen\<close>: the adaptor for matrices.
  \<^item> \<open>MN_Geo\<close>: \<open>Geo.h/.cpp\<close>; squared chord length orders points as the great-circle distance.
  \<^item> \<open>MN_NetworkState\<close>: \<open>NetworkState.h/.cpp\<close>; what an update publishes, and nearest nodes.
  \<^item> \<open>MN_Polling\<close>: the critical sections of updates and queries interleaved, with the race
    between the two locks.
  \<^item> \<open>MN_Cache\<close>: \<open>Cache.h/.cpp\<close>; the first insertion of a URL counts; pages and hashes agree.
    The locale \<open>insert_once\<close> is what the code needs of its hash maps.
  \<^item> \<open>MN_Http\<close>: proxygen's messages and URLs, JSON and HTML as parameters.
  \<^item> \<open>MN_ServiceWorker\<close>, \<open>MN_Handlers\<close>: the script injection and the four handlers that answer at
    once, which share the locale \<open>one_shot_handler\<close>.
  \<^item> \<open>MN_Proxy\<close>, \<open>MN_Relay\<close>: \<open>ProxyHandler.h/.cpp\<close> as a state machine over its callbacks, the
    lifetime of the object, and what it relays and caches.
  \<^item> \<open>MN_Router\<close>, \<open>MN_Server\<close>, \<open>MN_System\<close>: \<open>Router.h/.cpp\<close>, \<open>Masternode.h/.cpp\<close> and the running server
    with all live handlers. This theory holds the properties of the running server.
  \<^item> \<open>HT_Text\<close>, \<open>HT_Stream\<close>, \<open>HT_Headers\<close>, \<open>HT_Message\<close>, \<open>HT_Url\<close>: the base of \<open>libs/httplib.h\<close>. C strings,
    \<open>std::stoi\<close> and the regular expressions, with a denotation that the matcher is shown to
    compute; streams and the line reader, over the locale \<open>byte_source\<close> (a socket delivers its bytes
    in arbitrary pieces); headers as a multimap, over the locale \<open>multimap_order\<close>; the readers and
    writers of headers and bodies, each reader with a reference on the plain string of the bytes
    that it is shown to agree with; percent encoding, UTF-8 and queries.
  \<^item> \<open>HT_Client\<close>, \<open>HT_Server\<close>: \<open>httplib::Client\<close> over the locale \<open>byte_channel\<close>, and \<open>httplib::Server\<close>.
  \<^item> \<open>HT_RoundTrip\<close>, \<open>HT_Requests\<close>: each end of a connection reads what the other one wrote; the
    locale \<open>byte_sink\<close> is what the writers need of a stream.
  \<^item> \<open>HT_Typing\<close>: what can be in a message, whatever the peer sent.
  \<^item> \<open>HT_Gateway\<close>: a polling round of \<open>NetworkState\<close> over a real connection, from bytes to the
    published nodes; a silent gateway blocks the poller, a malformed length makes it throw.
  \<^item> \<open>HT_Files\<close>: file requests stay below the base directory, against a reference that resolves
    paths as the file system does.
  \<^item> \<open>HT_Listen\<close>: the accept loop, its threads and \<open>stop\<close> as a step relation.

  \<^bold>\<open>Correspondence.\<close> Definitions have the names of the C++ functions (with the class in front where
  two classes share a name); fields keep their names without the final underscore. A method
  that changes its object is a function to the new object; references are returned. Integers are
  words of their width where they may wrap or be cut off (ports, heartbeats, sizes of flags),
  \<open>nat\<close> for the sizes and indices of vectors in memory, and \<open>double\<close> is \<open>real\<close>: rounding, overflow
  and NaN of floating point are not modelled. Logging is left out.

  \<^bold>\<open>Termination.\<close> Loops are recursive functions with a measure. \<open>divideTree\<close> and \<open>load_tree\<close> may
  not end for arbitrary arguments, so that they return \<open>None\<close> then; the properties show the
  result is \<open>Some\<close>. The loops of \<open>libs/httplib.h\<close> that read until the peer closes, and those over
  multipart bodies, are partial functions as well: \<open>loopE\<close> turns a loop that never ends, or a read
  that never returns, into the outcome \<open>Diverges\<close>. The references are total, so that agreeing with
  them shows when the loops end. There is no fuel.

  \<^bold>\<open>Assumptions\<close> are named predicates on the library parameters: \<open>buf_ok\<close> (folly's \<open>IOBuf\<close>),
  \<open>http_ok\<close> (header operations keep URL and method), \<open>json_ok\<close>, \<open>json_std\<close>, \<open>geo_ready\<close>,
  \<open>layout_ok\<close>; and \<open>allowed\<close>, the order in which proxygen calls a handler. Round trips of messages
  are for headers that the syntax of HTTP can express (\<open>headers_good\<close>), bodies whose framing the
  headers announce (\<open>framed\<close>) and paths that need no encoding (\<open>plain_path\<close>). The samples show
  that they can hold together.

  \<^bold>\<open>Not modelled.\<close> Of \<open>libs/httplib.h\<close> the parts under \<open>CPPHTTPLIB_OPENSSL_SUPPORT\<close> and
  \<open>CPPHTTPLIB_ZLIB_SUPPORT\<close> (TLS and compression), which the program does not define, and the logger
  of the server; name resolution, \<open>socket\<close>, \<open>connect\<close>, \<open>select\<close>, \<open>recv\<close>, \<open>send\<close> and the file system are
  parameters, and \<open>std::regex\<close> is taken to have all the memory it needs. Of nanoflann nothing but
  its template machinery is left out; in \<open>divideTree\<close> a node is a value, not an address, and \<open>NF_Pool\<close>
  models the addresses by themselves. \<open>Router::logRequest\<close> and other logging, proxygen's thread and compression
  options, and the tests are left out. Callbacks that a library might make synchronously, from
  within a call that a handler makes to it, are not represented: a callback starts when the
  previous one has ended.
\<close>

subsection \<open>A sample server\<close>

definition sample_libs :: "(sample_msg, string list, string \<times> string, string, unit, sample_value) server_libs" where
  "sample_libs = \<lparr>sl_http = sample_http, sl_url = sample_urls, sl_buf = sample_buf,
     sl_cache = sample_cache_lib\<lparr>refuses := \<lambda>_ _. None\<rparr>, sl_html = sample_html, sl_addr_fails = (\<lambda>_ _. False),
     sl_dynamic = sample_dynamic, sl_start = (\<lambda>_. Inr True)\<rparr>"

definition sample_masternode :: "(sample_msg, string list, string) masternode" where
  "sample_masternode = (let config = main_config sample_flags; sw = \<lparr>payload = ''p'', inject_script = INJECT_SCRIPT\<rparr> in
     \<lparr>mn_bound = None, mn_running = False, mn_config = config, mn_state = None,
      mn_cache = ContentCache (unat (maxRoutesToCache config)) (cache_directory config) (enableP2P config) Map.empty,
      mn_sw = Some sw, mn_router = \<lparr>r_cache = Some Cache_ptr, r_config = Some config, r_state = None, r_sw = Some sw, r_timer = False\<rparr>,
      mn_polling = False\<rparr>)"

lemma sample_flags_config [simp]:
  "enableP2P (main_config sample_flags) = False" "enableServiceWorker (main_config sample_flags) = True"
  "upgrade_insecure (main_config sample_flags)" "origin_host (main_config sample_flags) = ''0.0.0.0''"
  by (simp_all add: main_config_def setup_ssl_def default_config_def Let_def)

lemma sample_constructed:
  "Masternode (\<lambda>_. Inl System_error) (\<lambda>_. Some ''p'') Map.empty (Some (main_config sample_flags)) = Inr sample_masternode"
  by (simp add: Masternode_def sample_masternode_def ServiceWorker_def Router_def Let_def)

definition sample_secure :: sample_msg where
  "sample_secure = (sample_request ''/a'')\<lparr>s_secure := True\<rparr>"

definition sample_started :: "(sample_msg, string list, string) masternode" where
  "sample_started = sample_masternode\<lparr>mn_bound := Some (IPs (main_config sample_flags)), mn_running := True,
     mn_router := onServerStart (mn_router sample_masternode)\<rparr>"

lemma sample_libs_sel [simp]:
  "sl_http sample_libs = sample_http" "sl_buf sample_libs = sample_buf" "sl_start sample_libs = (\<lambda>_. Inr True)"
  "refuses (sl_cache sample_libs) ks k = None" "open_fails (sl_cache sample_libs) f = None"
  by (simp_all add: sample_libs_def sample_cache_lib_def)

lemma sample_reach_started:
  "server_reach sample_libs sample_masternode \<lparr>w_mn = sample_started, w_live = Map.empty\<rparr>"
proof -
  let ?W = "\<lparr>w_mn = sample_masternode, w_live = Map.empty\<rparr> :: (sample_msg, string list, string, string \<times> string, string, unit) world"
  have "Masternode_start (sl_start sample_libs) (w_mn ?W) = Inr sample_started"
    by (simp add: Masternode_start_def sample_started_def sample_masternode_def Let_def)
  moreover have "\<not> mn_running (w_mn ?W)" by (simp add: sample_masternode_def Let_def)
  ultimately have "server_step sample_libs ?W (?W\<lparr>w_mn := sample_started\<rparr>)" by (intro sv_start)
  from sv_next [OF sv_init this] show ?thesis by simp
qed

text \<open>A secure request is being fetched from the origin.\<close>

lemma sample_reach_request:
  "\<exists>W E p. server_reach sample_libs sample_masternode W \<and> w_live W 0 = Some (E, [X_onRequest sample_secure], L_connecting, p) \<and>
     \<not> px_deleted p"
proof -
  let ?W = "\<lparr>w_mn = sample_started, w_live = Map.empty\<rparr> :: (sample_msg, string list, string, string \<times> string, string, unit) world"
  let ?E = "new_proxy_env sample_libs (main_config sample_flags) (mn_sw sample_masternode)"
  have route: "Router_onRequest (sl_http sample_libs) (mn_router (w_mn ?W)) sample_secure =
      Inr (H_Proxy True Cache_ptr (main_config sample_flags) (mn_sw sample_masternode), sample_secure)"
    by (simp add: Router_onRequest_def sample_started_def sample_masternode_def onServerStart_def sample_secure_def
        sample_request_def requestIsValid_def sample_header_def DIRECT_HEADER_NAME_def Let_def)
  have "getCachedRoute (mn_cache sample_started) u = None" for u
    by (simp add: sample_started_def sample_masternode_def Let_def)
  then obtain p where h: "px_handle ?E (X_onRequest sample_secure) (ProxyHandler, mn_cache sample_started) = Inr (p, mn_cache sample_started)"
    and p: "next_lib L_fresh (X_onRequest sample_secure) p = L_connecting" "\<not> px_deleted p"
    by (simp add: px_handle_def ProxyHandler_onRequest_def fetch_from_origin_def Let_def next_lib_def asked_to_connect_def
        new_proxy_env_def ProxyHandler_def emit_def sample_libs_def)
  have "server_step sample_libs ?W \<lparr>w_mn = set_cache (mn_cache sample_started) sample_started,
      w_live = (w_live ?W)(0 \<mapsto> (?E, [X_onRequest sample_secure], L_connecting, p))\<rparr>"
    using sv_request [of ?W 0 sample_libs, OF _ _ route refl] h p(1) by (simp add: sample_started_def)
  from sv_next [OF sample_reach_started this] p(2) show ?thesis by fastforce
qed

subsection \<open>Properties\<close>

text \<open>
  C2: the invariant of the running masternode, over every order of requests, callbacks,
  polling rounds, starts and stops: there is a network state exactly with the p2p network and a
  service worker exactly when enabled, the tree of the network state agrees with its list, the
  cache holds every page under its own URL with the hash of its bytes (and on disk under that
  hash, with p2p), and no client has got two responses.
\<close>

theorem server_invariant:
  assumes "buf_ok (sl_buf Ls)" "Masternode open_db readFile fs config = Inr S0" "server_reach Ls S0 W"
  shows "(mn_state (w_mn W) \<noteq> None \<longleftrightarrow> enableP2P (mn_config S0)) \<and>
     (mn_sw (w_mn W) \<noteq> None \<longleftrightarrow> enableServiceWorker (mn_config S0)) \<and>
     (\<forall>ns. mn_state (w_mn W) = Some ns \<longrightarrow> ns_consistent (mn_config S0) ns) \<and>
     cache_ok (sl_buf Ls) (sl_cache Ls) (mn_cache (w_mn W)) \<and>
     cc_write_to_disk (mn_cache (w_mn W)) = enableP2P (mn_config S0) \<and>
     (\<forall>i E evs st p. w_live W i = Some (E, evs, st, p) \<longrightarrow> length (responses p) \<le> 1)"
proof -
  from server_reach_ok [OF assms] have W: "world_ok Ls W" and c: "mn_config (w_mn W) = mn_config S0" by simp_all
  have "length (responses p) \<le> 1" if "w_live W i = Some (E, evs, st, p)" for i E evs st p
    using world_okD [OF W that] px_trace_lifetime by (fastforce simp: live_ok_def lifetime_ok_def)
  then show ?thesis using W c by (simp add: world_ok_def mn_ok_def)
qed

theorem server_invariant_witness:
  "\<exists>W :: (sample_msg, string list, string, string \<times> string, string, unit) world.
     server_reach sample_libs sample_masternode W \<and> w_live W 0 \<noteq> None \<and>
     cache_ok (sl_buf sample_libs) (sl_cache sample_libs) (mn_cache (w_mn W))"
proof -
  obtain W E p where W: "server_reach sample_libs sample_masternode W" "w_live W 0 = Some (E, [X_onRequest sample_secure], L_connecting, p)"
    using sample_reach_request by blast
  have B: "buf_ok (sl_buf sample_libs)" by (simp add: sample_buf_ok)
  from server_invariant [OF B sample_constructed W(1)] W show ?thesis by blast
qed



text \<open>
  C10: what clients verify. In every reachable state of the server, the reply to a direct
  request maps every cached URL to the hash of exactly the bytes that the cache serves for this
  URL, and no other URL.
\<close>

theorem direct_hashes_match_content:
  assumes "buf_ok (sl_buf Ls)" "Masternode open_db readFile fs config = Inr S0" "server_reach Ls S0 W"
    and "json_ok J V" "reported_nodes (sl_http Ls) (mn_config S0) (mn_state (w_mn W)) m = Inr nodes"
  shows "\<exists>j hs. DirectHandler_onRequest (sl_http Ls) J (mn_cache (w_mn W)) (mn_config S0) (mn_state (w_mn W)) m =
       Inr [\<lparr>status = 200, reason = ''OK'', resp_headers = [(''Content-Type'', ''application/json'')],
             resp_body = Some (toJson J j)\<rparr>] \<and>
     member V j ''assetHashes'' = Some hs \<and>
     (\<forall>u. member V hs u =
        (case getCachedRoute (mn_cache (w_mn W)) u of
           None \<Rightarrow> None
         | Some r \<Rightarrow> Some (j_string J (content_hash (sl_cache Ls) (chain_bytes (sl_buf Ls) (getContent (sl_buf Ls) r))))))"
proof -
  have W: "cache_ok (sl_buf Ls) (sl_cache Ls) (mn_cache (w_mn W))"
    using server_reach_ok [OF assms(1-3)] by (simp add: world_ok_def)
  then have d: "distinct_keys (routes (mn_cache (w_mn W)))" by (simp add: cache_ok_def)
  have hash: "getHash r = content_hash (sl_cache Ls) (chain_bytes (sl_buf Ls) (getContent (sl_buf Ls) r))"
    if "getCachedRoute (mn_cache (w_mn W)) u = Some r" for u r
    using that W assms(1) map_of_SomeD by (fastforce simp: getCachedRoute_def map_find_def cache_ok_def route_ok_def getContent_def buf_ok_def)
  from direct_reply [OF assms(4) d assms(5)] obtain j hs where
    r: "DirectHandler_onRequest (sl_http Ls) J (mn_cache (w_mn W)) (mn_config S0) (mn_state (w_mn W)) m =
       Inr [\<lparr>status = 200, reason = ''OK'', resp_headers = [(''Content-Type'', ''application/json'')],
             resp_body = Some (toJson J j)\<rparr>]"
    and hs: "member V j ''assetHashes'' = Some hs"
    and all: "\<And>u. member V hs u = map_option (\<lambda>r. j_string J (getHash r)) (getCachedRoute (mn_cache (w_mn W)) u)" by blast
  have "member V hs u = (case getCachedRoute (mn_cache (w_mn W)) u of None \<Rightarrow> None
      | Some r \<Rightarrow> Some (j_string J (content_hash (sl_cache Ls) (chain_bytes (sl_buf Ls) (getContent (sl_buf Ls) r)))))" for u
    using all [of u] hash [of u] by (simp split: option.splits)
  with r hs show ?thesis by blast
qed

theorem direct_hashes_match_content_witness:
  "\<exists>(W :: (sample_msg, string list, string, string \<times> string, string, unit) world) rs.
     server_reach sample_libs sample_masternode W \<and>
     DirectHandler_onRequest (sl_http sample_libs) sample_json_lib (mn_cache (w_mn W)) (mn_config sample_masternode) (mn_state (w_mn W))
       sample_secure = Inr rs"
proof -
  let ?W = "\<lparr>w_mn = sample_started, w_live = Map.empty\<rparr> :: (sample_msg, string list, string, string \<times> string, string, unit) world"
  have B: "buf_ok (sl_buf sample_libs)" by (simp add: sample_buf_ok)
  have "reported_nodes (sl_http sample_libs) (mn_config sample_masternode) (mn_state (w_mn ?W)) sample_secure = Inr None"
    by (simp add: reported_nodes_def sample_started_def sample_masternode_def Let_def)
  from direct_hashes_match_content [OF B sample_constructed sample_reach_started sample_json_ok this] sample_reach_started
  show ?thesis by blast
qed

end
